(* ===== verification/Prelude.thy ===== *)
theory Prelude
  imports Main "HOL-Library.Word"
begin

section \<open>Prelude: errors, strings, maps\<close>

text \<open>
  What every component of the TalkGo backend shares: Go error values and the two questions
  the code asks of them (\<open>errors.Is\<close> and \<open>Error()\<close>), byte strings, the enumeration order of a
  Go map, the clock, and the rule collections the component theories add to.

  A Go \<open>string\<close> is a byte sequence; it is a HOL \<open>string\<close> here, whose characters are bytes, so
  \<open>length\<close> is Go's \<open>len\<close>.  Instants and durations are nanoseconds (\<open>int\<close>); the zero
  \<open>time.Time\<close>, which \<open>IsZero\<close> recognises, is \<open>None\<close> where a field can hold it.
\<close>

named_theorems op_defs "definitions of the operations, unfolded by the functional proofs"
named_theorems frame_simps "what an operation leaves unchanged"
named_theorems inv_intros "an operation preserves an invariant"

subsection \<open>Time\<close>

type_synonym time = int

abbreviation second :: time where
  "second \<equiv> 1000000000"

abbreviation millisecond :: time where
  "millisecond \<equiv> 1000000"

text \<open>Go's integer conversion of \<open>d.Seconds()\<close> truncates towards zero.\<close>

definition whole_seconds :: "time \<Rightarrow> int" where
  "whole_seconds d = sgn d * (\<bar>d\<bar> div second)"

lemma whole_seconds_nonneg: "0 \<le> d \<Longrightarrow> whole_seconds d = d div second"
  by (cases "d = 0") (auto simp: whole_seconds_def)

subsection \<open>Go errors\<close>

text \<open>
  The sentinel errors of the backend, one constructor per \<open>errors.New\<close> variable of the packages
  room, session, driving and roomsvc.
\<close>

datatype sentinel =
    ErrInvalidLanguageCode | ErrRoomFull | ErrRoomClosed | ErrAlreadyInRoom | ErrNotInRoom
  | ErrShortCodeExhausted | ErrInvalidTransition | ErrRoomNotFound | ErrUnknownMessageType
  | ErrSessionNotFound | ErrMissingLang | ErrLangNotSupported | ErrNilDependency
  | ErrShortCodeConflict

fun sentinel_text :: "sentinel \<Rightarrow> string" where
  "sentinel_text ErrInvalidLanguageCode =
     ''invalid language code: must be ISO 639-1 (2 characters)''"
| "sentinel_text ErrRoomFull = ''room is full''"
| "sentinel_text ErrRoomClosed = ''room is closed''"
| "sentinel_text ErrAlreadyInRoom = ''user is already in this room''"
| "sentinel_text ErrNotInRoom = ''user is not in this room''"
| "sentinel_text ErrShortCodeExhausted = ''room: short code generation exhausted retries''"
| "sentinel_text ErrInvalidTransition = ''invalid session state transition''"
| "sentinel_text ErrRoomNotFound = ''room not found''"
| "sentinel_text ErrUnknownMessageType = ''unknown signaling message type''"
| "sentinel_text ErrSessionNotFound = ''session not found''"
| "sentinel_text ErrMissingLang = ''lang is required''"
| "sentinel_text ErrLangNotSupported = ''lang not supported in room''"
| "sentinel_text ErrNilDependency = ''nil dependency''"
| "sentinel_text ErrShortCodeConflict = ''short code already in use''"

text \<open>
  An error value: a sentinel, \<open>fmt.Errorf("prefix: %w", err)\<close>, or an error of a library.
\<close>

datatype gerror =
    Sentinel sentinel
  | Wrapped string gerror
  | Foreign string

text \<open>\<open>errors.Is(err, target)\<close> follows the chain of wrapped errors.\<close>

fun errors_Is :: "gerror \<Rightarrow> sentinel \<Rightarrow> bool" where
  "errors_Is (Sentinel s) t = (s = t)"
| "errors_Is (Wrapped _ e) t = errors_Is e t"
| "errors_Is (Foreign _) t = False"

text \<open>\<open>err.Error()\<close>: a wrapping format always ends in \<open>": %w"\<close>.\<close>

fun error_text :: "gerror \<Rightarrow> string" where
  "error_text (Sentinel s) = sentinel_text s"
| "error_text (Wrapped p e) = p @ '': '' @ error_text e"
| "error_text (Foreign m) = m"

text \<open>An error is at most one sentinel, so the order of the \<open>errors.Is\<close> tests is irrelevant.\<close>

lemma errors_Is_unique: "errors_Is e s \<Longrightarrow> errors_Is e t \<Longrightarrow> s = t"
  by (induction e) auto

subsection \<open>Strings\<close>

text \<open>
  \<open>strings.ToUpper\<close> on ASCII text (bytes outside \<open>a\<close>..\<open>z\<close> are kept).
\<close>

definition upper_char :: "char \<Rightarrow> char" where
  "upper_char c =
     (let n = of_char c :: nat in if 97 \<le> n \<and> n \<le> 122 then char_of (n - 32) else c)"

definition ToUpper :: "string \<Rightarrow> string" where
  "ToUpper s = map upper_char s"

lemma upper_char_idem [simp]: "upper_char (upper_char c) = upper_char c"
  by (auto simp: upper_char_def Let_def)

lemma ToUpper_idem [simp]: "ToUpper (ToUpper s) = ToUpper s"
  by (simp add: ToUpper_def)

text \<open>\<open>key[:len(prefix)] == prefix\<close> together with the strict length test of the service.\<close>

definition strict_prefix_match :: "string \<Rightarrow> string \<Rightarrow> bool" where
  "strict_prefix_match prefix key \<longleftrightarrow>
     length key > length prefix \<and> take (length prefix) key = prefix"

lemma strict_prefix_match_append [simp]:
  "strict_prefix_match p (p @ xs) \<longleftrightarrow> xs \<noteq> []"
  by (auto simp: strict_prefix_match_def)

lemma strict_prefix_matchE:
  assumes "strict_prefix_match p key"
  obtains xs where "key = p @ xs" and "xs \<noteq> []"
proof -
  have "key = p @ drop (length p) key"
    using assms by (metis append_take_drop_id strict_prefix_match_def)
  moreover have "drop (length p) key \<noteq> []"
    using assms by (simp add: strict_prefix_match_def)
  ultimately show thesis by (rule that)
qed

text \<open>
  A string up to its first separator determines both parts: the key \<open>roomID:userID\<close> can be
  taken apart as long as the room ID holds no separator.
\<close>

lemma separated_append_eq:
  assumes "c \<notin> set xs" and "c \<notin> set ys"
  shows "xs @ c # us = ys @ c # vs \<longleftrightarrow> xs = ys \<and> us = vs"
  using assms
proof (induction xs arbitrary: ys)
  case Nil
  then show ?case by (cases ys) auto
next
  case (Cons x xs)
  then show ?case by (cases ys) auto
qed

subsection \<open>Go maps\<close>

text \<open>
  A Go map is a HOL map; a \<open>range\<close> loop visits its keys in an order the runtime picks, so an
  operation whose result can depend on it takes the order as an argument: a list that holds
  each key once.
\<close>

definition enumerates :: "'k list \<Rightarrow> ('k \<rightharpoonup> 'v) \<Rightarrow> bool" where
  "enumerates ks m \<longleftrightarrow> distinct ks \<and> set ks = dom m"

lemma enumerates_distinct: "enumerates ks m \<Longrightarrow> distinct ks"
  by (simp add: enumerates_def)

lemma enumerates_mem: "enumerates ks m \<Longrightarrow> m k = Some v \<Longrightarrow> k \<in> set ks"
  by (auto simp: enumerates_def)

lemma enumerates_Nil: "enumerates [] (\<lambda>_. None)"
  by (simp add: enumerates_def)

lemma enumerates_finite: "enumerates ks m \<Longrightarrow> finite (dom m)"
  by (metis List.finite_set enumerates_def)

text \<open>Deleting the keys that satisfy a condition.\<close>

definition map_delete :: "('k \<Rightarrow> 'v \<Rightarrow> bool) \<Rightarrow> ('k \<rightharpoonup> 'v) \<Rightarrow> ('k \<rightharpoonup> 'v)" where
  "map_delete P m = (\<lambda>k. case m k of None \<Rightarrow> None | Some v \<Rightarrow> if P k v then None else Some v)"

lemma map_delete_Some [simp]:
  "map_delete P m k = Some v \<longleftrightarrow> m k = Some v \<and> \<not> P k v"
  by (auto simp: map_delete_def split: option.splits if_splits)

lemma map_delete_None:
  "map_delete P m k = None \<longleftrightarrow> (case m k of None \<Rightarrow> True | Some v \<Rightarrow> P k v)"
  by (auto simp: map_delete_def split: option.splits if_splits)

lemma find_enumerated:
  assumes "enumerates ks m" and "m k = Some v" and "P k"
  shows "\<exists>k'. List.find P ks = Some k' \<and> P k' \<and> k' \<in> dom m"
proof -
  have "k \<in> set ks" using assms by (auto simp: enumerates_def)
  then have "List.find P ks \<noteq> None" using assms(3) by (auto simp: find_None_iff)
  then obtain k' where "List.find P ks = Some k'" by auto
  moreover from this have "P k'" "k' \<in> set ks" by (auto simp: find_Some_iff)
  ultimately show ?thesis using assms(1) by (auto simp: enumerates_def)
qed

end
