(* ===== verification/Room.thy ===== *)
theory Room
  imports Prelude
begin

section \<open>The room: internal/domain/room/room.go\<close>

text \<open>
  The \<open>Room\<close> aggregate and its methods.  A method that can fail returns the sentinel or the new
  room; every failing branch of the code returns before it writes, so an error leaves the room as
  it was.  The participants are the key set of the code's map.
\<close>

record room =
  rm_ID :: string
  rm_SourceLang :: string
  rm_TargetLang :: string
  rm_ShortCode :: string
  rm_CreatedAt :: time
  rm_LastActivity :: "time option"
  rm_Active :: bool
  rm_Participants :: "string set"
  rm_Capacity :: int

definition defaultCapacity :: int where
  "defaultCapacity = 2"

definition shortCodeLen :: nat where
  "shortCodeLen = 6"

definition shortCodeAlphabet :: string where
  "shortCodeAlphabet = ''ABCDEFGHJKLMNPQRSTUVWXYZ23456789''"

definition NewRoom :: "string \<Rightarrow> string \<Rightarrow> string \<Rightarrow> time \<Rightarrow> gerror + room" where
  "NewRoom rid src tgt now =
     (if length src \<noteq> 2 \<or> length tgt \<noteq> 2 then Inl (Sentinel ErrInvalidLanguageCode)
      else Inr \<lparr>rm_ID = rid, rm_SourceLang = src, rm_TargetLang = tgt, rm_ShortCode = [],
                rm_CreatedAt = now, rm_LastActivity = None, rm_Active = True,
                rm_Participants = {}, rm_Capacity = defaultCapacity\<rparr>)"

definition Join :: "room \<Rightarrow> string \<Rightarrow> gerror + room" where
  "Join r u =
     (if \<not> rm_Active r then Inl (Sentinel ErrRoomClosed)
      else if u \<in> rm_Participants r then Inl (Sentinel ErrAlreadyInRoom)
      else if int (card (rm_Participants r)) \<ge> rm_Capacity r then Inl (Sentinel ErrRoomFull)
      else Inr (r\<lparr>rm_Participants := insert u (rm_Participants r)\<rparr>))"

definition Leave :: "room \<Rightarrow> string \<Rightarrow> gerror + room" where
  "Leave r u =
     (if u \<notin> rm_Participants r then Inl (Sentinel ErrNotInRoom)
      else Inr (r\<lparr>rm_Participants := rm_Participants r - {u}\<rparr>))"

definition IsFull :: "room \<Rightarrow> bool" where
  "IsFull r \<longleftrightarrow> int (card (rm_Participants r)) \<ge> rm_Capacity r"

definition Close :: "room \<Rightarrow> room" where
  "Close r = r\<lparr>rm_Active := False, rm_Participants := {}\<rparr>"

definition TouchActivity :: "room \<Rightarrow> time \<Rightarrow> room" where
  "TouchActivity r now = r\<lparr>rm_LastActivity := Some now\<rparr>"

subsection \<open>Short codes\<close>

text \<open>
  An \<open>io.Reader\<close> as \<open>io.ReadFull\<close> sees it: the bytes it still delivers and the error it reports
  when they run out.  \<open>ReadFull\<close> returns exactly \<open>n\<close> bytes or that error.
\<close>

record reader =
  rd_bytes :: "8 word list"
  rd_err :: gerror

definition ReadFull :: "reader \<Rightarrow> nat \<Rightarrow> (gerror + 8 word list) \<times> reader" where
  "ReadFull rd n =
     (if length (rd_bytes rd) < n then (Inl (rd_err rd), rd\<lparr>rd_bytes := []\<rparr>)
      else (Inr (take n (rd_bytes rd)), rd\<lparr>rd_bytes := drop n (rd_bytes rd)\<rparr>))"

definition code_char :: "8 word \<Rightarrow> char" where
  "code_char v = shortCodeAlphabet ! (unat v mod length shortCodeAlphabet)"

definition GenerateShortCode :: "reader \<Rightarrow> (gerror + string) \<times> reader" where
  "GenerateShortCode rd =
     (case ReadFull rd shortCodeLen of
        (Inl e, rd') \<Rightarrow> (Inl (Wrapped ''room.GenerateShortCode'' e), rd')
      | (Inr b, rd') \<Rightarrow> (Inr (map code_char b), rd'))"

lemma length_shortCodeAlphabet [simp]: "length shortCodeAlphabet = 32"
  by (simp add: shortCodeAlphabet_def)

lemma code_char_in_alphabet: "code_char v \<in> set shortCodeAlphabet"
  unfolding code_char_def by (rule nth_mem) simp

lemma GenerateShortCode_Inr:
  assumes "GenerateShortCode rd = (Inr c, rd')"
  shows "length c = shortCodeLen \<and> set c \<subseteq> set shortCodeAlphabet"
  using assms code_char_in_alphabet
  by (auto simp: GenerateShortCode_def ReadFull_def split: if_splits)

lemma upper_alphabet: "c \<in> set shortCodeAlphabet \<Longrightarrow> upper_char c = c"
  by (auto simp: shortCodeAlphabet_def upper_char_def Let_def)

lemma ToUpper_code: "set c \<subseteq> set shortCodeAlphabet \<Longrightarrow> ToUpper c = c"
  unfolding ToUpper_def by (rule map_idI) (auto intro: upper_alphabet)

lemma distinct_shortCodeAlphabet: "distinct shortCodeAlphabet"
  by (simp add: shortCodeAlphabet_def)

text \<open>The modulus divides the number of bytes: every letter has the same eight preimages.\<close>

lemma unat_small_byte: "n < 256 \<Longrightarrow> unat (word_of_nat n :: 8 word) = n"
  by (simp add: unsigned_of_nat take_bit_nat_eq_self)

lemma bytes_with_residue:
  assumes "i < 32"
  shows "card {v :: 8 word. unat v mod 32 = i} = 8"
proof -
  let ?f = "\<lambda>k. word_of_nat (32 * k + i) :: 8 word"
  have f: "unat (?f k) = 32 * k + i" if "k < 8" for k
    using that assms by (intro unat_small_byte) simp
  have "{v :: 8 word. unat v mod 32 = i} = ?f ` {..<8}"
  proof (intro set_eqI iffI)
    fix v :: "8 word"
    assume "v \<in> {v. unat v mod 32 = i}"
    then have "32 * (unat v div 32) + i = unat v" by (auto simp: mult_div_mod_eq)
    then have "?f (unat v div 32) = word_of_nat (unat v)" by (rule arg_cong)
    also have "\<dots> = v" by (simp add: of_nat_unat)
    finally have "v = ?f (unat v div 32)" by (rule sym)
    moreover have "unat v < 2 ^ LENGTH(8)" by (rule unsigned_less)
    then have "unat v div 32 < 8" by (simp add: less_mult_imp_div_less)
    ultimately show "v \<in> ?f ` {..<8}" by blast
  next
    fix v :: "8 word"
    assume "v \<in> ?f ` {..<8}"
    then obtain k where k: "k < 8" "v = ?f k" by blast
    have "unat v = 32 * k + i" unfolding k(2) by (rule f [OF k(1)])
    then show "v \<in> {v. unat v mod 32 = i}" using assms by simp
  qed
  moreover have "inj_on ?f {..<8}"
  proof (rule inj_onI)
    fix j k :: nat
    assume "j \<in> {..<8}" "k \<in> {..<8}" and eq: "?f j = ?f k"
    then have "32 * j + i = 32 * k + i" using f by (metis lessThan_iff)
    then show "j = k" by simp
  qed
  ultimately show ?thesis by (simp add: card_image)
qed

lemma code_char_uniform:
  assumes "c \<in> set shortCodeAlphabet"
  shows "card {v. code_char v = c} = 8"
proof -
  from assms obtain i where i: "i < 32" "c = shortCodeAlphabet ! i"
    by (metis in_set_conv_nth length_shortCodeAlphabet)
  have "code_char v = c \<longleftrightarrow> unat v mod 32 = i" for v
    using distinct_shortCodeAlphabet i
    by (simp add: code_char_def nth_eq_iff_index_eq)
  then show ?thesis using bytes_with_residue [OF i(1)] by simp
qed

subsection \<open>Invariants of a room under its methods\<close>

definition room_ok :: "room \<Rightarrow> bool" where
  "room_ok r \<longleftrightarrow> finite (rm_Participants r) \<and> int (card (rm_Participants r)) \<le> rm_Capacity r
     \<and> (rm_Active r \<or> rm_Participants r = {})"

text \<open>What the callers of a room can do to it.\<close>

datatype room_op = OpJoin string | OpLeave string | OpClose | OpTouch time

fun room_step :: "room \<Rightarrow> room_op \<Rightarrow> room" where
  "room_step r (OpJoin u) = (case Join r u of Inl _ \<Rightarrow> r | Inr r' \<Rightarrow> r')"
| "room_step r (OpLeave u) = (case Leave r u of Inl _ \<Rightarrow> r | Inr r' \<Rightarrow> r')"
| "room_step r OpClose = Close r"
| "room_step r (OpTouch t) = TouchActivity r t"

abbreviation room_run :: "room \<Rightarrow> room_op list \<Rightarrow> room" where
  "room_run r ops \<equiv> foldl room_step r ops"

lemma Join_Inr_iff:
  "Join r u = Inr r' \<longleftrightarrow> rm_Active r \<and> u \<notin> rm_Participants r
     \<and> int (card (rm_Participants r)) < rm_Capacity r
     \<and> r' = r\<lparr>rm_Participants := insert u (rm_Participants r)\<rparr>"
  by (auto simp: Join_def)

lemma Join_already_iff:
  "Join r u = Inl (Sentinel ErrAlreadyInRoom) \<longleftrightarrow> rm_Active r \<and> u \<in> rm_Participants r"
  by (auto simp: Join_def)

lemma Join_Inl_sentinel: "Join r u = Inl e \<Longrightarrow> \<exists>s. e = Sentinel s"
  by (auto simp: Join_def split: if_splits)

lemma Leave_Inr_iff:
  "Leave r u = Inr r' \<longleftrightarrow> u \<in> rm_Participants r
     \<and> r' = r\<lparr>rm_Participants := rm_Participants r - {u}\<rparr>"
  by (auto simp: Leave_def)

lemma Leave_Inl: "Leave r u = Inl e \<Longrightarrow> e = Sentinel ErrNotInRoom \<and> u \<notin> rm_Participants r"
  by (auto simp: Leave_def split: if_splits)

lemma Leave_after_Join [simp]:
  "Join r u = Inr r' \<Longrightarrow> Leave r' u = Inr r"
  by (auto simp: Join_Inr_iff Leave_def)

lemma room_ok_new [inv_intros]: "NewRoom rid src tgt now = Inr r \<Longrightarrow> room_ok r"
  by (auto simp: NewRoom_def room_ok_def defaultCapacity_def split: if_splits)

lemma room_ok_Join [inv_intros]: "room_ok r \<Longrightarrow> Join r u = Inr r' \<Longrightarrow> room_ok r'"
  by (auto simp: room_ok_def Join_Inr_iff)

lemma room_ok_Leave [inv_intros]: "room_ok r \<Longrightarrow> Leave r u = Inr r' \<Longrightarrow> room_ok r'"
  by (auto simp: room_ok_def Leave_Inr_iff card_Diff_singleton_if)

lemma room_ok_Close [inv_intros]: "room_ok r \<Longrightarrow> 0 \<le> rm_Capacity r \<Longrightarrow> room_ok (Close r)"
  by (auto simp: room_ok_def Close_def)

lemma room_ok_Touch [inv_intros]: "room_ok r \<Longrightarrow> room_ok (TouchActivity r t)"
  by (auto simp: room_ok_def TouchActivity_def)

lemma room_ok_capacity: "room_ok r \<Longrightarrow> 0 \<le> rm_Capacity r"
  by (auto simp: room_ok_def)

lemma room_ok_step: "room_ok r \<Longrightarrow> room_ok (room_step r opn)"
  by (cases opn) (auto intro: inv_intros room_ok_capacity split: sum.splits)

lemma room_step_frame [frame_simps]:
  "rm_ID (room_step r opn) = rm_ID r" "rm_Capacity (room_step r opn) = rm_Capacity r"
  "rm_ShortCode (room_step r opn) = rm_ShortCode r"
  "rm_SourceLang (room_step r opn) = rm_SourceLang r"
  "rm_TargetLang (room_step r opn) = rm_TargetLang r"
  by (cases opn; simp add: Join_def Leave_def Close_def TouchActivity_def)+

lemma room_run_ok: "room_ok r \<Longrightarrow> room_ok (room_run r ops)"
  by (induction ops arbitrary: r) (auto intro: room_ok_step)

lemma room_run_capacity: "rm_Capacity (room_run r ops) = rm_Capacity r"
  by (induction ops arbitrary: r) (auto simp: frame_simps)

lemma room_step_closed: "\<not> rm_Active r \<Longrightarrow> \<not> rm_Active (room_step r opn)"
  by (cases opn) (auto simp: Join_def Leave_def Close_def TouchActivity_def)

lemma room_run_closed: "\<not> rm_Active r \<Longrightarrow> \<not> rm_Active (room_run r ops)"
  by (induction ops arbitrary: r) (auto simp: room_step_closed)

subsection \<open>Properties of rooms and short codes\<close>

lemma room_run_active: "rm_Active (room_run r ops) \<longleftrightarrow> rm_Active r \<and> OpClose \<notin> set ops"
proof (induction ops arbitrary: r)
  case (Cons a ops)
  then show ?case by (cases a) (auto simp: Join_def Leave_def Close_def TouchActivity_def)
qed simp

text \<open>
  Whatever sequence of joins, leaves, closes and activity stamps a new room goes through, it never
  has more than two participants, and it is active until its first close, after which it stays
  closed and empty.
\<close>

theorem room_holds_two:
  assumes "NewRoom i src tgt now = Inr r" and "r' = room_run r ops"
  shows "finite (rm_Participants r') \<and> card (rm_Participants r') \<le> 2
    \<and> (rm_Active r' \<longleftrightarrow> OpClose \<notin> set ops) \<and> (rm_Active r' \<or> rm_Participants r' = {})
    \<and> rm_ID r' = i"
proof -
  have "rm_Capacity r = 2" "rm_Active r" "rm_ID r = i"
    using assms(1) by (auto simp: NewRoom_def defaultCapacity_def split: if_splits)
  moreover have "rm_ID (room_run r ops) = rm_ID r"
    by (induction ops arbitrary: r) (simp_all add: frame_simps)
  ultimately show ?thesis
    using room_run_ok [OF room_ok_new [OF assms(1)], of ops]
    by (simp add: assms(2) room_ok_def room_run_capacity room_run_active)
qed

theorem room_holds_two_witness:
  "card (rm_Participants (room_run \<lparr>rm_ID = ''r'', rm_SourceLang = ''en'', rm_TargetLang = ''es'',
     rm_ShortCode = [], rm_CreatedAt = 0, rm_LastActivity = None, rm_Active = True,
     rm_Participants = {}, rm_Capacity = 2\<rparr> [OpJoin ''a'', OpJoin ''b'', OpJoin ''c''])) \<le> 2"
proof -
  have n: "NewRoom ''r'' ''en'' ''es'' 0 = Inr \<lparr>rm_ID = ''r'', rm_SourceLang = ''en'', rm_TargetLang = ''es'',
     rm_ShortCode = [], rm_CreatedAt = 0, rm_LastActivity = None, rm_Active = True,
     rm_Participants = {}, rm_Capacity = 2\<rparr>"
    by (simp add: NewRoom_def defaultCapacity_def)
  from room_holds_two [OF n refl] show ?thesis by blast
qed

definition code_shaped :: "string \<Rightarrow> bool" where
  "code_shaped c \<longleftrightarrow> length c = shortCodeLen \<and> set c \<subseteq> set shortCodeAlphabet"

lemma card_code_preimages:
  "set c \<subseteq> set shortCodeAlphabet \<Longrightarrow> card {bs. map code_char bs = c} = 8 ^ length c"
proof (induction c)
  case (Cons x c)
  have "{bs. map code_char bs = x # c}
      = (\<lambda>(v, bs). v # bs) ` ({v. code_char v = x} \<times> {bs. map code_char bs = c})"
    by (auto simp: map_eq_Cons_conv image_iff)
  moreover have "inj_on (\<lambda>(v, bs). v # bs) ({v. code_char v = x} \<times> {bs. map code_char bs = c})"
    by (auto simp: inj_on_def)
  ultimately show ?case
    using Cons code_char_uniform [of x] by (simp add: card_image card_cartesian_product)
qed simp

text \<open>
  The short code is uniform: of the $256^6$ strings of six random bytes, exactly $8^6$ give any one
  code of six letters of the alphabet, so the reduction modulo the alphabet's length has no bias.
\<close>

theorem short_code_uniform:
  assumes "code_shaped c"
  shows "card {bs. length bs = 6 \<and> fst (GenerateShortCode \<lparr>rd_bytes = bs, rd_err = e\<rparr>) = Inr c} = 8 ^ 6"
proof -
  have "{bs. length bs = 6 \<and> fst (GenerateShortCode \<lparr>rd_bytes = bs, rd_err = e\<rparr>) = Inr c}
      = {bs. map code_char bs = c}"
    using assms
    by (auto simp: GenerateShortCode_def ReadFull_def shortCodeLen_def code_shaped_def
        dest: map_eq_imp_length_eq)
  then show ?thesis
    using assms card_code_preimages [of c] by (simp add: code_shaped_def shortCodeLen_def)
qed

theorem short_code_uniform_witness:
  "card {bs. length bs = 6 \<and> fst (GenerateShortCode \<lparr>rd_bytes = bs, rd_err = Foreign ''EOF''\<rparr>) = Inr ''TALKG2''} = 8 ^ 6"
  by (rule short_code_uniform) (simp add: code_shaped_def shortCodeLen_def shortCodeAlphabet_def)

end
