(* ===== verification/Session.thy ===== *)
theory Session
  imports Prelude
begin

section \<open>The session: internal/domain/session/session.go\<close>

text \<open>
  The \<open>Session\<close> entity and its life cycle.  The code numbers the states with \<open>iota\<close>; the
  numbering is the linear order of the type here, and the life cycle never goes down in it.
\<close>

datatype sess_state = StateConnecting | StateActive | StateDisconnected

fun iota :: "sess_state \<Rightarrow> nat" where
  "iota StateConnecting = 0"
| "iota StateActive = 1"
| "iota StateDisconnected = 2"

lemma iota_inj: "iota a = iota b \<Longrightarrow> a = b"
  by (cases a; cases b) auto

instantiation sess_state :: linorder
begin

definition less_eq_sess_state :: "sess_state \<Rightarrow> sess_state \<Rightarrow> bool" where
  "less_eq_sess_state a b \<longleftrightarrow> iota a \<le> iota b"

definition less_sess_state :: "sess_state \<Rightarrow> sess_state \<Rightarrow> bool" where
  "less_sess_state a b \<longleftrightarrow> iota a < iota b"

instance
  by intro_classes (auto simp: less_eq_sess_state_def less_sess_state_def intro: iota_inj)

end

record session =
  se_ID :: string
  se_RoomID :: string
  se_UserID :: string
  se_Lang :: string
  se_Name :: string
  se_JoinedAt :: time
  se_State :: sess_state
  se_ErrorCount :: int

definition NewSession :: "string \<Rightarrow> string \<Rightarrow> string \<Rightarrow> string \<Rightarrow> time \<Rightarrow> session" where
  "NewSession sid rid uid lang now =
     \<lparr>se_ID = sid, se_RoomID = rid, se_UserID = uid, se_Lang = lang, se_Name = [],
      se_JoinedAt = now, se_State = StateConnecting, se_ErrorCount = 0\<rparr>"

definition Activate :: "session \<Rightarrow> gerror + session" where
  "Activate s =
     (if se_State s \<noteq> StateConnecting then Inl (Sentinel ErrInvalidTransition)
      else Inr (s\<lparr>se_State := StateActive\<rparr>))"

definition Disconnect :: "session \<Rightarrow> session" where
  "Disconnect s = s\<lparr>se_State := StateDisconnected\<rparr>"

definition IsActive :: "session \<Rightarrow> bool" where
  "IsActive s \<longleftrightarrow> se_State s = StateActive"

subsection \<open>Life cycle\<close>

text \<open>
  The steps a session can make: the two transitions of its methods, the service's assignment of
  the display name and the pipeline's error count.
\<close>

inductive sess_step :: "session \<Rightarrow> session \<Rightarrow> bool" where
  activate: "Activate s = Inr s' \<Longrightarrow> sess_step s s'"
| disconnect: "sess_step s (Disconnect s)"
| rename: "sess_step s (s\<lparr>se_Name := n\<rparr>)"
| count_error: "sess_step s (s\<lparr>se_ErrorCount := se_ErrorCount s + 1\<rparr>)"

inductive_cases sess_stepE: "sess_step s s'"

abbreviation sess_reaches :: "session \<Rightarrow> session \<Rightarrow> bool" where
  "sess_reaches \<equiv> sess_step\<^sup>*\<^sup>*"

lemma sess_step_mono: "sess_step s s' \<Longrightarrow> se_State s \<le> se_State s'"
  by (erule sess_stepE; cases "se_State s")
    (auto simp: Activate_def Disconnect_def less_eq_sess_state_def split: if_splits)

lemma sess_step_frame:
  "sess_step s s' \<Longrightarrow> se_ID s' = se_ID s \<and> se_RoomID s' = se_RoomID s
     \<and> se_UserID s' = se_UserID s \<and> se_Lang s' = se_Lang s \<and> se_JoinedAt s' = se_JoinedAt s
     \<and> se_ErrorCount s \<le> se_ErrorCount s'"
  by (erule sess_stepE) (auto simp: Activate_def Disconnect_def split: if_splits)

lemma sess_reaches_mono: "sess_reaches s s' \<Longrightarrow> se_State s \<le> se_State s'"
  by (induction rule: rtranclp_induct) (auto dest: sess_step_mono)

lemma sess_reaches_frame:
  "sess_reaches s s' \<Longrightarrow> se_ID s' = se_ID s \<and> se_RoomID s' = se_RoomID s
     \<and> se_UserID s' = se_UserID s \<and> se_ErrorCount s \<le> se_ErrorCount s'"
  by (induction rule: rtranclp_induct) (auto dest: sess_step_frame)

lemma Disconnected_top: "StateDisconnected \<le> x \<longleftrightarrow> x = StateDisconnected"
  by (cases x) (auto simp: less_eq_sess_state_def)

lemma NewSession_simps [simp]:
  "se_ID (NewSession sid rid uid lang now) = sid"
  "se_RoomID (NewSession sid rid uid lang now) = rid"
  "se_UserID (NewSession sid rid uid lang now) = uid"
  "se_Lang (NewSession sid rid uid lang now) = lang"
  "se_JoinedAt (NewSession sid rid uid lang now) = now"
  "se_State (NewSession sid rid uid lang now) = StateConnecting"
  by (simp_all add: NewSession_def)

lemma Disconnect_simps [simp]:
  "se_ID (Disconnect s) = se_ID s" "se_RoomID (Disconnect s) = se_RoomID s"
  "se_UserID (Disconnect s) = se_UserID s"
  by (simp_all add: Disconnect_def)

text \<open>
  A session's state only moves forward along connecting, active, disconnected; it keeps its
  identity, a session once disconnected stays so, and it cannot be activated again.
\<close>

theorem session_life_cycle:
  assumes "sess_reaches s s'"
  shows "se_State s \<le> se_State s' \<and> se_ID s' = se_ID s \<and> se_RoomID s' = se_RoomID s
    \<and> se_UserID s' = se_UserID s \<and> se_ErrorCount s \<le> se_ErrorCount s'
    \<and> (se_State s \<noteq> StateDisconnected \<or>
        \<not> IsActive s' \<and> se_State s' = StateDisconnected
        \<and> Activate s' = Inl (Sentinel ErrInvalidTransition))"
  using sess_reaches_mono [OF assms] sess_reaches_frame [OF assms]
  by (auto simp: Activate_def IsActive_def Disconnected_top)

theorem session_life_cycle_witness:
  "Activate (Disconnect (NewSession ''s'' ''r'' ''u'' ''en'' 0)) = Inl (Sentinel ErrInvalidTransition)"
proof -
  have "sess_reaches (Disconnect (NewSession ''s'' ''r'' ''u'' ''en'' 0))
      (Disconnect (Disconnect (NewSession ''s'' ''r'' ''u'' ''en'' 0)))"
    by (rule r_into_rtranclp) (rule sess_step.disconnect)
  from session_life_cycle [OF this] show ?thesis by (simp add: Disconnect_def)
qed

end
