(* ===== verification/Ports.thy ===== *)
theory Ports
  imports Room Session
begin

section \<open>The ports: internal/ports/driven, internal/ports/driving\<close>

text \<open>
  The Go interfaces as records of functions, one field per method, over the private state of
  whatever implements them, and the contracts the service relies on as locales.

  Rooms are shared objects: the repository and the service hold pointers to the same \<open>Room\<close>, so
  an in-place change is seen by both.  Rooms therefore live in a heap and the interfaces pass
  pointers.  The model follows Go's convention that a call returns either an error or a result.
\<close>

type_synonym room_ptr = nat

type_synonym room_heap = "room_ptr \<Rightarrow> room"

record 'r room_repository =
  Save :: "room_ptr \<Rightarrow> room_heap \<Rightarrow> 'r \<Rightarrow> gerror option \<times> 'r"
  FindByID :: "string \<Rightarrow> room_heap \<Rightarrow> 'r \<Rightarrow> gerror + room_ptr"
  Delete :: "string \<Rightarrow> 'r \<Rightarrow> gerror option \<times> 'r"
  ListActive :: "room_heap \<Rightarrow> 'r \<Rightarrow> gerror + room_ptr list"
  FindByShortCode :: "string \<Rightarrow> room_heap \<Rightarrow> 'r \<Rightarrow> gerror + room_ptr"
  UpdateLastActivity :: "time \<Rightarrow> string \<Rightarrow> room_heap \<Rightarrow> 'r \<Rightarrow> gerror option \<times> room_heap"
  ListExpired :: "time \<Rightarrow> room_heap \<Rightarrow> 'r \<Rightarrow> gerror + room_ptr list"

datatype PeerConnectionState =
    PeerStateNew | PeerStateConnecting | PeerStateConnected | PeerStateDisconnected
  | PeerStateFailed | PeerStateClosed

text \<open>
  The signaling half of \<open>WebRTCPeer\<close>.  The handler given to \<open>OnICECandidate\<close> is the one closure
  the service passes (notify the session of a candidate), so the registration is by session.
\<close>

record 'p webrtc_peer =
  CreateSession :: "string \<Rightarrow> 'p \<Rightarrow> gerror option \<times> 'p"
  CloseSession :: "string \<Rightarrow> 'p \<Rightarrow> gerror option \<times> 'p"
  HandleOffer :: "string \<Rightarrow> string \<Rightarrow> 'p \<Rightarrow> gerror option \<times> 'p"
  CreateAnswer :: "string \<Rightarrow> 'p \<Rightarrow> (gerror + string) \<times> 'p"
  AddICECandidate :: "string \<Rightarrow> string \<Rightarrow> 'p \<Rightarrow> gerror option \<times> 'p"
  OnICECandidate :: "string \<Rightarrow> 'p \<Rightarrow> gerror option \<times> 'p"

text \<open>\<open>SignalingMessage\<close>: a field the JSON omits is the empty string.\<close>

record signaling_message =
  msg_Type :: string
  msg_RoomID :: string
  msg_UserID :: string
  msg_SessionID :: string
  msg_SDP :: string
  msg_Candidate :: string
  msg_Message :: string
  msg_Lang :: string
  msg_Name :: string
  msg_Reason :: string

definition empty_message :: signaling_message where
  "empty_message = \<lparr>msg_Type = [], msg_RoomID = [], msg_UserID = [], msg_SessionID = [],
     msg_SDP = [], msg_Candidate = [], msg_Message = [], msg_Lang = [], msg_Name = [],
     msg_Reason = []\<rparr>"

text \<open>
  A call of \<open>EventNotifier.NotifySession\<close>.  The method returns nothing, so the callers see
  only that it was called: its calls are recorded in order.
\<close>

record notification =
  nt_SessionID :: string
  nt_Type :: string
  nt_Fields :: "(string \<times> string) list"

subsection \<open>The contract of a room repository\<close>

text \<open>
  What \<open>RoomRepository\<close> promises, through the map from room IDs to room objects that its state
  stands for: a successful \<open>Save\<close> binds the room's ID to the object, \<open>FindByID\<close> reads the
  binding and fails with \<open>ErrRoomNotFound\<close> when there is none, a successful \<open>Delete\<close> unbinds and
  is idempotent; a failed call changes nothing.
\<close>

locale room_store =
  fixes bindings :: "'r \<Rightarrow> string \<rightharpoonup> room_ptr"
    and save :: "room_ptr \<Rightarrow> room_heap \<Rightarrow> 'r \<Rightarrow> gerror option \<times> 'r"
    and find_by_id :: "string \<Rightarrow> room_heap \<Rightarrow> 'r \<Rightarrow> gerror + room_ptr"
    and del :: "string \<Rightarrow> 'r \<Rightarrow> gerror option \<times> 'r"
  assumes save_binds: "save p h r = (None, r') \<Longrightarrow> bindings r' = (bindings r)(rm_ID (h p) \<mapsto> p)"
    and save_fails: "save p h r = (Some e, r') \<Longrightarrow> bindings r' = bindings r"
    and find_bound: "bindings r i = Some p \<Longrightarrow> find_by_id i h r = Inr p"
    and find_unbound: "bindings r i = None \<Longrightarrow>
      \<exists>e. find_by_id i h r = Inl e \<and> errors_Is e ErrRoomNotFound"
    and del_unbinds: "del i r = (None, r') \<Longrightarrow> bindings r' = (bindings r)(i := None)"
    and del_fails: "del i r = (Some e, r') \<Longrightarrow> bindings r' = bindings r"
    and del_absent: "bindings r i = None \<Longrightarrow> \<exists>r'. del i r = (None, r')"
begin

lemma find_Inr_iff: "find_by_id i h r = Inr p \<longleftrightarrow> bindings r i = Some p"
  using find_bound [of r i] find_unbound [of r i h] by (cases "bindings r i") fastforce+

lemma find_Inl: "find_by_id i h r = Inl e \<Longrightarrow> errors_Is e ErrRoomNotFound \<and> bindings r i = None"
  using find_bound [of r i] find_unbound [of r i h] by (cases "bindings r i") fastforce+

lemma find_after_save: "save p h r = (None, r') \<Longrightarrow> find_by_id (rm_ID (h p)) h' r' = Inr p"
  by (simp add: find_Inr_iff save_binds)

lemma find_other_after_save:
  "save p h r = (None, r') \<Longrightarrow> i \<noteq> rm_ID (h p) \<Longrightarrow>
     find_by_id i h' r' = Inr q \<longleftrightarrow> find_by_id i h r = Inr q"
  by (simp add: find_Inr_iff save_binds)

lemma find_after_delete:
  "del i r = (None, r') \<Longrightarrow> \<exists>e. find_by_id i h r' = Inl e \<and> errors_Is e ErrRoomNotFound"
  by (rule find_unbound) (simp add: del_unbinds)

lemma resave_same: "save p h r = (x, r') \<Longrightarrow> bindings r (rm_ID (h p)) = Some p \<Longrightarrow> bindings r' = bindings r"
  by (cases x) (auto simp: save_binds save_fails)

lemma delete_twice:
  "del i r = (None, r') \<Longrightarrow> \<exists>r''. del i r' = (None, r'') \<and> bindings r'' = bindings r'"
  using del_absent [of r' i] by (fastforce simp: del_unbinds)

end

text \<open>
  A repository whose writes cannot fail, as the in-memory one: the contract the service's room
  and session bookkeeping relies on.
\<close>

locale total_room_store = room_store +
  assumes save_total: "fst (save p h r) = None"
    and del_total: "fst (del i r) = None"
begin

lemma save_eq: "save p h r = (x, r') \<Longrightarrow> x = None \<and> bindings r' = (bindings r)(rm_ID (h p) \<mapsto> p)"
  using save_total [of p h r] by (auto simp: save_binds)

lemma del_eq: "del i r = (x, r') \<Longrightarrow> x = None \<and> bindings r' = (bindings r)(i := None)"
  using del_total [of i r] by (auto simp: del_unbinds)

end

end
