(* ===== verification/Service.thy ===== *)
theory Service
  imports Ports
begin

section \<open>The room service: internal/app/roomsvc/service.go\<close>

text \<open>
  The application layer: \<open>Service\<close> orchestrates the room aggregate, the repository and the WebRTC
  peer.  Its operations are functions from the state to a result and the state after; the ports
  are arguments (\<open>R\<close> the repository, \<open>P\<close> the peer), so every statement here holds for whatever is
  wired in, failing calls included.  What the runtime supplies to a call (the clock, the UUIDs,
  \<open>crypto/rand\<close>, the map enumeration orders) is the argument \<open>E\<close>; the readings of the clock
  within one call are one value.

  One call runs to its end before the next starts.  Two effects are asynchronous in the code and
  are separate steps here: a pipeline goroutine started by \<open>JoinRoom\<close> (\<open>sv_spawned\<close>, run by
  \<open>startPipeline\<close> of theory \<open>Pipeline\<close>) and the grace timer's function (\<open>graceTimerFires\<close>).
\<close>

record service_config =
  GracePeriod :: time
  RoomTTL :: time
  SweepInterval :: time
  MaxShortCodeRetries :: int

definition DefaultServiceConfig :: service_config where
  "DefaultServiceConfig =
     \<lparr>GracePeriod = 30 * second, RoomTTL = 600 * second, SweepInterval = 60 * second,
      MaxShortCodeRetries = 5\<rparr>"

record pipeline =
  pl_roomID :: string
  pl_sessA :: session
  pl_sessB :: session

text \<open>The variables the timer's closure captures, and when the runtime may run it.\<close>

record grace_timer =
  gt_roomID :: string
  gt_sess :: session
  gt_deadline :: time

text \<open>The structured \<open>session_event\<close> records of the service.\<close>

datatype session_event =
    SessionEnd (ev_session: string) (ev_room: string) (ev_user: string) (ev_duration: int) (ev_type: string)
  | SessionStart string string string string
  | PipelineStart string string string string string
  | PipelineStop string int int
  | SessionError string string int string

record ('r, 'p) service =
  sv_cfg :: service_config
  sv_heap :: room_heap
  sv_next :: room_ptr
  sv_repo :: 'r
  sv_peer :: 'p
  sv_sessions :: "string \<rightharpoonup> session"
  sv_lookup :: "string \<rightharpoonup> string"
  sv_pipelines :: "string \<rightharpoonup> pipeline"
  sv_graceTimers :: "string \<rightharpoonup> grace_timer"
  sv_spawned :: "(room_ptr \<times> session \<times> session) list"
  sv_cancelled :: "pipeline list"
  sv_outbox :: "notification list"
  sv_events :: "session_event list"

record env =
  ev_now :: time
  ev_uuid :: string
  ev_rand :: reader
  ev_ord_sessions :: "(string \<rightharpoonup> session) \<Rightarrow> string list"
  ev_ord_lookup :: "(string \<rightharpoonup> string) \<Rightarrow> string list"

text \<open>A call that dereferences a nil pointer panics.\<close>

datatype 'a go_result = Return 'a | Panic

definition empty_heap :: room_heap where
  "empty_heap = (\<lambda>_. \<lparr>rm_ID = [], rm_SourceLang = [], rm_TargetLang = [], rm_ShortCode = [],
     rm_CreatedAt = 0, rm_LastActivity = None, rm_Active = False, rm_Participants = {},
     rm_Capacity = 0\<rparr>)"

text \<open>A port that is nil is \<open>None\<close>; of the three without state only its presence matters.\<close>

definition NewService ::
  "service_config \<Rightarrow> 'r option \<Rightarrow> 'p option \<Rightarrow> bool \<Rightarrow> bool \<Rightarrow> bool \<Rightarrow> gerror + ('r, 'p) service" where
  "NewService cfg repo peer translator codec notifier =
     (if repo = None \<or> peer = None \<or> \<not> translator \<or> \<not> codec \<or> \<not> notifier
      then Inl (Sentinel ErrNilDependency)
      else Inr \<lparr>sv_cfg = (if MaxShortCodeRetries cfg \<le> 0 then cfg\<lparr>MaxShortCodeRetries := 5\<rparr> else cfg),
                sv_heap = empty_heap, sv_next = 0, sv_repo = the repo, sv_peer = the peer,
                sv_sessions = (\<lambda>_. None), sv_lookup = (\<lambda>_. None), sv_pipelines = (\<lambda>_. None),
                sv_graceTimers = (\<lambda>_. None), sv_spawned = [], sv_cancelled = [],
                sv_outbox = [], sv_events = []\<rparr>)"

definition lookupKey :: "string \<Rightarrow> string \<Rightarrow> string" where
  "lookupKey roomID userID = roomID @ '':'' @ userID"

subsection \<open>CreateRoom\<close>

text \<open>The retry loop: \<open>None\<close> when every generated code was taken.\<close>

fun pickShortCode ::
  "'r room_repository \<Rightarrow> room_heap \<Rightarrow> 'r \<Rightarrow> nat \<Rightarrow> reader \<Rightarrow> gerror + string option" where
  "pickShortCode R h repo 0 rd = Inr None"
| "pickShortCode R h repo (Suc n) rd =
     (case GenerateShortCode rd of
        (Inl e, _) \<Rightarrow> Inl (Wrapped ''roomsvc.CreateRoom: generating short code'' e)
      | (Inr code, rd') \<Rightarrow>
          (case FindByShortCode R code h repo of
             Inl e \<Rightarrow> if errors_Is e ErrRoomNotFound then Inr (Some code)
                     else Inl (Wrapped ''roomsvc.CreateRoom: checking short code'' e)
           | Inr _ \<Rightarrow> pickShortCode R h repo n rd'))"

definition CreateRoom ::
  "'r room_repository \<Rightarrow> env \<Rightarrow> string \<Rightarrow> string \<Rightarrow> ('r, 'p) service
     \<Rightarrow> (gerror + room_ptr) \<times> ('r, 'p) service" where
  "CreateRoom R E src tgt w =
     (case NewRoom (ev_uuid E) src tgt (ev_now E) of
        Inl e \<Rightarrow> (Inl (Wrapped ''roomsvc.CreateRoom'' e), w)
      | Inr r \<Rightarrow>
          (let p = sv_next w;
               w1 = w\<lparr>sv_heap := (sv_heap w)(p := r), sv_next := p + 1\<rparr>
           in case pickShortCode R (sv_heap w1) (sv_repo w1)
                     (nat (MaxShortCodeRetries (sv_cfg w1))) (ev_rand E) of
                Inl e \<Rightarrow> (Inl e, w1)
              | Inr None \<Rightarrow>
                  (Inl (Wrapped ''roomsvc.CreateRoom'' (Sentinel ErrShortCodeExhausted)), w1)
              | Inr (Some code) \<Rightarrow>
                  (let w2 = w1\<lparr>sv_heap := (sv_heap w1)(p := r\<lparr>rm_ShortCode := code\<rparr>)\<rparr>
                   in case Save R p (sv_heap w2) (sv_repo w2) of
                        (Some e, repo') \<Rightarrow>
                          (Inl (Wrapped ''roomsvc.CreateRoom: saving room'' e), w2\<lparr>sv_repo := repo'\<rparr>)
                      | (None, repo') \<Rightarrow> (Inr p, w2\<lparr>sv_repo := repo'\<rparr>))))"

subsection \<open>DeleteRoom\<close>

text \<open>
  One iteration of the loop over \<open>lookup\<close>: a key with the room's prefix loses its session, whose
  peer connection is closed (a close error is only logged).
\<close>

definition dropLookupKey ::
  "'p webrtc_peer \<Rightarrow> string \<Rightarrow> string \<Rightarrow> ('r, 'p) service \<Rightarrow> ('r, 'p) service" where
  "dropLookupKey P prefix key w =
     (case sv_lookup w key of
        None \<Rightarrow> w
      | Some sessID \<Rightarrow>
          if strict_prefix_match prefix key then
            (let w1 = (case sv_sessions w sessID of
                         None \<Rightarrow> w
                       | Some sess \<Rightarrow>
                           w\<lparr>sv_sessions := (sv_sessions w)(sessID := None),
                             sv_peer := snd (CloseSession P sessID (sv_peer w))\<rparr>)
             in w1\<lparr>sv_lookup := (sv_lookup w1)(key := None)\<rparr>)
          else w)"

definition stopPipeline :: "string \<Rightarrow> ('r, 'p) service \<Rightarrow> ('r, 'p) service" where
  "stopPipeline roomID w =
     (case sv_pipelines w roomID of
        None \<Rightarrow> w
      | Some pl \<Rightarrow> w\<lparr>sv_pipelines := (sv_pipelines w)(roomID := None),
                     sv_cancelled := sv_cancelled w @ [pl]\<rparr>)"

definition DeleteRoom ::
  "'r room_repository \<Rightarrow> 'p webrtc_peer \<Rightarrow> env \<Rightarrow> string \<Rightarrow> ('r, 'p) service
     \<Rightarrow> gerror option \<times> ('r, 'p) service" where
  "DeleteRoom R P E roomID w =
     (case FindByID R roomID (sv_heap w) (sv_repo w) of
        Inl e \<Rightarrow> (Some (Wrapped ''roomsvc.DeleteRoom'' e), w)
      | Inr p \<Rightarrow>
          (let w1 = w\<lparr>sv_heap := (sv_heap w)(p := Close (sv_heap w p))\<rparr>;
               w2 = fold (dropLookupKey P (roomID @ '':'')) (ev_ord_lookup E (sv_lookup w1)) w1;
               w3 = stopPipeline roomID w2
           in case Delete R roomID (sv_repo w3) of
                (Some e, repo') \<Rightarrow> (Some (Wrapped ''roomsvc.DeleteRoom'' e), w3\<lparr>sv_repo := repo'\<rparr>)
              | (None, repo') \<Rightarrow> (None, w3\<lparr>sv_repo := repo'\<rparr>)))"

subsection \<open>JoinRoom\<close>

definition sessionsInRoom ::
  "env \<Rightarrow> string \<Rightarrow> (string \<rightharpoonup> session) \<Rightarrow> session list" where
  "sessionsInRoom E roomID m =
     filter (\<lambda>s. se_RoomID s = roomID) (List.map_filter m (ev_ord_sessions E m))"

definition cancelGraceTimersForRoom ::
  "env \<Rightarrow> string \<Rightarrow> ('r, 'p) service \<Rightarrow> ('r, 'p) service" where
  "cancelGraceTimersForRoom E roomID w =
     w\<lparr>sv_graceTimers :=
         fold (\<lambda>s t. t(se_ID s := None)) (sessionsInRoom E roomID (sv_sessions w)) (sv_graceTimers w)\<rparr>"

text \<open>The rollback of the failing branches: \<open>r.Leave(userID)\<close> unless this is a reconnection.\<close>

definition undoJoin :: "bool \<Rightarrow> room_ptr \<Rightarrow> string \<Rightarrow> room_heap \<Rightarrow> room_heap" where
  "undoJoin isReconnect p userID h =
     (if isReconnect then h
      else case Leave (h p) userID of Inl _ \<Rightarrow> h | Inr r \<Rightarrow> h(p := r))"

text \<open>
  The part after the room accepted the user: create the peer connection and the session, save,
  register, touch, and start a pipeline when the room is full and has another session.
\<close>

definition openSession ::
  "'r room_repository \<Rightarrow> 'p webrtc_peer \<Rightarrow> env \<Rightarrow> room_ptr \<Rightarrow> bool \<Rightarrow> string \<Rightarrow> string \<Rightarrow> string
     \<Rightarrow> ('r, 'p) service \<Rightarrow> (gerror + string) \<times> ('r, 'p) service" where
  "openSession R P E p isReconnect roomID userID lang w =
     (let sess = NewSession (ev_uuid E) roomID userID lang (ev_now E) in
      case CreateSession P (se_ID sess) (sv_peer w) of
        (Some e, peer') \<Rightarrow>
          (Inl (Wrapped ''roomsvc.JoinRoom: creating peer session'' e),
           w\<lparr>sv_peer := peer', sv_heap := undoJoin isReconnect p userID (sv_heap w)\<rparr>)
      | (None, peer') \<Rightarrow>
          (let w1 = w\<lparr>sv_peer := peer'\<rparr> in
           case Save R p (sv_heap w1) (sv_repo w1) of
             (Some e, repo') \<Rightarrow>
               (Inl (Wrapped ''roomsvc.JoinRoom: saving room'' e),
                w1\<lparr>sv_repo := repo', sv_heap := undoJoin isReconnect p userID (sv_heap w1),
                   sv_peer := snd (CloseSession P (se_ID sess) (sv_peer w1))\<rparr>)
           | (None, repo') \<Rightarrow>
               (let w2 = w1\<lparr>sv_repo := repo',
                            sv_sessions := (sv_sessions w1)(se_ID sess \<mapsto> sess),
                            sv_lookup := (sv_lookup w1)(lookupKey roomID userID \<mapsto> se_ID sess),
                            sv_heap := (sv_heap w1)(p := TouchActivity (sv_heap w1 p) (ev_now E))\<rparr>;
                    w3 = w2\<lparr>sv_repo := snd (Save R p (sv_heap w2) (sv_repo w2))\<rparr>;
                    w4 = (if IsFull (sv_heap w3 p) then
                            (case List.find (\<lambda>s. se_ID s \<noteq> se_ID sess)
                                    (sessionsInRoom E roomID (sv_sessions w3)) of
                               None \<Rightarrow> w3
                             | Some sessA \<Rightarrow> w3\<lparr>sv_spawned := sv_spawned w3 @ [(p, sessA, sess)]\<rparr>)
                          else w3)
                in (Inr (se_ID sess), w4))))"

definition JoinRoom ::
  "'r room_repository \<Rightarrow> 'p webrtc_peer \<Rightarrow> env \<Rightarrow> string \<Rightarrow> string \<Rightarrow> string
     \<Rightarrow> ('r, 'p) service \<Rightarrow> (gerror + string) \<times> ('r, 'p) service" where
  "JoinRoom R P E roomID userID lang w =
     (if lang = [] then (Inl (Wrapped ''roomsvc.JoinRoom'' (Sentinel ErrMissingLang)), w)
      else case FindByID R roomID (sv_heap w) (sv_repo w) of
        Inl e \<Rightarrow> (Inl (Wrapped ''roomsvc.JoinRoom'' e), w)
      | Inr p \<Rightarrow>
          if lang \<noteq> rm_SourceLang (sv_heap w p) \<and> lang \<noteq> rm_TargetLang (sv_heap w p)
          then (Inl (Wrapped ''roomsvc.JoinRoom'' (Sentinel ErrLangNotSupported)), w)
          else (case Join (sv_heap w p) userID of
              Inr r' \<Rightarrow>
                openSession R P E p False roomID userID lang
                  (cancelGraceTimersForRoom E roomID (w\<lparr>sv_heap := (sv_heap w)(p := r')\<rparr>))
            | Inl e \<Rightarrow>
                if \<not> errors_Is e ErrAlreadyInRoom then (Inl (Wrapped ''roomsvc.JoinRoom'' e), w)
                else
                  (let w1 = cancelGraceTimersForRoom E roomID w in
                   case sv_lookup w1 (lookupKey roomID userID) of
                     Some existingSessID \<Rightarrow> (Inr existingSessID, w1)
                   | None \<Rightarrow>
                       openSession R P E p True roomID userID lang
                         (case Join (sv_heap w1 p) userID of
                            Inl _ \<Rightarrow> w1
                          | Inr r' \<Rightarrow> w1\<lparr>sv_heap := (sv_heap w1)(p := r')\<rparr>))))"

subsection \<open>LeaveRoom\<close>

text \<open>\<open>int64(time.Since(sess.JoinedAt).Seconds())\<close>\<close>

definition duration_sec :: "env \<Rightarrow> session \<Rightarrow> int" where
  "duration_sec E sess = whole_seconds (ev_now E - se_JoinedAt sess)"

definition LeaveRoom ::
  "'r room_repository \<Rightarrow> 'p webrtc_peer \<Rightarrow> env \<Rightarrow> string \<Rightarrow> string
     \<Rightarrow> ('r, 'p) service \<Rightarrow> gerror option go_result \<times> ('r, 'p) service" where
  "LeaveRoom R P E roomID userID w =
     (case sv_lookup w (lookupKey roomID userID) of
        None \<Rightarrow> (Return (Some (Wrapped ''roomsvc.LeaveRoom'' (Sentinel ErrSessionNotFound))), w)
      | Some sessID \<Rightarrow>
      (case sv_sessions w sessID of
        None \<Rightarrow> (Panic, w)
      | Some sess \<Rightarrow>
        (let w1 = w\<lparr>sv_sessions := (sv_sessions w)(sessID \<mapsto> Disconnect sess),
                    sv_peer := snd (CloseSession P sessID (sv_peer w))\<rparr>
         in case FindByID R roomID (sv_heap w1) (sv_repo w1) of
              Inl e \<Rightarrow> (Return (Some (Wrapped ''roomsvc.LeaveRoom'' e)), w1)
            | Inr p \<Rightarrow>
                (let left = Leave (sv_heap w1 p) userID in
                 if (case left of Inl e \<Rightarrow> \<not> errors_Is e ErrNotInRoom | Inr _ \<Rightarrow> False)
                 then (Return (Some (Wrapped ''roomsvc.LeaveRoom'' (projl left))), w1)
                 else
                   (let w2 = (case left of Inl _ \<Rightarrow> w1 | Inr r \<Rightarrow> w1\<lparr>sv_heap := (sv_heap w1)(p := r)\<rparr>)
                    in case Save R p (sv_heap w2) (sv_repo w2) of
                         (Some e, repo') \<Rightarrow>
                           (Return (Some (Wrapped ''roomsvc.LeaveRoom: saving room'' e)),
                            w2\<lparr>sv_repo := repo'\<rparr>)
                       | (None, repo') \<Rightarrow>
                           (let w3 = w2\<lparr>sv_repo := repo',
                                        sv_sessions := (sv_sessions w2)(sessID := None),
                                        sv_lookup := (sv_lookup w2)(lookupKey roomID userID := None)\<rparr>;
                                w4 = stopPipeline roomID w3
                            in (Return None,
                                w4\<lparr>sv_events := sv_events w4 @
                                     [SessionEnd sessID roomID (se_UserID sess) (duration_sec E sess)
                                        ''voluntary'']\<rparr>)))))))"

subsection \<open>Reads and the activity stamp\<close>

definition RoomExists :: "'r room_repository \<Rightarrow> string \<Rightarrow> ('r, 'p) service \<Rightarrow> gerror option" where
  "RoomExists R roomID w =
     (case FindByID R roomID (sv_heap w) (sv_repo w) of
        Inl e \<Rightarrow> Some (Wrapped ''roomsvc.RoomExists'' e) | Inr _ \<Rightarrow> None)"

definition svc_FindByShortCode ::
  "'r room_repository \<Rightarrow> string \<Rightarrow> ('r, 'p) service \<Rightarrow> gerror + room_ptr" where
  "svc_FindByShortCode R code w =
     (case FindByShortCode R code (sv_heap w) (sv_repo w) of
        Inl e \<Rightarrow> Inl (Wrapped ''roomsvc.FindByShortCode'' e) | Inr p \<Rightarrow> Inr p)"

definition svc_UpdateLastActivity ::
  "'r room_repository \<Rightarrow> env \<Rightarrow> string \<Rightarrow> ('r, 'p) service \<Rightarrow> gerror option \<times> ('r, 'p) service" where
  "svc_UpdateLastActivity R E roomID w =
     (case UpdateLastActivity R (ev_now E) roomID (sv_heap w) (sv_repo w) of
        (Some e, h) \<Rightarrow> (Some (Wrapped ''roomsvc.UpdateLastActivity'' e), w\<lparr>sv_heap := h\<rparr>)
      | (None, h) \<Rightarrow> (None, w\<lparr>sv_heap := h\<rparr>))"

subsection \<open>Disconnection, grace period, expiration sweep\<close>

definition NotifySession ::
  "string \<Rightarrow> string \<Rightarrow> (string \<times> string) list \<Rightarrow> ('r, 'p) service \<Rightarrow> ('r, 'p) service" where
  "NotifySession sid typ flds w =
     w\<lparr>sv_outbox := sv_outbox w @ [\<lparr>nt_SessionID = sid, nt_Type = typ, nt_Fields = flds\<rparr>]\<rparr>"

text \<open>Called by the hub when a WebSocket client drops; it always returns nil.\<close>

definition OnDisconnect :: "env \<Rightarrow> string \<Rightarrow> ('r, 'p) service \<Rightarrow> ('r, 'p) service" where
  "OnDisconnect E sessionID w =
     (if sessionID = [] then w
      else case sv_sessions w sessionID of
        None \<Rightarrow> w
      | Some sess \<Rightarrow>
          (case sv_graceTimers w sessionID of
             Some _ \<Rightarrow> w
           | None \<Rightarrow>
               w\<lparr>sv_events := sv_events w @
                    [SessionEnd sessionID (se_RoomID sess) (se_UserID sess) (duration_sec E sess)
                       ''disconnect''],
                 sv_graceTimers := (sv_graceTimers w)(sessionID \<mapsto>
                    \<lparr>gt_roomID = se_RoomID sess, gt_sess = sess,
                     gt_deadline = ev_now E + GracePeriod (sv_cfg w)\<rparr>)\<rparr>))"

text \<open>The function the grace timer of \<open>sessionID\<close> runs, with its captured variables.\<close>

definition graceTimerFires ::
  "'r room_repository \<Rightarrow> 'p webrtc_peer \<Rightarrow> env \<Rightarrow> string \<Rightarrow> grace_timer
     \<Rightarrow> ('r, 'p) service \<Rightarrow> ('r, 'p) service" where
  "graceTimerFires R P E sessionID t w =
     (let w1 = w\<lparr>sv_graceTimers := (sv_graceTimers w)(sessionID := None),
                 sv_events := sv_events w @
                    [SessionEnd sessionID (gt_roomID t) (se_UserID (gt_sess t))
                       (duration_sec E (gt_sess t)) ''timeout'']\<rparr>;
          w2 = snd (DeleteRoom R P E (gt_roomID t) w1)
      in NotifySession sessionID ''room-closed'' [(''reason'', ''peer-timeout'')] w2)"

fun sweepLoop ::
  "'r room_repository \<Rightarrow> 'p webrtc_peer \<Rightarrow> env \<Rightarrow> room_ptr list \<Rightarrow> ('r, 'p) service
     \<Rightarrow> ('r, 'p) service" where
  "sweepLoop R P E [] w = w"
| "sweepLoop R P E (p # ps) w =
     sweepLoop R P E ps (snd (DeleteRoom R P E (rm_ID (sv_heap w p)) w))"

definition sweepExpiredRooms ::
  "'r room_repository \<Rightarrow> 'p webrtc_peer \<Rightarrow> env \<Rightarrow> ('r, 'p) service \<Rightarrow> ('r, 'p) service" where
  "sweepExpiredRooms R P E w =
     (case ListExpired R (ev_now E - RoomTTL (sv_cfg w)) (sv_heap w) (sv_repo w) of
        Inl _ \<Rightarrow> w
      | Inr rooms \<Rightarrow> sweepLoop R P E rooms w)"

text \<open>
  The sweep goroutine: what its select receives in each round, with what a sweep then sees of the clock and
  the maps.  It ends at the first \<open>SweepDone\<close>; the second component tells whether it has ended.  \<open>NewTicker\<close> panics for an
  interval that is not positive, and with it the process.
\<close>

datatype sweep_signal = SweepDone | SweepTick env

fun sweepRounds ::
  "'r room_repository \<Rightarrow> 'p webrtc_peer \<Rightarrow> sweep_signal list \<Rightarrow> ('r, 'p) service \<Rightarrow> ('r, 'p) service \<times> bool" where
  "sweepRounds R P [] w = (w, False)"
| "sweepRounds R P (SweepDone # ss) w = (w, True)"
| "sweepRounds R P (SweepTick E # ss) w = sweepRounds R P ss (sweepExpiredRooms R P E w)"

definition StartExpirationSweep ::
  "'r room_repository \<Rightarrow> 'p webrtc_peer \<Rightarrow> sweep_signal list \<Rightarrow> ('r, 'p) service
     \<Rightarrow> (('r, 'p) service \<times> bool) go_result" where
  "StartExpirationSweep R P ss w =
     (if SweepInterval (sv_cfg w) \<le> 0 then Panic else Return (sweepRounds R P ss w))"

subsection \<open>HandleSignaling\<close>

definition errorMessage :: "string \<Rightarrow> signaling_message" where
  "errorMessage m = empty_message\<lparr>msg_Type := ''error'', msg_Message := m\<rparr>"

text \<open>
  \<open>case "join"\<close>: join, store the display name, and relay the names between the new session and
  the first other session of the room.
\<close>

definition handleJoin ::
  "'r room_repository \<Rightarrow> 'p webrtc_peer \<Rightarrow> env \<Rightarrow> signaling_message \<Rightarrow> ('r, 'p) service
     \<Rightarrow> signaling_message \<times> ('r, 'p) service" where
  "handleJoin R P E m w =
     (case JoinRoom R P E (msg_RoomID m) (msg_UserID m) (msg_Lang m) w of
        (Inl e, w1) \<Rightarrow> (errorMessage (error_text e), w1)
      | (Inr sessID, w1) \<Rightarrow>
          (let w2 = (case sv_sessions w1 sessID of
                       None \<Rightarrow> w1
                     | Some sess \<Rightarrow> w1\<lparr>sv_sessions :=
                         (sv_sessions w1)(sessID \<mapsto> sess\<lparr>se_Name := msg_Name m\<rparr>)\<rparr>);
               resp = empty_message\<lparr>msg_Type := ''joined'', msg_SessionID := sessID,
                                    msg_RoomID := msg_RoomID m\<rparr>
           in case List.find (\<lambda>s. se_ID s \<noteq> sessID)
                     (sessionsInRoom E (msg_RoomID m) (sv_sessions w2)) of
                None \<Rightarrow> (resp, w2)
              | Some peer \<Rightarrow>
                  (resp\<lparr>msg_Name := se_Name peer\<rparr>,
                   if se_ID peer \<noteq> []
                   then NotifySession (se_ID peer) ''peer-joined'' [(''name'', msg_Name m)] w2
                   else w2)))"

definition handleOffer ::
  "'p webrtc_peer \<Rightarrow> signaling_message \<Rightarrow> ('r, 'p) service
     \<Rightarrow> signaling_message \<times> ('r, 'p) service" where
  "handleOffer P m w =
     (case HandleOffer P (msg_SessionID m) (msg_SDP m) (sv_peer w) of
        (Some e, peer1) \<Rightarrow> (errorMessage (error_text e), w\<lparr>sv_peer := peer1\<rparr>)
      | (None, peer1) \<Rightarrow>
          (let peer2 = snd (OnICECandidate P (msg_SessionID m) peer1) in
           case CreateAnswer P (msg_SessionID m) peer2 of
             (Inl e, peer3) \<Rightarrow> (errorMessage (error_text e), w\<lparr>sv_peer := peer3\<rparr>)
           | (Inr answer, peer3) \<Rightarrow>
               (empty_message\<lparr>msg_Type := ''answer'', msg_SessionID := msg_SessionID m,
                              msg_SDP := answer\<rparr>, w\<lparr>sv_peer := peer3\<rparr>)))"

text \<open>The closure registered by \<open>case "offer"\<close>, run for each local candidate.\<close>

definition localCandidate :: "string \<Rightarrow> string \<Rightarrow> ('r, 'p) service \<Rightarrow> ('r, 'p) service" where
  "localCandidate sessionID candidate w =
     NotifySession sessionID ''ice-candidate'' [(''candidate'', candidate)] w"

definition HandleSignaling ::
  "'r room_repository \<Rightarrow> 'p webrtc_peer \<Rightarrow> env \<Rightarrow> signaling_message \<Rightarrow> ('r, 'p) service
     \<Rightarrow> (gerror + signaling_message) go_result \<times> ('r, 'p) service" where
  "HandleSignaling R P E m w =
     (if msg_Type m = ''join'' then
        (case handleJoin R P E m w of (resp, w') \<Rightarrow> (Return (Inr resp), w'))
      else if msg_Type m = ''offer'' then
        (case handleOffer P m w of (resp, w') \<Rightarrow> (Return (Inr resp), w'))
      else if msg_Type m = ''ice-candidate'' then
        (Return (Inr empty_message),
         w\<lparr>sv_peer := snd (AddICECandidate P (msg_SessionID m) (msg_Candidate m) (sv_peer w))\<rparr>)
      else if msg_Type m = ''leave'' then
        (case sv_sessions w (msg_SessionID m) of
           None \<Rightarrow> (Return (Inr (errorMessage ''session not found'')), w)
         | Some sess \<Rightarrow>
             (case LeaveRoom R P E (se_RoomID sess) (se_UserID sess) w of
                (Panic, w') \<Rightarrow> (Panic, w')
              | (Return _, w') \<Rightarrow> (Return (Inr empty_message), w')))
      else (Return (Inl (Sentinel ErrUnknownMessageType)), w))"

end
