(* ===== verification/Repository.thy ===== *)
theory Repository
  imports Ports
begin

section \<open>The in-memory repository: internal/app/roomsvc/repository.go\<close>

text \<open>
  \<open>InMemoryRoomRepository\<close>: a map from room IDs to room pointers.  The three methods that range
  over the map take the enumeration order as \<open>ord\<close>; the results that do not depend on it are
  proved not to.
\<close>

type_synonym mem_repo = "string \<rightharpoonup> room_ptr"

definition NewInMemoryRoomRepository :: mem_repo where
  "NewInMemoryRoomRepository = (\<lambda>_. None)"

definition mem_Save :: "room_ptr \<Rightarrow> room_heap \<Rightarrow> mem_repo \<Rightarrow> gerror option \<times> mem_repo" where
  "mem_Save p h r = (None, r(rm_ID (h p) \<mapsto> p))"

definition mem_FindByID :: "string \<Rightarrow> room_heap \<Rightarrow> mem_repo \<Rightarrow> gerror + room_ptr" where
  "mem_FindByID i h r =
     (case r i of
        None \<Rightarrow> Inl (Wrapped ''roomsvc.FindByID'' (Sentinel ErrRoomNotFound))
      | Some p \<Rightarrow> Inr p)"

definition mem_Delete :: "string \<Rightarrow> mem_repo \<Rightarrow> gerror option \<times> mem_repo" where
  "mem_Delete i r = (None, r(i := None))"

text \<open>The values a \<open>range\<close> loop over the map visits.\<close>

definition visited :: "string list \<Rightarrow> mem_repo \<Rightarrow> room_ptr list" where
  "visited ord r = List.map_filter r ord"

definition mem_ListActive :: "string list \<Rightarrow> room_heap \<Rightarrow> mem_repo \<Rightarrow> gerror + room_ptr list" where
  "mem_ListActive ord h r = Inr (filter (\<lambda>p. rm_Active (h p)) (visited ord r))"

definition mem_FindByShortCode :: "string list \<Rightarrow> string \<Rightarrow> room_heap \<Rightarrow> mem_repo \<Rightarrow> gerror + room_ptr" where
  "mem_FindByShortCode ord code h r =
     (let normalized = ToUpper code in
      case List.find (\<lambda>p. rm_ShortCode (h p) = normalized) (visited ord r) of
        Some p \<Rightarrow> Inr p
      | None \<Rightarrow> Inl (Wrapped ''roomsvc.FindByShortCode'' (Sentinel ErrRoomNotFound)))"

definition mem_UpdateLastActivity ::
  "time \<Rightarrow> string \<Rightarrow> room_heap \<Rightarrow> mem_repo \<Rightarrow> gerror option \<times> room_heap" where
  "mem_UpdateLastActivity now i h r =
     (case r i of
        None \<Rightarrow> (Some (Wrapped ''roomsvc.UpdateLastActivity'' (Sentinel ErrRoomNotFound)), h)
      | Some p \<Rightarrow> (None, h(p := (h p)\<lparr>rm_LastActivity := Some now\<rparr>)))"

definition expired :: "time \<Rightarrow> room \<Rightarrow> bool" where
  "expired before rm = (case rm_LastActivity rm of None \<Rightarrow> False | Some t \<Rightarrow> t < before)"

definition mem_ListExpired :: "string list \<Rightarrow> time \<Rightarrow> room_heap \<Rightarrow> mem_repo \<Rightarrow> gerror + room_ptr list" where
  "mem_ListExpired ord before h r = Inr (filter (\<lambda>p. expired before (h p)) (visited ord r))"

text \<open>
  The repository as the interface value the service is given; \<open>ord\<close> is the enumeration order
  the runtime picks for each content of the map.
\<close>

definition mem_repository :: "(mem_repo \<Rightarrow> string list) \<Rightarrow> mem_repo room_repository" where
  "mem_repository ord =
     \<lparr>Save = mem_Save, FindByID = mem_FindByID, Delete = mem_Delete,
      ListActive = (\<lambda>h r. mem_ListActive (ord r) h r),
      FindByShortCode = (\<lambda>c h r. mem_FindByShortCode (ord r) c h r),
      UpdateLastActivity = mem_UpdateLastActivity,
      ListExpired = (\<lambda>t h r. mem_ListExpired (ord r) t h r)\<rparr>"

lemma mem_repository_sel [simp]:
  "Save (mem_repository ord) = mem_Save" "FindByID (mem_repository ord) = mem_FindByID"
  "Delete (mem_repository ord) = mem_Delete"
  "FindByShortCode (mem_repository ord) c h r = mem_FindByShortCode (ord r) c h r"
  "UpdateLastActivity (mem_repository ord) = mem_UpdateLastActivity"
  "ListExpired (mem_repository ord) t h r = mem_ListExpired (ord r) t h r"
  "ListActive (mem_repository ord) h r = mem_ListActive (ord r) h r"
  by (simp_all add: mem_repository_def)

interpretation mem: total_room_store "\<lambda>r. r" mem_Save mem_FindByID mem_Delete
  by unfold_locales (auto simp: mem_Save_def mem_FindByID_def mem_Delete_def)

subsection \<open>The ranging methods\<close>

lemma set_visited: "enumerates ord r \<Longrightarrow> set (visited ord r) = ran r"
  by (auto simp: visited_def List.map_filter_def enumerates_def ran_def dom_def image_iff) force

lemma mem_ListExpired_set:
  "enumerates ord r \<Longrightarrow> mem_ListExpired ord t h r = Inr ps \<Longrightarrow> set ps = {p \<in> ran r. expired t (h p)}"
  by (auto simp: mem_ListExpired_def set_visited)

lemma mem_ListActive_set:
  "enumerates ord r \<Longrightarrow> mem_ListActive ord h r = Inr ps \<Longrightarrow> set ps = {p \<in> ran r. rm_Active (h p)}"
  by (auto simp: mem_ListActive_def set_visited)

lemma mem_FindByShortCode_Inr:
  assumes "enumerates ord r" and "mem_FindByShortCode ord code h r = Inr p"
  shows "p \<in> ran r \<and> rm_ShortCode (h p) = ToUpper code"
  using assms
  by (auto simp: mem_FindByShortCode_def Let_def find_Some_iff set_visited [symmetric] split: option.splits)

lemma mem_FindByShortCode_Inl:
  assumes "enumerates ord r" and "mem_FindByShortCode ord code h r = Inl e"
  shows "errors_Is e ErrRoomNotFound \<and> (\<forall>p \<in> ran r. rm_ShortCode (h p) \<noteq> ToUpper code)"
  using assms
  by (auto simp: mem_FindByShortCode_def Let_def find_None_iff set_visited [symmetric] split: option.splits)

text \<open>No two stored rooms share a short code.\<close>

definition codes_unique :: "room_heap \<Rightarrow> mem_repo \<Rightarrow> bool" where
  "codes_unique h r \<longleftrightarrow> inj_on (\<lambda>p. rm_ShortCode (h p)) (ran r)"

lemma mem_FindByShortCode_unique:
  assumes "enumerates ord r" and "codes_unique h r" and "p \<in> ran r"
    and "rm_ShortCode (h p) = ToUpper code"
  shows "mem_FindByShortCode ord code h r = Inr p"
proof (cases "mem_FindByShortCode ord code h r")
  case (Inl e)
  then show ?thesis using mem_FindByShortCode_Inl [OF assms(1) Inl] assms(3,4) by blast
next
  case (Inr q)
  with mem_FindByShortCode_Inr [OF assms(1) Inr] assms(2-4) show ?thesis
    by (auto simp: codes_unique_def inj_on_def)
qed

end
