(* ===== verification/Service_Registry.thy ===== *)
theory Service_Registry
  imports Service Repository
begin

section \<open>The session registry of the service\<close>

text \<open>
  The two maps \<open>sessions\<close> and \<open>lookup\<close> under every operation, for arbitrary ports: what each
  operation leaves alone, the closed form of the deletion loop, and the registry invariant, which
  is what makes the unchecked dereference in \<open>LeaveRoom\<close> safe.
\<close>

abbreviation keyOf :: "session \<Rightarrow> string" where
  "keyOf s \<equiv> lookupKey (se_RoomID s) (se_UserID s)"

lemma lookupKey_eq_iff:
  "CHR '':'' \<notin> set i \<Longrightarrow> CHR '':'' \<notin> set j \<Longrightarrow>
     lookupKey i u = lookupKey j v \<longleftrightarrow> i = j \<and> u = v"
  by (simp add: lookupKey_def separated_append_eq)

lemma prefix_of_lookupKey:
  assumes "CHR '':'' \<notin> set i" and "CHR '':'' \<notin> set j"
  shows "strict_prefix_match (i @ '':'') (lookupKey j u) \<longleftrightarrow> i = j \<and> u \<noteq> []"
proof
  assume "strict_prefix_match (i @ '':'') (lookupKey j u)"
  then obtain xs where "lookupKey j u = (i @ '':'') @ xs" and "xs \<noteq> []"
    by (rule strict_prefix_matchE)
  then show "i = j \<and> u \<noteq> []"
    using assms by (auto simp: lookupKey_def separated_append_eq)
next
  assume "i = j \<and> u \<noteq> []"
  then show "strict_prefix_match (i @ '':'') (lookupKey j u)"
    using strict_prefix_match_append [of "i @ '':''" u] by (simp add: lookupKey_def)
qed

subsection \<open>What an operation leaves alone\<close>

lemma stopPipeline_frame [frame_simps]:
  "sv_heap (stopPipeline i w) = sv_heap w" "sv_next (stopPipeline i w) = sv_next w"
  "sv_repo (stopPipeline i w) = sv_repo w" "sv_sessions (stopPipeline i w) = sv_sessions w"
  "sv_lookup (stopPipeline i w) = sv_lookup w" "sv_graceTimers (stopPipeline i w) = sv_graceTimers w"
  "sv_outbox (stopPipeline i w) = sv_outbox w" "sv_cfg (stopPipeline i w) = sv_cfg w"
  "sv_spawned (stopPipeline i w) = sv_spawned w" "sv_peer (stopPipeline i w) = sv_peer w"
  "sv_events (stopPipeline i w) = sv_events w"
  "sv_pipelines (stopPipeline i w) = (sv_pipelines w)(i := None)"
  by (auto simp: stopPipeline_def split: option.splits)

lemma NotifySession_frame [frame_simps]:
  "sv_heap (NotifySession s t f w) = sv_heap w" "sv_next (NotifySession s t f w) = sv_next w"
  "sv_repo (NotifySession s t f w) = sv_repo w" "sv_sessions (NotifySession s t f w) = sv_sessions w"
  "sv_lookup (NotifySession s t f w) = sv_lookup w" "sv_cfg (NotifySession s t f w) = sv_cfg w"
  "sv_graceTimers (NotifySession s t f w) = sv_graceTimers w"
  "sv_pipelines (NotifySession s t f w) = sv_pipelines w"
  "sv_peer (NotifySession s t f w) = sv_peer w"
  "sv_outbox (NotifySession s t f w) =
     sv_outbox w @ [\<lparr>nt_SessionID = s, nt_Type = t, nt_Fields = f\<rparr>]"
  by (simp_all add: NotifySession_def)

lemma cancelGrace_frame [frame_simps]:
  "sv_heap (cancelGraceTimersForRoom E i w) = sv_heap w"
  "sv_next (cancelGraceTimersForRoom E i w) = sv_next w"
  "sv_repo (cancelGraceTimersForRoom E i w) = sv_repo w"
  "sv_sessions (cancelGraceTimersForRoom E i w) = sv_sessions w"
  "sv_lookup (cancelGraceTimersForRoom E i w) = sv_lookup w"
  "sv_pipelines (cancelGraceTimersForRoom E i w) = sv_pipelines w"
  "sv_peer (cancelGraceTimersForRoom E i w) = sv_peer w"
  "sv_outbox (cancelGraceTimersForRoom E i w) = sv_outbox w"
  "sv_cfg (cancelGraceTimersForRoom E i w) = sv_cfg w"
  "sv_spawned (cancelGraceTimersForRoom E i w) = sv_spawned w"
  by (simp_all add: cancelGraceTimersForRoom_def)

lemma dropLookupKey_frame [frame_simps]:
  "sv_heap (dropLookupKey P x k w) = sv_heap w" "sv_next (dropLookupKey P x k w) = sv_next w"
  "sv_repo (dropLookupKey P x k w) = sv_repo w"
  "sv_pipelines (dropLookupKey P x k w) = sv_pipelines w"
  "sv_graceTimers (dropLookupKey P x k w) = sv_graceTimers w"
  "sv_outbox (dropLookupKey P x k w) = sv_outbox w" "sv_cfg (dropLookupKey P x k w) = sv_cfg w"
  "sv_spawned (dropLookupKey P x k w) = sv_spawned w" "sv_events (dropLookupKey P x k w) = sv_events w"
  by (auto simp: dropLookupKey_def Let_def split: option.splits)

lemma dropLoop_frame [frame_simps]:
  "sv_heap (fold (dropLookupKey P x) ks w) = sv_heap w"
  "sv_next (fold (dropLookupKey P x) ks w) = sv_next w"
  "sv_repo (fold (dropLookupKey P x) ks w) = sv_repo w"
  "sv_pipelines (fold (dropLookupKey P x) ks w) = sv_pipelines w"
  "sv_graceTimers (fold (dropLookupKey P x) ks w) = sv_graceTimers w"
  "sv_outbox (fold (dropLookupKey P x) ks w) = sv_outbox w"
  "sv_cfg (fold (dropLookupKey P x) ks w) = sv_cfg w"
  "sv_spawned (fold (dropLookupKey P x) ks w) = sv_spawned w"
  "sv_events (fold (dropLookupKey P x) ks w) = sv_events w"
  by (induction ks arbitrary: w) (simp_all add: frame_simps)

lemma CreateRoom_frame:
  "(x, w') = CreateRoom R E s t w \<Longrightarrow>
     sv_sessions w' = sv_sessions w \<and> sv_lookup w' = sv_lookup w \<and> sv_peer w' = sv_peer w
     \<and> sv_pipelines w' = sv_pipelines w \<and> sv_graceTimers w' = sv_graceTimers w
     \<and> sv_outbox w' = sv_outbox w \<and> sv_spawned w' = sv_spawned w
     \<and> (\<forall>q. q \<noteq> sv_next w \<longrightarrow> sv_heap w' q = sv_heap w q) \<and> sv_next w \<le> sv_next w'"
  by (auto simp: CreateRoom_def Let_def split: sum.splits option.splits prod.splits)

subsection \<open>The deletion loop in closed form\<close>

lemma dropLookupKey_lookup:
  "sv_lookup (dropLookupKey P x k w) =
     (\<lambda>k'. if k' = k \<and> strict_prefix_match x k then None else sv_lookup w k')"
  by (auto simp: dropLookupKey_def Let_def split: option.splits)

lemma dropLookupKey_sessions:
  "sv_sessions (dropLookupKey P x k w) =
     (\<lambda>sid. if sv_lookup w k = Some sid \<and> strict_prefix_match x k then None else sv_sessions w sid)"
  by (auto simp: dropLookupKey_def Let_def split: option.splits)

lemma dropLoop_lookup:
  "sv_lookup (fold (dropLookupKey P x) ks w) =
     (\<lambda>k. if k \<in> set ks \<and> strict_prefix_match x k then None else sv_lookup w k)"
  by (induction ks arbitrary: w) (auto simp: dropLookupKey_lookup)

lemma dropLoop_sessions:
  "sv_sessions (fold (dropLookupKey P x) ks w) =
     (\<lambda>sid. if \<exists>k \<in> set ks. strict_prefix_match x k \<and> sv_lookup w k = Some sid then None
            else sv_sessions w sid)"
  by (induction ks arbitrary: w)
    (auto simp: dropLookupKey_lookup dropLookupKey_sessions fun_eq_iff)

subsection \<open>The registry invariant\<close>

text \<open>Every key of \<open>lookup\<close> is the key of the session it points to, and that session exists.\<close>

definition registered :: "(string \<rightharpoonup> session) \<Rightarrow> (string \<rightharpoonup> string) \<Rightarrow> bool" where
  "registered S L \<longleftrightarrow>
     (\<forall>k sid. L k = Some sid \<longrightarrow> (\<exists>s. S sid = Some s \<and> se_ID s = sid \<and> k = keyOf s))"

abbreviation svc_registered :: "('r, 'p) service \<Rightarrow> bool" where
  "svc_registered w \<equiv> registered (sv_sessions w) (sv_lookup w)"

lemma registeredE:
  assumes "registered S L" and "L k = Some sid"
  obtains s where "S sid = Some s" and "se_ID s = sid" and "k = keyOf s"
  using assms by (auto simp: registered_def)

lemma registered_insert [inv_intros]:
  "registered S L \<Longrightarrow> S sid = None \<Longrightarrow> se_ID s = sid \<Longrightarrow> k = keyOf s \<Longrightarrow>
     registered (S(sid \<mapsto> s)) (L(k \<mapsto> sid))"
  by (fastforce simp: registered_def)

lemma registered_remove [inv_intros]:
  assumes "registered S L" and "L k = Some sid"
  shows "registered (S(sid := None)) (L(k := None))"
  unfolding registered_def
proof (intro allI impI)
  fix k' sid'
  assume L: "(L(k := None)) k' = Some sid'"
  then have "L k' = Some sid'" and "k' \<noteq> k" by (auto split: if_splits)
  then obtain s where s: "S sid' = Some s" "se_ID s = sid'" "k' = keyOf s"
    using assms(1) by (elim registeredE)
  moreover have "sid' \<noteq> sid"
    using s \<open>k' \<noteq> k\<close> assms by (auto elim: registeredE)
  ultimately show "\<exists>s. (S(sid := None)) sid' = Some s \<and> se_ID s = sid' \<and> k' = keyOf s"
    by auto
qed

lemma registered_update [inv_intros]:
  "registered S L \<Longrightarrow> S sid = Some s \<Longrightarrow> se_ID s' = se_ID s \<Longrightarrow> keyOf s' = keyOf s \<Longrightarrow>
     registered (S(sid \<mapsto> s')) L"
  by (fastforce simp: registered_def)

lemma registered_dropLookupKey [inv_intros]:
  assumes "svc_registered w"
  shows "svc_registered (dropLookupKey P x k w)"
proof (cases "sv_lookup w k")
  case None
  then show ?thesis using assms by (simp add: dropLookupKey_def)
next
  case (Some sid)
  with assms obtain s where "sv_sessions w sid = Some s" by (elim registeredE)
  then show ?thesis
    using Some assms registered_remove [OF assms Some] by (simp add: dropLookupKey_def Let_def)
qed

lemma registered_dropLoop [inv_intros]:
  "svc_registered w \<Longrightarrow> svc_registered (fold (dropLookupKey P x) ks w)"
  by (induction ks arbitrary: w) (auto intro: registered_dropLookupKey)

lemma registered_DeleteRoom [inv_intros]:
  "svc_registered w \<Longrightarrow> svc_registered (snd (DeleteRoom R P E i w))"
  by (auto simp: DeleteRoom_def Let_def frame_simps intro!: inv_intros
      split: sum.splits option.splits prod.splits)

lemma registered_openSession:
  assumes "svc_registered w" and "sv_sessions w (ev_uuid E) = None"
  shows "svc_registered (snd (openSession R P E p b i u lang w))"
  using assms
  by (auto simp: openSession_def Let_def intro!: registered_insert
      split: sum.splits option.splits prod.splits)

lemma registered_JoinRoom [inv_intros]:
  assumes "svc_registered w" and "sv_sessions w (ev_uuid E) = None"
  shows "svc_registered (snd (JoinRoom R P E i u lang w))"
  using assms
  by (auto simp: JoinRoom_def Let_def frame_simps intro!: registered_openSession
      split: sum.splits option.splits)

lemma registered_LeaveRoom [inv_intros]:
  assumes "svc_registered w"
  shows "svc_registered (snd (LeaveRoom R P E i u w))"
proof (cases "sv_lookup w (lookupKey i u)")
  case None
  then show ?thesis using assms by (simp add: LeaveRoom_def)
next
  case (Some sid)
  with assms obtain s where s: "sv_sessions w sid = Some s" by (elim registeredE)
  have 1: "registered ((sv_sessions w)(sid \<mapsto> Disconnect s)) (sv_lookup w)"
    using assms s by (rule registered_update) simp_all
  have 2: "registered ((sv_sessions w)(sid := None)) ((sv_lookup w)(lookupKey i u := None))"
    using assms Some by (rule registered_remove)
  show ?thesis
    using 1 2 Some s
    by (auto simp: LeaveRoom_def Let_def frame_simps split: sum.splits option.splits prod.splits)
qed

lemma LeaveRoom_no_panic: "svc_registered w \<Longrightarrow> fst (LeaveRoom R P E i u w) \<noteq> Panic"
  by (auto simp: LeaveRoom_def Let_def split: sum.splits option.splits prod.splits
      elim: registeredE)

lemma registered_OnDisconnect [inv_intros]:
  "svc_registered w \<Longrightarrow> svc_registered (OnDisconnect E sid w)"
  by (auto simp: OnDisconnect_def split: option.splits)

lemma registered_graceTimerFires [inv_intros]:
  assumes "svc_registered w"
  shows "svc_registered (graceTimerFires R P E sid t w)"
  using assms by (auto simp: graceTimerFires_def Let_def frame_simps intro!: registered_DeleteRoom)

lemma registered_sweepLoop:
  "svc_registered w \<Longrightarrow> svc_registered (sweepLoop R P E ps w)"
  by (induction ps arbitrary: w) (auto intro: registered_DeleteRoom)

lemma registered_sweep [inv_intros]:
  "svc_registered w \<Longrightarrow> svc_registered (sweepExpiredRooms R P E w)"
  by (auto simp: sweepExpiredRooms_def intro: registered_sweepLoop split: sum.splits)

lemma registered_handleJoin [inv_intros]:
  assumes "svc_registered w" and "sv_sessions w (ev_uuid E) = None"
  shows "svc_registered (snd (handleJoin R P E m w))"
proof (cases "JoinRoom R P E (msg_RoomID m) (msg_UserID m) (msg_Lang m) w")
  case (Pair x w1)
  then have "svc_registered w1"
    using registered_JoinRoom [OF assms, of R P "msg_RoomID m" "msg_UserID m" "msg_Lang m"] by simp
  with Pair show ?thesis
    by (auto simp: handleJoin_def Let_def frame_simps intro!: registered_update
        split: sum.splits option.splits)
qed

lemma handleOffer_frame [frame_simps]:
  "sv_sessions (snd (handleOffer P m w)) = sv_sessions w"
  "sv_lookup (snd (handleOffer P m w)) = sv_lookup w"
  "sv_heap (snd (handleOffer P m w)) = sv_heap w"
  "sv_repo (snd (handleOffer P m w)) = sv_repo w"
  "sv_next (snd (handleOffer P m w)) = sv_next w"
  "sv_graceTimers (snd (handleOffer P m w)) = sv_graceTimers w"
  "sv_pipelines (snd (handleOffer P m w)) = sv_pipelines w"
  by (auto simp: handleOffer_def Let_def split: sum.splits option.splits prod.splits)

lemma registered_HandleSignaling [inv_intros]:
  assumes "svc_registered w" and "sv_sessions w (ev_uuid E) = None"
  shows "svc_registered (snd (HandleSignaling R P E m w))"
  using registered_handleJoin [OF assms, of R P m] registered_LeaveRoom [OF assms(1), of R P E]
    handleOffer_frame [of P m w] assms(1)
  by (auto simp: HandleSignaling_def split: prod.splits option.splits go_result.splits)
     (metis snd_conv)+

lemma HandleSignaling_no_panic:
  assumes "svc_registered w"
  shows "fst (HandleSignaling R P E m w) \<noteq> Panic"
  using LeaveRoom_no_panic [OF assms, of R P E]
  by (auto simp: HandleSignaling_def split: prod.splits option.splits go_result.splits)
     (metis fst_conv)

end
