(* ===== verification/Service_Rooms.thy ===== *)
theory Service_Rooms
  imports Service_Registry
begin

section \<open>Rooms, sessions and the repository kept consistent\<close>

text \<open>
  The invariant that ties the repository, the shared room objects and the session registry
  together, proved once for every repository that honours the contract \<open>total_room_store\<close>, and
  the effect of each operation in the form the proofs use.
\<close>

subsection \<open>Effects of JoinRoom, for arbitrary ports\<close>

lemma openSession_Inl:
  assumes "openSession R P E p b i u lang w = (Inl e, w')"
  shows "sv_sessions w' = sv_sessions w \<and> sv_lookup w' = sv_lookup w
    \<and> sv_graceTimers w' = sv_graceTimers w
    \<and> sv_pipelines w' = sv_pipelines w \<and> sv_spawned w' = sv_spawned w
    \<and> sv_outbox w' = sv_outbox w \<and> sv_next w' = sv_next w
    \<and> sv_heap w' = undoJoin b p u (sv_heap w)"
  using assms
  by (auto simp: openSession_def Let_def split: prod.splits option.splits)

lemma openSession_Inr:
  assumes "openSession R P E p b i u lang w = (Inr sid, w')"
  shows "sid = ev_uuid E
    \<and> sv_sessions w' = (sv_sessions w)(sid \<mapsto> NewSession sid i u lang (ev_now E))
    \<and> sv_lookup w' = (sv_lookup w)(lookupKey i u \<mapsto> sid)
    \<and> sv_heap w' = (sv_heap w)(p := TouchActivity (sv_heap w p) (ev_now E))
    \<and> sv_graceTimers w' = sv_graceTimers w
    \<and> sv_pipelines w' = sv_pipelines w \<and> sv_outbox w' = sv_outbox w \<and> sv_next w' = sv_next w
    \<and> (\<exists>r1. Save R p (sv_heap w) (sv_repo w) = (None, r1)
          \<and> sv_repo w' = snd (Save R p (sv_heap w') r1))"
  using assms
  by (auto simp: openSession_def Let_def NewSession_def split: prod.splits option.splits if_splits)

lemma undoJoin_Join [simp]:
  "Join (h p) u = Inr r \<Longrightarrow> undoJoin False p u (h(p := r)) = h"
  by (auto simp: undoJoin_def split: sum.splits)

lemma undoJoin_reconnect [simp]: "undoJoin True p u h = h"
  by (simp add: undoJoin_def)

lemma JoinRoom_Inl:
  assumes "JoinRoom R P E i u lang w = (Inl e, w')"
  shows "sv_sessions w' = sv_sessions w \<and> sv_lookup w' = sv_lookup w \<and> sv_heap w' = sv_heap w
    \<and> sv_pipelines w' = sv_pipelines w \<and> sv_spawned w' = sv_spawned w
    \<and> sv_outbox w' = sv_outbox w \<and> sv_next w' = sv_next w"
proof -
  have join: "Join (sv_heap w p) u = Inl e' \<Longrightarrow> errors_Is e' ErrAlreadyInRoom \<Longrightarrow>
      Join (sv_heap w p) u = Inl (Sentinel ErrAlreadyInRoom)" for p e'
    by (auto dest: Join_Inl_sentinel)
  show ?thesis
    using assms
    by (auto simp: JoinRoom_def Let_def frame_simps dest!: openSession_Inl
        split: if_splits sum.splits option.splits)
qed

text \<open>The three ways to succeed: a new member, a live reconnection, a member without session.\<close>

lemma JoinRoom_InrE:
  assumes "JoinRoom R P E i u lang w = (Inr sid, w')"
  obtains (new) p r' where "FindByID R i (sv_heap w) (sv_repo w) = Inr p" and "lang \<noteq> []"
      and "lang = rm_SourceLang (sv_heap w p) \<or> lang = rm_TargetLang (sv_heap w p)"
      and "Join (sv_heap w p) u = Inr r'"
      and "openSession R P E p False i u lang
        (cancelGraceTimersForRoom E i (w\<lparr>sv_heap := (sv_heap w)(p := r')\<rparr>)) = (Inr sid, w')"
  | (reconnect) p where "FindByID R i (sv_heap w) (sv_repo w) = Inr p" and "lang \<noteq> []"
      and "rm_Active (sv_heap w p)" and "u \<in> rm_Participants (sv_heap w p)"
      and "sv_lookup w (lookupKey i u) = Some sid" and "w' = cancelGraceTimersForRoom E i w"
  | (reopen) p where "FindByID R i (sv_heap w) (sv_repo w) = Inr p" and "lang \<noteq> []"
      and "rm_Active (sv_heap w p)" and "u \<in> rm_Participants (sv_heap w p)"
      and "sv_lookup w (lookupKey i u) = None"
      and "openSession R P E p True i u lang (cancelGraceTimersForRoom E i w) = (Inr sid, w')"
proof -
  have already: "errors_Is e ErrAlreadyInRoom \<Longrightarrow> Join r u = Inl e \<Longrightarrow>
      rm_Active r \<and> u \<in> rm_Participants r" for e r
    by (auto simp: Join_def split: if_splits)
  show thesis
    using assms already
    by (auto simp: JoinRoom_def Let_def frame_simps split: if_splits sum.splits option.splits
        intro: new reconnect reopen)
qed

subsection \<open>The invariant\<close>

text \<open>
  \<open>B\<close> is what the repository's state binds.  Room IDs are UUIDs and hold no colon, so the keys of
  \<open>lookup\<close> are unambiguous.  A session with an empty user ID is exempt from \<open>hosted\<close>: the loop of
  \<open>DeleteRoom\<close> skips its key.
\<close>

definition rooms_sound :: "(string \<rightharpoonup> room_ptr) \<Rightarrow> room_heap \<Rightarrow> room_ptr \<Rightarrow> bool" where
  "rooms_sound B h nx \<longleftrightarrow> (\<forall>i p. B i = Some p \<longrightarrow>
     rm_ID (h p) = i \<and> p < nx \<and> CHR '':'' \<notin> set i \<and> room_ok (h p) \<and> rm_Active (h p)
     \<and> rm_Capacity (h p) = defaultCapacity)"

definition sessions_indexed :: "(string \<rightharpoonup> session) \<Rightarrow> (string \<rightharpoonup> string) \<Rightarrow> bool" where
  "sessions_indexed S L \<longleftrightarrow> (\<forall>sid s. S sid = Some s \<longrightarrow>
     se_ID s = sid \<and> L (keyOf s) = Some sid \<and> CHR '':'' \<notin> set (se_RoomID s))"

definition members_match ::
  "(string \<rightharpoonup> room_ptr) \<Rightarrow> room_heap \<Rightarrow> (string \<rightharpoonup> string) \<Rightarrow> bool" where
  "members_match B h L \<longleftrightarrow> (\<forall>i p u. B i = Some p \<longrightarrow>
     (u \<in> rm_Participants (h p) \<longleftrightarrow> L (lookupKey i u) \<noteq> None))"

definition hosted :: "(string \<rightharpoonup> room_ptr) \<Rightarrow> (string \<rightharpoonup> session) \<Rightarrow> bool" where
  "hosted B S \<longleftrightarrow> (\<forall>sid s. S sid = Some s \<longrightarrow> se_UserID s \<noteq> [] \<longrightarrow> B (se_RoomID s) \<noteq> None)"

definition consistent :: "(string \<rightharpoonup> room_ptr) \<Rightarrow> ('r, 'p) service \<Rightarrow> bool" where
  "consistent B w \<longleftrightarrow>
     svc_registered w \<and> finite (dom (sv_lookup w))
     \<and> sessions_indexed (sv_sessions w) (sv_lookup w)
     \<and> rooms_sound B (sv_heap w) (sv_next w) \<and> members_match B (sv_heap w) (sv_lookup w)
     \<and> hosted B (sv_sessions w)"

lemma consistentI:
  assumes "svc_registered w" and "finite (dom (sv_lookup w))"
    and "sessions_indexed (sv_sessions w) (sv_lookup w)"
    and "rooms_sound B (sv_heap w) (sv_next w)" and "members_match B (sv_heap w) (sv_lookup w)"
    and "hosted B (sv_sessions w)"
  shows "consistent B w"
  using assms by (simp add: consistent_def)

lemma consistentD:
  assumes "consistent B w"
  shows "svc_registered w" and "finite (dom (sv_lookup w))"
    and "sessions_indexed (sv_sessions w) (sv_lookup w)"
    and "rooms_sound B (sv_heap w) (sv_next w)" and "members_match B (sv_heap w) (sv_lookup w)"
    and "hosted B (sv_sessions w)"
  using assms by (simp_all add: consistent_def)

text \<open>Operations that leave the four tied fields alone keep the invariant.\<close>

lemma consistent_frame:
  "sv_sessions w' = sv_sessions w \<Longrightarrow> sv_lookup w' = sv_lookup w \<Longrightarrow> sv_heap w' = sv_heap w \<Longrightarrow>
     sv_next w' = sv_next w \<Longrightarrow> consistent B w \<Longrightarrow> consistent B w'"
  by (simp add: consistent_def)

lemma rooms_soundD:
  assumes "rooms_sound B h nx" and "B i = Some p"
  shows "rm_ID (h p) = i" and "p < nx" and "CHR '':'' \<notin> set i" and "room_ok (h p)"
    and "rm_Active (h p)" and "rm_Capacity (h p) = defaultCapacity"
  using assms by (auto simp: rooms_sound_def)

lemma rooms_sound_inj:
  "rooms_sound B h nx \<Longrightarrow> B i = Some p \<Longrightarrow> B j = Some p \<Longrightarrow> i = j"
  by (metis rooms_soundD(1))

lemma sessions_indexedD:
  assumes "sessions_indexed S L" and "S sid = Some s"
  shows "se_ID s = sid" and "L (keyOf s) = Some sid" and "CHR '':'' \<notin> set (se_RoomID s)"
  using assms by (auto simp: sessions_indexed_def)

lemma members_matchD:
  "members_match B h L \<Longrightarrow> B i = Some p \<Longrightarrow> u \<in> rm_Participants (h p) \<longleftrightarrow> L (lookupKey i u) \<noteq> None"
  by (simp add: members_match_def)

text \<open>Changing the object of one stored room.\<close>

lemma rooms_sound_upd:
  assumes "rooms_sound B h nx" and "B i = Some p" and "room_ok r" and "rm_Active r"
    and "rm_ID r = i" and "rm_Capacity r = defaultCapacity"
  shows "rooms_sound B (h(p := r)) nx"
  unfolding rooms_sound_def
proof (intro allI impI)
  fix j q
  assume Bj: "B j = Some q"
  show "rm_ID ((h(p := r)) q) = j \<and> q < nx \<and> CHR '':'' \<notin> set j \<and> room_ok ((h(p := r)) q)
      \<and> rm_Active ((h(p := r)) q) \<and> rm_Capacity ((h(p := r)) q) = defaultCapacity"
  proof (cases "q = p")
    case True
    then have "j = i" using rooms_sound_inj [OF assms(1,2)] Bj by simp
    with True show ?thesis using assms rooms_soundD [OF assms(1,2)] by simp
  next
    case False
    then show ?thesis using rooms_soundD [OF assms(1) Bj] by simp
  qed
qed

lemma members_match_insert:
  assumes m: "members_match B h L" and B: "B i = Some p" and s: "rooms_sound B h nx"
    and r: "rm_Participants r = insert u (rm_Participants (h p))"
  shows "members_match B (h(p := r)) (L(lookupKey i u \<mapsto> sid))"
  unfolding members_match_def
proof (intro allI impI)
  fix j q v
  assume Bj: "B j = Some q"
  show "v \<in> rm_Participants ((h(p := r)) q) \<longleftrightarrow> (L(lookupKey i u \<mapsto> sid)) (lookupKey j v) \<noteq> None"
  proof (cases "i = j")
    case True
    then show ?thesis
      using B Bj members_matchD [OF m B, of v] r by (auto simp: lookupKey_def)
  next
    case False
    moreover from this have "q \<noteq> p" using rooms_sound_inj [OF s B] Bj by blast
    ultimately show ?thesis
      using members_matchD [OF m Bj, of v] rooms_soundD(3) [OF s B] rooms_soundD(3) [OF s Bj]
      by (simp add: lookupKey_eq_iff)
  qed
qed

lemma members_match_remove:
  assumes m: "members_match B h L" and B: "B i = Some p" and s: "rooms_sound B h nx"
    and r: "rm_Participants r = rm_Participants (h p) - {u}"
  shows "members_match B (h(p := r)) (L(lookupKey i u := None))"
  unfolding members_match_def
proof (intro allI impI)
  fix j q v
  assume Bj: "B j = Some q"
  show "v \<in> rm_Participants ((h(p := r)) q) \<longleftrightarrow> (L(lookupKey i u := None)) (lookupKey j v) \<noteq> None"
  proof (cases "i = j")
    case True
    then show ?thesis
      using B Bj members_matchD [OF m B, of v] r by (auto simp: lookupKey_def)
  next
    case False
    moreover from this have "q \<noteq> p" using rooms_sound_inj [OF s B] Bj by blast
    ultimately show ?thesis
      using members_matchD [OF m Bj, of v] rooms_soundD(3) [OF s B] rooms_soundD(3) [OF s Bj]
      by (simp add: lookupKey_eq_iff)
  qed
qed

lemma sessions_indexed_insert:
  assumes "sessions_indexed S L" and "se_ID s = sid" and "L (keyOf s) = None"
    and "CHR '':'' \<notin> set (se_RoomID s)"
  shows "sessions_indexed (S(sid \<mapsto> s)) (L(keyOf s \<mapsto> sid))"
  using assms by (fastforce simp: sessions_indexed_def)

lemma sessions_indexed_remove:
  assumes "sessions_indexed S L" and "S sid = Some s"
  shows "sessions_indexed (S(sid := None)) (L(keyOf s := None))"
  unfolding sessions_indexed_def
proof (intro allI impI)
  fix sid' s'
  assume "(S(sid := None)) sid' = Some s'"
  then have s': "S sid' = Some s'" and ne: "sid' \<noteq> sid" by (auto split: if_splits)
  have "keyOf s' \<noteq> keyOf s"
    using sessions_indexedD(2) [OF assms] sessions_indexedD(2) [OF assms(1) s'] ne by auto
  then show "se_ID s' = sid' \<and> (L(keyOf s := None)) (keyOf s') = Some sid'
      \<and> CHR '':'' \<notin> set (se_RoomID s')"
    using sessions_indexedD [OF assms(1) s'] by auto
qed

lemma sessions_indexed_update:
  "sessions_indexed S L \<Longrightarrow> S sid = Some s \<Longrightarrow> se_ID s' = se_ID s \<Longrightarrow> se_RoomID s' = se_RoomID s
     \<Longrightarrow> se_UserID s' = se_UserID s \<Longrightarrow> sessions_indexed (S(sid \<mapsto> s')) L"
  by (auto simp: sessions_indexed_def)

lemma hosted_update:
  "hosted B S \<Longrightarrow> S sid = Some s \<Longrightarrow> se_RoomID s' = se_RoomID s \<Longrightarrow> se_UserID s' = se_UserID s
     \<Longrightarrow> hosted B (S(sid \<mapsto> s'))"
  by (auto simp: hosted_def)

subsection \<open>Preservation by every operation, for every repository that honours its contract\<close>

text \<open>What the runtime promises: its enumerations of a map visit every key once.\<close>

definition env_ok :: "env \<Rightarrow> bool" where
  "env_ok E \<longleftrightarrow>
     (\<forall>m. finite (dom m) \<longrightarrow> enumerates (ev_ord_lookup E m) m)
     \<and> (\<forall>m. finite (dom m) \<longrightarrow> enumerates (ev_ord_sessions E m) m)"

text \<open>What \<open>uuid.NewString\<close> promises for a room: no colon, and no earlier room or session has it.\<close>

definition fresh_room_id :: "(string \<rightharpoonup> room_ptr) \<Rightarrow> ('r, 'p) service \<Rightarrow> string \<Rightarrow> bool" where
  "fresh_room_id B w i \<longleftrightarrow>
     CHR '':'' \<notin> set i \<and> B i = None \<and> (\<forall>s \<in> ran (sv_sessions w). se_RoomID s \<noteq> i)"

lemma fresh_room_no_key:
  assumes c: "consistent B w" and f: "fresh_room_id B w i"
  shows "sv_lookup w (lookupKey i u) = None"
proof (rule ccontr)
  assume "sv_lookup w (lookupKey i u) \<noteq> None"
  then obtain sid where sid: "sv_lookup w (lookupKey i u) = Some sid" by auto
  with consistentD(1) [OF c] obtain s
    where s: "sv_sessions w sid = Some s" "lookupKey i u = keyOf s"
    by (elim registeredE)
  then have "se_RoomID s = i"
    using sessions_indexedD(3) [OF consistentD(3) [OF c] s(1)] f
    by (simp add: fresh_room_id_def lookupKey_eq_iff)
  with s(1) f show False by (auto simp: fresh_room_id_def ran_def)
qed

lemma sessions_finite: "consistent B w \<Longrightarrow> finite (dom (sv_sessions w))"
proof -
  assume c: "consistent B w"
  have "dom (sv_sessions w) \<subseteq> ran (sv_lookup w)"
    using sessions_indexedD(2) [OF consistentD(3) [OF c]] by (auto simp: ran_def)
  moreover have "finite (ran (sv_lookup w))" using consistentD(2) [OF c] by (rule finite_ran)
  ultimately show ?thesis by (rule finite_subset)
qed

locale room_backend =
  total_room_store bindings "Save R" "FindByID R" "Delete R"
  for bindings :: "'r \<Rightarrow> string \<rightharpoonup> room_ptr" and R :: "'r room_repository"
begin

lemma openSession_Inl_bindings:
  "openSession R P E p b i u lang w = (Inl e, w') \<Longrightarrow> bindings (sv_repo w') = bindings (sv_repo w)"
  by (auto simp: openSession_def Let_def dest: save_fails split: prod.splits option.splits)

lemma openSession_Inr_bindings:
  assumes "openSession R P E p b i u lang w = (Inr sid, w')"
  shows "bindings (sv_repo w') = (bindings (sv_repo w))(rm_ID (sv_heap w p) \<mapsto> p)"
proof -
  from openSession_Inr [OF assms] obtain r1
    where r1: "Save R p (sv_heap w) (sv_repo w) = (None, r1)"
      and r2: "sv_repo w' = snd (Save R p (sv_heap w') r1)"
      and h: "sv_heap w' = (sv_heap w)(p := TouchActivity (sv_heap w p) (ev_now E))"
    by blast
  have "bindings (sv_repo w') = (bindings r1)(rm_ID (sv_heap w' p) \<mapsto> p)"
    using save_eq [of p "sv_heap w'" r1] r2 by (metis prod.collapse)
  then show ?thesis using save_binds [OF r1] h by (simp add: TouchActivity_def)
qed

lemma JoinRoom_Inl_bindings:
  "JoinRoom R P E i u lang w = (Inl e, w') \<Longrightarrow> bindings (sv_repo w') = bindings (sv_repo w)"
  by (auto simp: JoinRoom_def Let_def frame_simps dest!: openSession_Inl_bindings
      split: if_splits sum.splits option.splits)

lemma consistent_new_session:
  assumes c: "consistent (bindings (sv_repo w)) w" and fresh: "sv_sessions w (ev_uuid E) = None"
    and B: "bindings (sv_repo w) i = Some p" and J: "Join (sv_heap w p) u = Inr r"
    and op: "openSession R P E p False i u lang
               (cancelGraceTimersForRoom E i (w\<lparr>sv_heap := (sv_heap w)(p := r)\<rparr>)) = (Inr sid, w')"
  shows "consistent (bindings (sv_repo w')) w'"
proof -
  note s = rooms_soundD [OF consistentD(4) [OF c] B]
  let ?s = "NewSession sid i u lang (ev_now E)" and ?r = "TouchActivity r (ev_now E)"
  have r: "rm_Participants r = insert u (rm_Participants (sv_heap w p))" "rm_ID r = i"
      "rm_Active r" "rm_Capacity r = defaultCapacity" "u \<notin> rm_Participants (sv_heap w p)"
    using J s by (auto simp: Join_Inr_iff)
  have ok: "room_ok r" using s(4) J by (rule room_ok_Join)
  from openSession_Inr [OF op] have eff: "sid = ev_uuid E"
      "sv_sessions w' = (sv_sessions w)(sid \<mapsto> ?s)" "sv_lookup w' = (sv_lookup w)(keyOf ?s \<mapsto> sid)"
      "sv_heap w' = (sv_heap w)(p := ?r)" "sv_next w' = sv_next w"
    by (simp_all add: frame_simps)
  have B': "bindings (sv_repo w') = bindings (sv_repo w)"
    using openSession_Inr_bindings [OF op] B r(2) by (auto simp: frame_simps)
  have nokey: "sv_lookup w (keyOf ?s) = None"
    using members_matchD [OF consistentD(5) [OF c] B, of u] r(5) by simp
  show ?thesis
  proof (rule consistentI)
    show "svc_registered w'"
      using consistentD(1) [OF c] fresh unfolding eff(2,3) by (intro registered_insert) (simp_all add: eff(1))
    show "finite (dom (sv_lookup w'))" using consistentD(2) [OF c] by (simp add: eff)
    show "sessions_indexed (sv_sessions w') (sv_lookup w')"
      using consistentD(3) [OF c] nokey s(3) unfolding eff(2,3)
      by (intro sessions_indexed_insert) simp_all
    show "rooms_sound (bindings (sv_repo w')) (sv_heap w') (sv_next w')"
      unfolding B' eff(4,5)
      using consistentD(4) [OF c] B r ok
      by (intro rooms_sound_upd room_ok_Touch) (simp_all add: TouchActivity_def)
    show "members_match (bindings (sv_repo w')) (sv_heap w') (sv_lookup w')"
      unfolding B' eff(3,4) NewSession_simps
      using consistentD(5) [OF c] B consistentD(4) [OF c] r(1)
      by (intro members_match_insert) (simp_all add: TouchActivity_def)
    show "hosted (bindings (sv_repo w')) (sv_sessions w')"
      unfolding B' eff(2) using consistentD(6) [OF c] B by (auto simp: hosted_def)
  qed
qed

lemma consistent_JoinRoom:
  assumes c: "consistent (bindings (sv_repo w)) w" and fresh: "sv_sessions w (ev_uuid E) = None"
    and J: "JoinRoom R P E i u lang w = (x, w')"
  shows "consistent (bindings (sv_repo w')) w'"
proof (cases x)
  case (Inl e)
  with J have J': "JoinRoom R P E i u lang w = (Inl e, w')" by simp
  show ?thesis
    using c JoinRoom_Inl [OF J'] JoinRoom_Inl_bindings [OF J'] consistent_frame [of w' w] by simp
next
  case (Inr sid)
  with J have "JoinRoom R P E i u lang w = (Inr sid, w')" by simp
  then show ?thesis
  proof (cases rule: JoinRoom_InrE)
    case (new p r')
    then show ?thesis
      using consistent_new_session [OF c fresh] by (simp add: find_Inr_iff)
  next
    case (reconnect p)
    then show ?thesis using c by (simp add: consistent_def frame_simps)
  next
    case (reopen p)
    then have "bindings (sv_repo w) i = Some p" by (simp add: find_Inr_iff)
    from members_matchD [OF consistentD(5) [OF c] this, of u] reopen show ?thesis by simp
  qed
qed

lemma consistent_CreateRoom:
  assumes c: "consistent (bindings (sv_repo w)) w"
    and fresh: "fresh_room_id (bindings (sv_repo w)) w (ev_uuid E)"
    and C: "CreateRoom R E src tgt w = (x, w')"
  shows "consistent (bindings (sv_repo w')) w'"
proof -
  let ?B = "bindings (sv_repo w)" and ?i = "ev_uuid E" and ?p = "sv_next w"
  note fr = CreateRoom_frame [OF C [symmetric]]
  have other: "sv_heap w' q = sv_heap w q" if "?B j = Some q" for j q
    using fr rooms_soundD(2) [OF consistentD(4) [OF c] that] by auto
  have next': "q < sv_next w'" if "?B j = Some q" for j q
    using fr rooms_soundD(2) [OF consistentD(4) [OF c] that] by linarith
  have cases: "bindings (sv_repo w') = ?B \<or>
      (bindings (sv_repo w') = ?B(?i \<mapsto> ?p) \<and> sv_next w' = Suc ?p \<and> rm_ID (sv_heap w' ?p) = ?i
       \<and> room_ok (sv_heap w' ?p) \<and> rm_Active (sv_heap w' ?p) \<and> rm_Participants (sv_heap w' ?p) = {}
       \<and> rm_Capacity (sv_heap w' ?p) = defaultCapacity)"
    using C
    by (auto simp: CreateRoom_def Let_def NewRoom_def room_ok_def defaultCapacity_def
        dest!: save_eq split: if_splits sum.splits option.splits prod.splits)
  from cases show ?thesis
  proof
    assume B': "bindings (sv_repo w') = ?B"
    show ?thesis
      using c other next' fr unfolding consistent_def B'
      by (auto simp: rooms_sound_def members_match_def)
  next
    assume B': "bindings (sv_repo w') = ?B(?i \<mapsto> ?p) \<and> sv_next w' = Suc ?p \<and> rm_ID (sv_heap w' ?p) = ?i
       \<and> room_ok (sv_heap w' ?p) \<and> rm_Active (sv_heap w' ?p) \<and> rm_Participants (sv_heap w' ?p) = {}
       \<and> rm_Capacity (sv_heap w' ?p) = defaultCapacity"
    have rs: "rooms_sound (bindings (sv_repo w')) (sv_heap w') (sv_next w')"
      using B' consistentD(4) [OF c] fresh other
      by (auto simp: rooms_sound_def fresh_room_id_def less_SucI)
    have mm: "members_match (bindings (sv_repo w')) (sv_heap w') (sv_lookup w')"
      using B' consistentD(5) [OF c] fresh_room_no_key [OF c fresh] other fr
      by (auto simp: members_match_def)
    have ho: "hosted (bindings (sv_repo w')) (sv_sessions w')"
      using B' consistentD(6) [OF c] fr by (auto simp: hosted_def)
    show ?thesis
      using c fr rs mm ho by (intro consistentI) (simp_all add: consistent_def)
  qed
qed

lemma consistent_LeaveRoom:
  assumes c: "consistent (bindings (sv_repo w)) w" and L: "LeaveRoom R P E i u w = (x, w')"
  shows "consistent (bindings (sv_repo w')) w'"
proof (cases "sv_lookup w (lookupKey i u)")
  case None
  then show ?thesis using c L by (simp add: LeaveRoom_def)
next
  case (Some sid)
  with consistentD(1) [OF c] obtain s
    where s: "sv_sessions w sid = Some s" "lookupKey i u = keyOf s" by (elim registeredE)
  note sx = consistentD(3) [OF c]
  show ?thesis
  proof (cases "bindings (sv_repo w) i")
    case None
    from find_unbound [OF this, of "sv_heap w"] obtain e
      where "FindByID R i (sv_heap w) (sv_repo w) = Inl e" by blast
    then have w': "sv_sessions w' = (sv_sessions w)(sid \<mapsto> Disconnect s)" "sv_lookup w' = sv_lookup w"
        "sv_heap w' = sv_heap w" "sv_next w' = sv_next w" "sv_repo w' = sv_repo w"
      using L Some s by (auto simp: LeaveRoom_def Let_def)
    show ?thesis
      using c s(1) unfolding consistent_def w'
      by (auto intro: registered_update sessions_indexed_update hosted_update)
  next
    case (Some p)
    note B = this
    have i: "CHR '':'' \<notin> set i" "CHR '':'' \<notin> set (se_RoomID s)"
      using rooms_soundD(3) [OF consistentD(4) [OF c] B] sessions_indexedD(3) [OF sx s(1)] by simp_all
    then have us: "se_RoomID s = i" "se_UserID s = u" using s(2) by (auto simp: lookupKey_eq_iff)
    have member: "u \<in> rm_Participants (sv_heap w p)"
      using members_matchD [OF consistentD(5) [OF c] B, of u] \<open>sv_lookup w (lookupKey i u) = Some sid\<close> by simp
    let ?r = "(sv_heap w p)\<lparr>rm_Participants := rm_Participants (sv_heap w p) - {u}\<rparr>"
    have lv: "Leave (sv_heap w p) u = Inr ?r" using member by (simp add: Leave_def)
    obtain r1 where r1: "Save R p ((sv_heap w)(p := ?r)) (sv_repo w) = (None, r1)"
      using save_total by (metis prod.collapse)
    have B': "bindings r1 = bindings (sv_repo w)"
      using save_binds [OF r1] B rooms_soundD(1) [OF consistentD(4) [OF c] B] by auto
    have w': "sv_sessions w' = (sv_sessions w)(sid := None)"
        "sv_lookup w' = (sv_lookup w)(lookupKey i u := None)"
        "sv_heap w' = (sv_heap w)(p := ?r)" "sv_next w' = sv_next w" "sv_repo w' = r1"
      using L \<open>sv_lookup w (lookupKey i u) = Some sid\<close> s(1) find_bound [OF B] lv r1
      by (auto simp: LeaveRoom_def Let_def frame_simps)
    show ?thesis
    proof (rule consistentI)
      show "svc_registered w'"
        unfolding w'(1,2) using consistentD(1) [OF c] \<open>sv_lookup w (lookupKey i u) = Some sid\<close>
        by (rule registered_remove)
      show "finite (dom (sv_lookup w'))" using consistentD(2) [OF c] by (simp add: w')
      show "sessions_indexed (sv_sessions w') (sv_lookup w')"
        unfolding w' s(2) using sx s(1) by (rule sessions_indexed_remove)
      show "rooms_sound (bindings (sv_repo w')) (sv_heap w') (sv_next w')"
        unfolding w' B' using consistentD(4) [OF c] B rooms_soundD [OF consistentD(4) [OF c] B]
        by (intro rooms_sound_upd room_ok_Leave [OF _ lv]) simp_all
      show "members_match (bindings (sv_repo w')) (sv_heap w') (sv_lookup w')"
        unfolding w' B' using consistentD(5) [OF c] B consistentD(4) [OF c]
        by (rule members_match_remove) simp
      show "hosted (bindings (sv_repo w')) (sv_sessions w')"
        unfolding w' B' using consistentD(6) [OF c] by (auto simp: hosted_def)
    qed
  qed
qed

text \<open>What a deletion does, room by room and key by key.\<close>

lemma DeleteRoom_effect:
  assumes B: "bindings (sv_repo w) i = Some p"
    and ord: "enumerates (ev_ord_lookup E (sv_lookup w)) (sv_lookup w)"
    and D: "DeleteRoom R P E i w = (x, w')"
  shows "x = None \<and> bindings (sv_repo w') = (bindings (sv_repo w))(i := None)
    \<and> sv_heap w' = (sv_heap w)(p := Close (sv_heap w p)) \<and> sv_next w' = sv_next w
    \<and> sv_lookup w' = map_delete (\<lambda>k _. strict_prefix_match (i @ '':'') k) (sv_lookup w)
    \<and> sv_sessions w' = (\<lambda>sid. if \<exists>k. strict_prefix_match (i @ '':'') k \<and> sv_lookup w k = Some sid
                              then None else sv_sessions w sid)
    \<and> sv_pipelines w' = (sv_pipelines w)(i := None) \<and> sv_graceTimers w' = sv_graceTimers w
    \<and> sv_outbox w' = sv_outbox w \<and> sv_cfg w' = sv_cfg w \<and> sv_spawned w' = sv_spawned w
    \<and> sv_events w' = sv_events w"
proof -
  have mem: "sv_lookup w k = Some sid \<Longrightarrow> k \<in> set (ev_ord_lookup E (sv_lookup w))" for k sid
    by (rule enumerates_mem [OF ord])
  have del: "fst (Delete R i r) = None \<and> bindings (snd (Delete R i r)) = (bindings r)(i := None)" for r
    using del_eq [of i r "fst (Delete R i r)" "snd (Delete R i r)"] by simp
  have L: "(\<lambda>k. if k \<in> set (ev_ord_lookup E (sv_lookup w)) \<and> strict_prefix_match (i @ '':'') k
                then None else sv_lookup w k)
       = map_delete (\<lambda>k _. strict_prefix_match (i @ '':'') k) (sv_lookup w)"
    using mem by (auto simp: map_delete_def fun_eq_iff split: option.splits)
  have S: "(\<lambda>sid. if \<exists>k \<in> set (ev_ord_lookup E (sv_lookup w)).
                 strict_prefix_match (i @ '':'') k \<and> sv_lookup w k = Some sid
                then None else sv_sessions w sid)
       = (\<lambda>sid. if \<exists>k. strict_prefix_match (i @ '':'') k \<and> sv_lookup w k = Some sid
                then None else sv_sessions w sid)"
    using mem by (auto simp: fun_eq_iff)
  show ?thesis
    using D find_bound [OF B] del [of "sv_repo w"]
    by (auto simp: DeleteRoom_def Let_def frame_simps dropLoop_lookup dropLoop_sessions L S
        cong: if_cong split: prod.splits option.splits)
qed

lemma DeleteRoom_absent:
  assumes "bindings (sv_repo w) i = None"
  shows "\<exists>e. DeleteRoom R P E i w = (Some e, w) \<and> errors_Is e ErrRoomNotFound"
  using find_unbound [OF assms, of "sv_heap w"] by (auto simp: DeleteRoom_def)

lemma consistent_DeleteRoom:
  assumes c: "consistent (bindings (sv_repo w)) w"
    and ord: "enumerates (ev_ord_lookup E (sv_lookup w)) (sv_lookup w)"
    and D: "DeleteRoom R P E i w = (x, w')"
  shows "consistent (bindings (sv_repo w')) w'"
proof (cases "bindings (sv_repo w) i")
  case None
  then show ?thesis using c D DeleteRoom_absent [OF None, of P E] by auto
next
  case (Some p)
  note eff = DeleteRoom_effect [OF Some ord D] and rs = consistentD(4) [OF c]
  note i = rooms_soundD(3) [OF rs Some]
  have reg: "svc_registered w'"
    using registered_DeleteRoom [OF consistentD(1) [OF c], of R P E i] D by simp
  have fin: "finite (dom (sv_lookup w'))"
    using consistentD(2) [OF c] eff by (auto elim!: rev_finite_subset)
  have key: "strict_prefix_match (i @ '':'') (keyOf s) \<longleftrightarrow> se_RoomID s = i \<and> se_UserID s \<noteq> []"
    if "sv_sessions w sid = Some s" for sid s
    using prefix_of_lookupKey [OF i sessions_indexedD(3) [OF consistentD(3) [OF c] that]] by auto
  have si: "sessions_indexed (sv_sessions w') (sv_lookup w')"
    using eff consistentD(3) [OF c] by (auto simp: sessions_indexed_def split: if_splits)
  have rs': "rooms_sound (bindings (sv_repo w')) (sv_heap w') (sv_next w')"
    using eff rs rooms_sound_inj [OF rs Some] by (auto simp: rooms_sound_def)
  have mm: "members_match (bindings (sv_repo w')) (sv_heap w') (sv_lookup w')"
    unfolding members_match_def
  proof (intro allI impI)
    fix j q u
    assume "bindings (sv_repo w') j = Some q"
    with eff have j: "j \<noteq> i" "bindings (sv_repo w) j = Some q" by (auto split: if_splits)
    with rooms_sound_inj [OF rs Some] have "q \<noteq> p" by blast
    moreover have "\<not> strict_prefix_match (i @ '':'') (lookupKey j u)"
      using prefix_of_lookupKey [OF i rooms_soundD(3) [OF rs j(2)]] j(1) by simp
    ultimately show "u \<in> rm_Participants (sv_heap w' q) \<longleftrightarrow> sv_lookup w' (lookupKey j u) \<noteq> None"
      using eff members_matchD [OF consistentD(5) [OF c] j(2), of u]
      by (auto simp: map_delete_None split: option.splits)
  qed
  have ho: "hosted (bindings (sv_repo w')) (sv_sessions w')"
    using eff consistentD(6) [OF c] key sessions_indexedD(2) [OF consistentD(3) [OF c]]
    by (auto simp: hosted_def split: if_splits) blast
  show ?thesis using reg fin si rs' mm ho by (rule consistentI)
qed

lemma consistent_sweepLoop:
  assumes "consistent (bindings (sv_repo w)) w" and E: "env_ok E"
  shows "consistent (bindings (sv_repo (sweepLoop R P E ps w))) (sweepLoop R P E ps w)"
  using assms(1)
proof (induction ps arbitrary: w)
  case Nil
  then show ?case by simp
next
  case (Cons p ps)
  have "enumerates (ev_ord_lookup E (sv_lookup w)) (sv_lookup w)"
    using E consistentD(2) [OF Cons.prems] by (simp add: env_ok_def)
  from consistent_DeleteRoom [OF Cons.prems this] show ?case
    using Cons.IH by (metis prod.collapse sweepLoop.simps(2))
qed

lemma consistent_sweep:
  assumes "consistent (bindings (sv_repo w)) w" and "env_ok E"
  shows "consistent (bindings (sv_repo (sweepExpiredRooms R P E w))) (sweepExpiredRooms R P E w)"
  using consistent_sweepLoop [OF assms] assms(1)
  by (auto simp: sweepExpiredRooms_def split: sum.splits)

lemma consistent_graceTimerFires:
  assumes c: "consistent (bindings (sv_repo w)) w" and E: "env_ok E"
  shows "consistent (bindings (sv_repo (graceTimerFires R P E sid t w))) (graceTimerFires R P E sid t w)"
proof -
  define w1 where "w1 = w\<lparr>sv_graceTimers := (sv_graceTimers w)(sid := None),
     sv_events := sv_events w @ [SessionEnd sid (gt_roomID t) (se_UserID (gt_sess t))
                       (duration_sec E (gt_sess t)) ''timeout'']\<rparr>"
  have c1: "consistent (bindings (sv_repo w1)) w1" using c by (simp add: w1_def consistent_def)
  have "enumerates (ev_ord_lookup E (sv_lookup w1)) (sv_lookup w1)"
    using E consistentD(2) [OF c1] by (simp add: env_ok_def)
  from consistent_DeleteRoom [OF c1 this]
  have "consistent (bindings (sv_repo (snd (DeleteRoom R P E (gt_roomID t) w1))))
      (snd (DeleteRoom R P E (gt_roomID t) w1))" by (metis prod.collapse)
  then show ?thesis
    by (simp add: graceTimerFires_def Let_def w1_def [symmetric] consistent_def frame_simps)
qed

lemma consistent_OnDisconnect:
  "consistent (bindings (sv_repo w)) w \<Longrightarrow>
     consistent (bindings (sv_repo (OnDisconnect E sid w))) (OnDisconnect E sid w)"
  by (auto simp: OnDisconnect_def consistent_def split: option.splits)

lemma consistent_handleJoin:
  assumes c: "consistent (bindings (sv_repo w)) w" and fresh: "sv_sessions w (ev_uuid E) = None"
    and H: "handleJoin R P E m w = (x, w')"
  shows "consistent (bindings (sv_repo w')) w'"
proof (cases "JoinRoom R P E (msg_RoomID m) (msg_UserID m) (msg_Lang m) w")
  case (Pair y w1)
  have c1: "consistent (bindings (sv_repo w1)) w1" by (rule consistent_JoinRoom [OF c fresh Pair])
  have named: "consistent (bindings (sv_repo w1))
      (w1\<lparr>sv_sessions := (sv_sessions w1)(sid \<mapsto> s\<lparr>se_Name := n\<rparr>)\<rparr>)"
    if "sv_sessions w1 sid = Some s" for sid s n
    using c1 that unfolding consistent_def
    by (auto intro: registered_update sessions_indexed_update hosted_update)
  show ?thesis
    using H Pair c1 named
    by (auto simp: handleJoin_def Let_def consistent_def frame_simps split: sum.splits option.splits if_splits)
qed

lemma consistent_HandleSignaling:
  assumes c: "consistent (bindings (sv_repo w)) w" and fresh: "sv_sessions w (ev_uuid E) = None"
    and H: "HandleSignaling R P E m w = (x, w')"
  shows "consistent (bindings (sv_repo w')) w'"
proof -
  have offer: "handleOffer P m w = (y, v) \<Longrightarrow> consistent (bindings (sv_repo v)) v" for y v
    using c handleOffer_frame [of P m w] by (simp add: consistent_def)
  show ?thesis
    using H c offer consistent_handleJoin [OF c fresh] consistent_LeaveRoom [OF c]
    by (auto simp: HandleSignaling_def consistent_def [of "bindings (sv_repo w)" "w\<lparr>sv_peer := _\<rparr>"]
          consistentD split: if_splits prod.splits option.splits go_result.splits)
qed

end

end
