(* ===== verification/Latency.thy ===== *)
theory Latency
  imports Prelude
begin

section \<open>The latency tracker: internal/app/roomsvc/latency.go\<close>

text \<open>
  \<open>LatencyTracker\<close> with its in-flight chunk.  The pool only recycles memory (a chunk taken from it
  is overwritten before use), so a chunk is a value.  \<open>Emit\<close> copies the stage timings into an array
  of five slots: a sixth timing is an index out of range, a panic.
\<close>

abbreviation StageCapture :: string where "StageCapture \<equiv> ''capture''"
abbreviation StageDecode :: string where "StageDecode \<equiv> ''decode''"
abbreviation StageTranslate :: string where "StageTranslate \<equiv> ''translate''"
abbreviation StageEncode :: string where "StageEncode \<equiv> ''encode''"
abbreviation StageSend :: string where "StageSend \<equiv> ''send''"

record stage_timing =
  st_Stage :: string
  st_StartAt :: time
  st_EndAt :: "time option"
  st_Duration :: time

text \<open>The chunk ID is kept as the number whose decimal rendering the code stores.\<close>

record chunk_latency =
  cl_ChunkID :: int
  cl_StageTimings :: "stage_timing list"
  cl_Total :: time

record tracker =
  lt_current :: "chunk_latency option"
  lt_chunkID :: int

definition NewLatencyTracker :: tracker where
  "NewLatencyTracker = \<lparr>lt_current = None, lt_chunkID = 0\<rparr>"

definition StartStage :: "string \<Rightarrow> time \<Rightarrow> tracker \<Rightarrow> tracker" where
  "StartStage stage now lt =
     (case lt_current lt of
        None \<Rightarrow> lt
      | Some cl \<Rightarrow> lt\<lparr>lt_current := Some (cl\<lparr>cl_StageTimings := cl_StageTimings cl @
            [\<lparr>st_Stage = stage, st_StartAt = now, st_EndAt = None, st_Duration = 0\<rparr>]\<rparr>)\<rparr>)"

text \<open>The loop of \<open>EndStage\<close> from the last entry down, on the reversed list.\<close>

fun closeFirst :: "string \<Rightarrow> time \<Rightarrow> stage_timing list \<Rightarrow> stage_timing list" where
  "closeFirst stage now [] = []"
| "closeFirst stage now (st # sts) =
     (if st_Stage st = stage \<and> st_EndAt st = None
      then st\<lparr>st_EndAt := Some now, st_Duration := now - st_StartAt st\<rparr> # sts
      else st # closeFirst stage now sts)"

definition EndStage :: "string \<Rightarrow> time \<Rightarrow> tracker \<Rightarrow> tracker" where
  "EndStage stage now lt =
     (case lt_current lt of
        None \<Rightarrow> lt
      | Some cl \<Rightarrow> lt\<lparr>lt_current := Some (cl\<lparr>cl_StageTimings :=
            rev (closeFirst stage now (rev (cl_StageTimings cl)))\<rparr>)\<rparr>)"

definition stageMsKey :: "string \<Rightarrow> string" where
  "stageMsKey stage =
     (if stage = StageCapture then ''capture_ms''
      else if stage = StageDecode then ''decode_ms''
      else if stage = StageTranslate then ''translate_ms''
      else if stage = StageEncode then ''encode_ms''
      else if stage = StageSend then ''send_ms''
      else stage @ ''_ms'')"

text \<open>\<open>d.Milliseconds()\<close> truncates towards zero.\<close>

definition Milliseconds :: "time \<Rightarrow> int" where
  "Milliseconds d = sgn d * (\<bar>d\<bar> div millisecond)"

record chunk_log =
  lg_room_id :: string
  lg_half :: string
  lg_chunk_id :: int
  lg_status :: string
  lg_total_ms :: int
  lg_stages :: "(string \<times> int) list"

datatype emit_result = NoChunk | Logged chunk_log | IndexPanic

definition totalDuration :: "stage_timing list \<Rightarrow> time" where
  "totalDuration sts = sum_list (map st_Duration sts)"

definition maxStages :: nat where
  "maxStages = 5"

definition Emit :: "string \<Rightarrow> string \<Rightarrow> string \<Rightarrow> tracker \<Rightarrow> emit_result \<times> tracker" where
  "Emit half roomID status lt =
     (case lt_current lt of
        None \<Rightarrow> (NoChunk, lt)
      | Some cl \<Rightarrow>
          (if length (cl_StageTimings cl) > maxStages then IndexPanic
           else Logged \<lparr>lg_room_id = roomID, lg_half = half, lg_chunk_id = cl_ChunkID cl,
                        lg_status = status,
                        lg_total_ms = Milliseconds (totalDuration (cl_StageTimings cl)),
                        lg_stages = map (\<lambda>st. (stageMsKey (st_Stage st), Milliseconds (st_Duration st)))
                                      (cl_StageTimings cl)\<rparr>,
           lt\<lparr>lt_current := None\<rparr>))"

definition Reset :: "tracker \<Rightarrow> tracker" where
  "Reset lt = lt\<lparr>lt_chunkID := lt_chunkID lt + 1,
     lt_current := Some \<lparr>cl_ChunkID = lt_chunkID lt + 1, cl_StageTimings = [], cl_Total = 0\<rparr>\<rparr>"

subsection \<open>Timings of a chunk\<close>

definition timings :: "tracker \<Rightarrow> stage_timing list" where
  "timings lt = (case lt_current lt of None \<Rightarrow> [] | Some cl \<Rightarrow> cl_StageTimings cl)"

lemma closeFirst_stages [simp]: "map st_Stage (closeFirst s t xs) = map st_Stage xs"
  by (induction xs) auto

lemma length_closeFirst [simp]: "length (closeFirst s t xs) = length xs"
  by (induction xs) auto

lemma timings_Reset [simp]: "timings (Reset lt) = []"
  by (simp add: timings_def Reset_def)

lemma timings_Start:
  "map st_Stage (timings (StartStage s t lt)) =
     (if lt_current lt = None then [] else map st_Stage (timings lt) @ [s])"
  by (auto simp: timings_def StartStage_def split: option.splits)

lemma map_close_rev: "map st_Stage (rev (closeFirst s t (rev xs))) = map st_Stage xs"
  by (metis closeFirst_stages rev_map rev_rev_ident)

lemma timings_End [simp]: "map st_Stage (timings (EndStage s t lt)) = map st_Stage (timings lt)"
  by (auto simp: timings_def EndStage_def map_close_rev split: option.splits)

lemma timings_Emit [simp]: "timings (snd (Emit h r s lt)) = []"
  by (auto simp: timings_def Emit_def split: option.splits)

lemma Emit_panics_iff: "fst (Emit h r s lt) = IndexPanic \<longleftrightarrow> length (timings lt) > maxStages"
  by (auto simp: timings_def Emit_def split: option.splits)

text \<open>With a clock that does not run backwards, every duration is the closed interval's length.\<close>

definition timing_ok :: "time \<Rightarrow> stage_timing \<Rightarrow> bool" where
  "timing_ok now st \<longleftrightarrow> st_StartAt st \<le> now \<and>
     (case st_EndAt st of None \<Rightarrow> st_Duration st = 0
      | Some e \<Rightarrow> st_StartAt st \<le> e \<and> e \<le> now \<and> st_Duration st = e - st_StartAt st)"

definition tracker_ok :: "time \<Rightarrow> tracker \<Rightarrow> bool" where
  "tracker_ok now lt \<longleftrightarrow> (\<forall>st \<in> set (timings lt). timing_ok now st)"

lemma timing_ok_mono: "timing_ok t st \<Longrightarrow> t \<le> t' \<Longrightarrow> timing_ok t' st"
  by (auto simp: timing_ok_def split: option.splits)

lemma timing_ok_close:
  "timing_ok t st \<Longrightarrow> timing_ok t (st\<lparr>st_EndAt := Some t, st_Duration := t - st_StartAt st\<rparr>)"
  by (simp add: timing_ok_def)

lemma closeFirst_ok:
  "\<forall>st \<in> set xs. timing_ok t st \<Longrightarrow> \<forall>st \<in> set (closeFirst s t xs). timing_ok t st"
  by (induction xs) (simp_all add: timing_ok_close)

lemma timings_StartStage:
  "timings (StartStage s t lt) = (if lt_current lt = None then []
     else timings lt @ [\<lparr>st_Stage = s, st_StartAt = t, st_EndAt = None, st_Duration = 0\<rparr>])"
  by (auto simp: timings_def StartStage_def split: option.splits)

lemma timings_EndStage: "timings (EndStage s t lt) = rev (closeFirst s t (rev (timings lt)))"
  by (auto simp: timings_def EndStage_def split: option.splits)

lemma tracker_ok_mono: "tracker_ok t lt \<Longrightarrow> t \<le> t' \<Longrightarrow> tracker_ok t' lt"
  by (auto simp: tracker_ok_def intro: timing_ok_mono)

lemma tracker_ok_Start [inv_intros]: "tracker_ok t lt \<Longrightarrow> tracker_ok t (StartStage s t lt)"
  by (auto simp: tracker_ok_def timings_StartStage timing_ok_def)

lemma tracker_ok_End [inv_intros]: "tracker_ok t lt \<Longrightarrow> tracker_ok t (EndStage s t lt)"
  using closeFirst_ok [of "rev (timings lt)" t s]
  by (simp add: tracker_ok_def timings_EndStage)

lemma tracker_ok_Reset [inv_intros]: "tracker_ok t (Reset lt)"
  by (simp add: tracker_ok_def)

lemma tracker_ok_Emit [inv_intros]: "tracker_ok t (snd (Emit h r s lt))"
  by (simp add: tracker_ok_def)

lemma timing_ok_nonneg: "timing_ok t st \<Longrightarrow> 0 \<le> st_Duration st"
  by (auto simp: timing_ok_def split: option.splits)

subsection \<open>Rounding\<close>

lemma Milliseconds_nonneg: "0 \<le> d \<Longrightarrow> Milliseconds d = d div millisecond"
  by (cases "d = 0") (auto simp: Milliseconds_def)

text \<open>Truncating stage by stage loses less than one millisecond per stage.\<close>

lemma sum_div_bounds:
  fixes ds :: "int list"
  assumes "0 < c" and "\<forall>d \<in> set ds. 0 \<le> d"
  shows "(\<Sum>d\<leftarrow>ds. d div c) \<le> sum_list ds div c
       \<and> sum_list ds div c \<le> (\<Sum>d\<leftarrow>ds. d div c) + int (length ds)"
  using assms(2)
proof (induction ds)
  case Nil
  then show ?case by simp
next
  case (Cons d ds)
  have split_div: "(d + sum_list ds) div c =
      d div c + sum_list ds div c + (d mod c + sum_list ds mod c) div c"
    by (rule div_add1_eq)
  have m: "0 \<le> d mod c" "d mod c < c" "0 \<le> sum_list ds mod c" "sum_list ds mod c < c"
    using assms(1) by simp_all
  have "d mod c + sum_list ds mod c \<le> c - 1 + 1 * c" using m by linarith
  then have "(d mod c + sum_list ds mod c) div c \<le> (c - 1 + 1 * c) div c"
    using assms(1) by (rule zdiv_mono1)
  also have "\<dots> = 1" using assms(1) by (subst div_mult_self1) (simp_all add: div_pos_pos_trivial)
  finally have "(d mod c + sum_list ds mod c) div c \<le> 1" .
  moreover have "0 \<le> (d mod c + sum_list ds mod c) div c"
    using m assms(1) by (simp add: pos_imp_zdiv_nonneg_iff)
  ultimately show ?case using split_div Cons by simp
qed

text \<open>
  With a clock that does not run backwards, the logged total of a chunk, in whole milliseconds, is
  at least the sum of the logged stage times and exceeds it by at most one millisecond per stage.
\<close>

theorem total_is_close_to_the_stages:
  assumes "tracker_ok now lt" and "fst (Emit half roomID status lt) = Logged lg"
  shows "sum_list (map snd (lg_stages lg)) \<le> lg_total_ms lg
    \<and> lg_total_ms lg \<le> sum_list (map snd (lg_stages lg)) + int (length (lg_stages lg))
    \<and> length (lg_stages lg) \<le> 5 \<and> lg_status lg = status"
proof -
  define ds where "ds = map st_Duration (timings lt)"
  have nn: "\<forall>d \<in> set ds. 0 \<le> d"
    using assms(1) by (auto simp: ds_def tracker_ok_def timing_ok_nonneg)
  have lg: "lg_total_ms lg = Milliseconds (sum_list ds)" "map snd (lg_stages lg) = map Milliseconds ds"
    "length (lg_stages lg) = length ds" "length ds \<le> 5" "lg_status lg = status"
    using assms(2)
    by (auto simp: ds_def Emit_def timings_def totalDuration_def maxStages_def split: option.splits if_splits)
  have "sum_list (map Milliseconds ds) = (\<Sum>d\<leftarrow>ds. d div millisecond)"
    by (rule arg_cong [where f = sum_list], rule map_cong) (use nn Milliseconds_nonneg in auto)
  moreover have "Milliseconds (sum_list ds) = sum_list ds div millisecond"
    using nn by (intro Milliseconds_nonneg sum_list_nonneg) blast
  moreover have "(\<Sum>d\<leftarrow>ds. d div millisecond) \<le> sum_list ds div millisecond
      \<and> sum_list ds div millisecond \<le> (\<Sum>d\<leftarrow>ds. d div millisecond) + int (length ds)"
    by (rule sum_div_bounds [OF _ nn]) simp
  ultimately show ?thesis using lg by simp
qed

theorem total_is_close_to_the_stages_witness:
  "\<exists>lg. fst (Emit ''AtoB'' ''r'' ''ok'' (EndStage ''send'' 2500000 (StartStage ''send'' 0 (Reset NewLatencyTracker)))) = Logged lg
     \<and> lg_total_ms lg \<le> sum_list (map snd (lg_stages lg)) + 1"
proof -
  let ?lt = "EndStage ''send'' 2500000 (StartStage ''send'' 0 (Reset NewLatencyTracker))"
  have ok: "tracker_ok 2500000 ?lt"
    by (intro tracker_ok_End tracker_ok_mono [OF tracker_ok_Start [OF tracker_ok_Reset]]) simp
  obtain lg where lg: "fst (Emit ''AtoB'' ''r'' ''ok'' ?lt) = Logged lg" "length (lg_stages lg) = 1"
    by (simp add: Emit_def EndStage_def StartStage_def Reset_def maxStages_def)
  from total_is_close_to_the_stages [OF ok lg(1)] lg show ?thesis by auto
qed

end
