(* ===== verification/Channel.thy ===== *)
theory Channel
  imports Prelude "HOL-Library.Sublist"
begin

section \<open>Buffered channels and drainOldest: internal/app/roomsvc/pipeline.go\<close>

text \<open>
  A buffered Go channel with the two non-blocking operations \<open>select \<dots> default\<close> makes of it, and
  \<open>drainOldest\<close>, the back-pressure rule of the pipeline: the newest frame replaces the oldest when
  the buffer is full.  The second half interleaves the three selects of \<open>drainOldest\<close> with a
  consumer that may receive at any moment.
\<close>

record 'a chan =
  ch_cap :: nat
  ch_buf :: "'a list"

definition make_chan :: "nat \<Rightarrow> 'a chan" where
  "make_chan n = \<lparr>ch_cap = n, ch_buf = []\<rparr>"

text \<open>A select with the case \<open>ch <- v\<close> and a default.\<close>

definition trySend :: "'a \<Rightarrow> 'a chan \<Rightarrow> bool \<times> 'a chan" where
  "trySend v c =
     (if length (ch_buf c) < ch_cap c then (True, c\<lparr>ch_buf := ch_buf c @ [v]\<rparr>) else (False, c))"

text \<open>A select with a receive from \<open>ch\<close> and a default.\<close>

definition tryRecv :: "'a chan \<Rightarrow> 'a option \<times> 'a chan" where
  "tryRecv c = (case ch_buf c of [] \<Rightarrow> (None, c) | x # xs \<Rightarrow> (Some x, c\<lparr>ch_buf := xs\<rparr>))"

definition drainOldest :: "'a chan \<Rightarrow> 'a \<Rightarrow> 'a chan" where
  "drainOldest c v =
     (case trySend v c of
        (True, c1) \<Rightarrow> c1
      | (False, c1) \<Rightarrow> snd (trySend v (snd (tryRecv c1))))"

lemma drainOldest_room:
  "length (ch_buf c) < ch_cap c \<Longrightarrow> ch_buf (drainOldest c v) = ch_buf c @ [v]"
  by (simp add: drainOldest_def trySend_def)

lemma drainOldest_full:
  "length (ch_buf c) = ch_cap c \<Longrightarrow> 0 < ch_cap c \<Longrightarrow>
     ch_buf (drainOldest c v) = tl (ch_buf c) @ [v]"
  by (cases "ch_buf c") (auto simp: drainOldest_def trySend_def tryRecv_def)

lemma drainOldest_unbuffered: "ch_cap c = 0 \<Longrightarrow> ch_buf c = [] \<Longrightarrow> drainOldest c v = c"
  by (simp add: drainOldest_def trySend_def tryRecv_def)

lemma drainOldest_cap [simp]: "ch_cap (drainOldest c v) = ch_cap c"
  by (auto simp: drainOldest_def trySend_def tryRecv_def split: list.splits)

subsection \<open>One producer calling drainOldest, one consumer, any interleaving\<close>

text \<open>Where the producer stands: between calls, or before the second or third select.\<close>

datatype 'a producer_pc = Idle | BeforeDrop 'a | BeforeResend 'a

record 'a bp_state =
  bp_chan :: "'a chan"
  bp_pc :: "'a producer_pc"
  bp_produced :: "'a list"
  bp_received :: "'a list"

definition bp_init :: "nat \<Rightarrow> 'a bp_state" where
  "bp_init n = \<lparr>bp_chan = make_chan n, bp_pc = Idle, bp_produced = [], bp_received = []\<rparr>"

inductive bp_step :: "'a bp_state \<Rightarrow> 'a bp_state \<Rightarrow> bool" where
  call: "bp_pc s = Idle \<Longrightarrow> trySend v (bp_chan s) = (ok, c) \<Longrightarrow>
     bp_step s (s\<lparr>bp_chan := c, bp_produced := bp_produced s @ [v],
                  bp_pc := (if ok then Idle else BeforeDrop v)\<rparr>)"
| drop_one: "bp_pc s = BeforeDrop v \<Longrightarrow>
     bp_step s (s\<lparr>bp_chan := snd (tryRecv (bp_chan s)), bp_pc := BeforeResend v\<rparr>)"
| resend: "bp_pc s = BeforeResend v \<Longrightarrow>
     bp_step s (s\<lparr>bp_chan := snd (trySend v (bp_chan s)), bp_pc := Idle\<rparr>)"
| consume: "tryRecv (bp_chan s) = (Some x, c) \<Longrightarrow>
     bp_step s (s\<lparr>bp_chan := c, bp_received := bp_received s @ [x]\<rparr>)"

inductive_cases bp_stepE: "bp_step s t"

text \<open>The frames that have left for the consumer or still can, in order.\<close>

fun in_flight :: "'a producer_pc \<Rightarrow> 'a list" where
  "in_flight Idle = []"
| "in_flight (BeforeDrop v) = [v]"
| "in_flight (BeforeResend v) = [v]"

definition alive :: "'a bp_state \<Rightarrow> 'a list" where
  "alive s = bp_received s @ ch_buf (bp_chan s) @ in_flight (bp_pc s)"

definition bp_inv :: "nat \<Rightarrow> 'a bp_state \<Rightarrow> bool" where
  "bp_inv n s \<longleftrightarrow> ch_cap (bp_chan s) = n \<and> length (ch_buf (bp_chan s)) \<le> n
     \<and> (case bp_pc s of BeforeResend _ \<Rightarrow> length (ch_buf (bp_chan s)) < n | _ \<Rightarrow> True)
     \<and> subseq (alive s) (bp_produced s)
     \<and> (bp_produced s \<noteq> [] \<longrightarrow> alive s \<noteq> [] \<and> last (alive s) = last (bp_produced s))"

lemma subseq_drop_middle: "subseq (xs @ y # zs) ws \<Longrightarrow> subseq (xs @ zs) ws"
  by (meson subseq_Cons' subseq_append_iff subseq_order.order_refl subseq_order.trans list_emb_append_mono)

lemma bp_inv_init: "bp_inv n (bp_init n)"
  by (simp add: bp_inv_def bp_init_def make_chan_def alive_def)

lemma bp_inv_call:
  assumes "bp_inv n s" and "bp_pc s = Idle" and "trySend v (bp_chan s) = (ok, c)"
  shows "bp_inv n (s\<lparr>bp_chan := c, bp_produced := bp_produced s @ [v],
                     bp_pc := (if ok then Idle else BeforeDrop v)\<rparr>)"
  using assms
  by (auto simp: bp_inv_def alive_def trySend_def subseq_append_iff split: if_splits)
     (metis append_assoc list_emb_append_mono subseq_order.order_refl)+

lemma bp_inv_drop:
  assumes "bp_inv n s" and "bp_pc s = BeforeDrop v" and "0 < n"
  shows "bp_inv n (s\<lparr>bp_chan := snd (tryRecv (bp_chan s)), bp_pc := BeforeResend v\<rparr>)"
  using assms
  by (auto simp: bp_inv_def alive_def tryRecv_def dest: subseq_drop_middle split: list.splits)

lemma bp_inv_resend:
  assumes "bp_inv n s" and "bp_pc s = BeforeResend v"
  shows "bp_inv n (s\<lparr>bp_chan := snd (trySend v (bp_chan s)), bp_pc := Idle\<rparr>)"
  using assms by (auto simp: bp_inv_def alive_def trySend_def)

lemma bp_inv_consume:
  assumes "bp_inv n s" and "tryRecv (bp_chan s) = (Some x, c)"
  shows "bp_inv n (s\<lparr>bp_chan := c, bp_received := bp_received s @ [x]\<rparr>)"
  using assms
  by (auto simp: bp_inv_def alive_def tryRecv_def split: list.splits producer_pc.splits)

lemma bp_step_inv: "bp_step s t \<Longrightarrow> bp_inv n s \<Longrightarrow> 0 < n \<Longrightarrow> bp_inv n t"
  by (erule bp_stepE) (simp_all add: bp_inv_call bp_inv_drop bp_inv_resend bp_inv_consume)

lemma bp_reach_inv:
  "bp_step\<^sup>*\<^sup>* (bp_init n) s \<Longrightarrow> 0 < n \<Longrightarrow> bp_inv n s"
  by (induction rule: rtranclp_induct) (auto intro: bp_inv_init bp_step_inv)

text \<open>
  C38: with one producer calling \<open>drainOldest\<close> on a buffer of at least one frame and a consumer that
  receives at any moment, also between the three selects: frames are only dropped, never reordered
  or duplicated, the buffer never holds more than its capacity, and the newest frame is never
  lost: it has been received, is in the buffer or is about to be sent.
\<close>

theorem newest_frame_survives:
  assumes "bp_step\<^sup>*\<^sup>* (bp_init n) s" and "0 < n"
  shows "length (ch_buf (bp_chan s)) \<le> n \<and> subseq (bp_received s) (bp_produced s)
    \<and> (bp_produced s = [] \<or>
       last (bp_received s @ ch_buf (bp_chan s) @ in_flight (bp_pc s)) = last (bp_produced s))"
proof -
  have "subseq (bp_received s) (alive s)" by (simp add: alive_def prefix_imp_subseq)
  then show ?thesis
    using bp_reach_inv [OF assms] subseq_order.trans by (auto simp: bp_inv_def alive_def)
qed

theorem newest_frame_survives_witness:
  "last (ch_buf (drainOldest (drainOldest (make_chan 1) (1 :: nat)) 2)) = 2"
proof -
  define st :: "nat list \<Rightarrow> nat producer_pc \<Rightarrow> nat list \<Rightarrow> nat bp_state"
    where "st buf pc made = \<lparr>bp_chan = \<lparr>ch_cap = 1, ch_buf = buf\<rparr>, bp_pc = pc, bp_produced = made, bp_received = []\<rparr>"
      for buf pc made
  have st0: "bp_init 1 = st [] Idle []" by (simp add: st_def bp_init_def make_chan_def)
  have "bp_step (st [] Idle []) (st [1] Idle [1])"
    using bp_step.call [where s = "st [] Idle []" and v = 1 and ok = True and c = "\<lparr>ch_cap = 1, ch_buf = [1]\<rparr>"]
    by (simp add: st_def trySend_def)
  then have r1: "bp_step\<^sup>*\<^sup>* (bp_init 1) (st [1] Idle [1])" unfolding st0 by (rule r_into_rtranclp [of bp_step])
  have "bp_step (st [1] Idle [1]) (st [1] (BeforeDrop 2) [1, 2])"
    using bp_step.call [where s = "st [1] Idle [1]" and v = 2 and ok = False and c = "bp_chan (st [1] Idle [1])"]
    by (simp add: st_def trySend_def)
  with r1 have r2: "bp_step\<^sup>*\<^sup>* (bp_init 1) (st [1] (BeforeDrop 2) [1, 2])"
    by (rule rtranclp.rtrancl_into_rtrancl)
  have "bp_step (st [1] (BeforeDrop 2) [1, 2]) (st [] (BeforeResend 2) [1, 2])"
    using bp_step.drop_one [of "st [1] (BeforeDrop 2) [1, 2]" 2] by (simp add: st_def tryRecv_def)
  with r2 have r3: "bp_step\<^sup>*\<^sup>* (bp_init 1) (st [] (BeforeResend 2) [1, 2])"
    by (rule rtranclp.rtrancl_into_rtrancl)
  have "bp_step (st [] (BeforeResend 2) [1, 2]) (st [2] Idle [1, 2])"
    using bp_step.resend [of "st [] (BeforeResend 2) [1, 2]" 2] by (simp add: st_def trySend_def)
  with r3 have "bp_step\<^sup>*\<^sup>* (bp_init 1) (st [2] Idle [1, 2])" by (rule rtranclp.rtrancl_into_rtrancl)
  from newest_frame_survives [OF this] have "last (ch_buf (bp_chan (st [2] Idle [1, 2]))) = 2"
    by (simp add: st_def)
  moreover have "ch_buf (drainOldest (drainOldest (make_chan 1) (1 :: nat)) 2) = ch_buf (bp_chan (st [2] Idle [1, 2]))"
    by (simp add: st_def drainOldest_def trySend_def tryRecv_def make_chan_def)
  ultimately show ?thesis by simp
qed

end
