(* ===== verification/Pipeline.thy ===== *)
theory Pipeline
  imports Service Latency Channel
begin

section \<open>The translation pipeline: internal/app/roomsvc/pipeline.go\<close>

text \<open>
  One direction of a pipeline (\<open>runHalf\<close>) as the list of actions it performs, in order, given how
  each port call ended; the goroutine that starts a pipeline; the error counter; and the
  interleaving of the half's two goroutines on the shared latency tracker.
\<close>

record pipeline_half =
  ph_sourceSessID :: string
  ph_targetSessID :: string
  ph_sourceLang :: string
  ph_targetLang :: string
  ph_dir :: string

definition halfAtoB :: "session \<Rightarrow> session \<Rightarrow> pipeline_half" where
  "halfAtoB a b = \<lparr>ph_sourceSessID = se_ID a, ph_targetSessID = se_ID b,
     ph_sourceLang = se_Lang a, ph_targetLang = se_Lang b, ph_dir = ''AtoB''\<rparr>"

definition halfBtoA :: "session \<Rightarrow> session \<Rightarrow> pipeline_half" where
  "halfBtoA a b = \<lparr>ph_sourceSessID = se_ID b, ph_targetSessID = se_ID a,
     ph_sourceLang = se_Lang b, ph_targetLang = se_Lang a, ph_dir = ''BtoA''\<rparr>"

subsection \<open>runHalf\<close>

text \<open>How the port calls of one half ended, and the frame count when it was read.\<close>

record half_outcome =
  ho_track :: "gerror option"
  ho_decode :: "gerror option"
  ho_translate :: "gerror option"
  ho_encode :: "gerror option"
  ho_send :: "gerror option"
  ho_frames :: int

datatype half_action =
    TrackStart string
  | TrackEnd string
  | TrackEmit string
  | AddTotalChunks int
  | AddErrorChunks int
  | LogSessionErr string string gerror
  | StartBackpressure
  | ForwardTranscripts string
  | Notify string "(string \<times> string) list"

definition failStage :: "pipeline_half \<Rightarrow> half_outcome \<Rightarrow> half_action list \<Rightarrow> string \<Rightarrow>
    (string \<times> string) list \<Rightarrow> half_action list" where
  "failStage half out logged who flds =
     [AddErrorChunks (ho_frames out), TrackEmit ''error''] @ logged @ [Notify who flds]"

definition codecError :: "string \<Rightarrow> string \<Rightarrow> string \<Rightarrow> (string \<times> string) list" where
  "codecError code message sid = [(''code'', code), (''message'', message), (''session_id'', sid)]"

definition sendStage :: "pipeline_half \<Rightarrow> half_outcome \<Rightarrow> half_action list" where
  "sendStage half out =
     TrackStart StageSend #
     (case ho_send out of
        Some e \<Rightarrow> failStage half out [] (ph_targetSessID half)
                   (codecError ''server'' ''audio send error'' (ph_sourceSessID half))
      | None \<Rightarrow> [TrackEnd StageSend, AddTotalChunks (ho_frames out), TrackEmit ''ok''])"

definition encodeStage :: "pipeline_half \<Rightarrow> half_outcome \<Rightarrow> half_action list" where
  "encodeStage half out =
     TrackStart StageEncode #
     (case ho_encode out of
        Some e \<Rightarrow> failStage half out [LogSessionErr (ph_targetSessID half) StageEncode e]
                   (ph_targetSessID half)
                   (codecError ''codec'' ''audio encoding error'' (ph_sourceSessID half))
      | None \<Rightarrow> TrackEnd StageEncode # sendStage half out)"

definition translateStage :: "pipeline_half \<Rightarrow> half_outcome \<Rightarrow> half_action list" where
  "translateStage half out =
     TrackStart StageTranslate #
     (case ho_translate out of
        Some e \<Rightarrow> failStage half out [LogSessionErr (ph_sourceSessID half) StageTranslate e]
                   (ph_sourceSessID half)
                   (codecError ''translation'' ''translation service error'' (ph_sourceSessID half))
      | None \<Rightarrow> TrackEnd StageTranslate # ForwardTranscripts (ph_targetSessID half)
                  # encodeStage half out)"

definition decodeStage :: "pipeline_half \<Rightarrow> half_outcome \<Rightarrow> half_action list" where
  "decodeStage half out =
     TrackStart StageDecode #
     (case ho_decode out of
        Some e \<Rightarrow> failStage half out [] (ph_sourceSessID half)
                   (codecError ''codec'' ''audio processing error'' (ph_sourceSessID half))
      | None \<Rightarrow> TrackEnd StageDecode # StartBackpressure # translateStage half out)"

definition runHalf :: "pipeline_half \<Rightarrow> half_outcome \<Rightarrow> half_action list" where
  "runHalf half out =
     (case ho_track out of
        Some e \<Rightarrow> [Notify (ph_sourceSessID half)
                    [(''reason'', ''audio track setup failed: '' @ error_text e)]]
      | None \<Rightarrow> decodeStage half out)"

lemmas runHalf_defs = runHalf_def decodeStage_def translateStage_def encodeStage_def
  sendStage_def failStage_def codecError_def

subsection \<open>Effects on the service\<close>

definition logSessionError ::
  "string \<Rightarrow> string \<Rightarrow> gerror \<Rightarrow> ('r, 'p) service \<Rightarrow> ('r, 'p) service" where
  "logSessionError sessionID stage e w =
     (case sv_sessions w sessionID of
        None \<Rightarrow> w
      | Some sess \<Rightarrow>
          (let sess' = sess\<lparr>se_ErrorCount := se_ErrorCount sess + 1\<rparr> in
           w\<lparr>sv_sessions := (sv_sessions w)(sessionID \<mapsto> sess'),
             sv_events := sv_events w @
               [SessionError sessionID (error_text e) (se_ErrorCount sess') stage]\<rparr>))"

text \<open>The goroutine a join spawned: it registers the pipeline under the room's ID.\<close>

definition startPipeline ::
  "room_ptr \<Rightarrow> session \<Rightarrow> session \<Rightarrow> ('r, 'p) service \<Rightarrow> ('r, 'p) service" where
  "startPipeline p sessA sessB w =
     (let i = rm_ID (sv_heap w p) in
      w\<lparr>sv_pipelines := (sv_pipelines w)(i \<mapsto> \<lparr>pl_roomID = i, pl_sessA = sessA, pl_sessB = sessB\<rparr>),
        sv_events := sv_events w @
          [SessionStart (se_ID sessA) (se_UserID sessA) (se_Lang sessA) i,
           SessionStart (se_ID sessB) (se_UserID sessB) (se_Lang sessB) i,
           PipelineStart i (se_ID sessA) (se_ID sessB) (se_Lang sessA) (se_Lang sessB)]\<rparr>)"

text \<open>The actions of a half that reach the service: notifications and counted session errors.\<close>

fun applyAction :: "half_action \<Rightarrow> ('r, 'p) service \<Rightarrow> ('r, 'p) service" where
  "applyAction (Notify sid flds) w = NotifySession sid ''error'' flds w"
| "applyAction (LogSessionErr sid stage e) w = logSessionError sid stage e w"
| "applyAction _ w = w"

text \<open>Forwarding transcripts to the target session (voice output is a separate goroutine).\<close>

definition forwardTranscripts :: "string \<Rightarrow> string list \<Rightarrow> ('r, 'p) service \<Rightarrow> ('r, 'p) service" where
  "forwardTranscripts target texts w =
     fold (\<lambda>text. NotifySession target ''transcript'' [(''text'', text)]) texts w"

text \<open>
  \<open>sendTTSAudio\<close>: synthesize, encode, send; every failure is logged and dropped, so the service
  does not change and only the calls made show.
\<close>

datatype tts_call = SynthesizeCall string string | EncodeCall | SendAudioCall string

definition sendTTSAudio ::
  "gerror option \<Rightarrow> gerror option \<Rightarrow> string \<Rightarrow> string \<Rightarrow> string \<Rightarrow> tts_call list" where
  "sendTTSAudio synth_err encode_err target text lang =
     SynthesizeCall text lang #
     (if synth_err \<noteq> None then []
      else EncodeCall # (if encode_err \<noteq> None then [] else [SendAudioCall target]))"

subsection \<open>The frame callbacks, the half and what they share\<close>

text \<open>
  \<open>runHalf\<close> gives \<open>OnAudioTrack\<close> a function that the peer runs in a goroutine of its own for every remote track of the
  source session, so there may be any number of them at any time.  Each runs \<open>Reset\<close>, \<open>StartStage(capture)\<close>, \<open>EndStage(capture)\<close>
  for a frame and sends it to \<open>opusCh\<close>, or returns if the context is cancelled; when its track ends it closes \<open>opusCh\<close>.
  The half's own goroutine makes the tracker calls of \<open>runHalf\<close>.  They share the tracker, whose methods are atomic (they
  hold its mutex), and the channel: a send on it and another \<open>close\<close> of it panic once it is closed.  A send that finds room, or
  waits for it, is a step that may be taken at any time.
\<close>

datatype callback_pc = AwaitFrame | AfterReset | AfterStart | SendingFrame | CallbackGone

record half_state =
  hs_tracker :: tracker
  hs_callbacks :: "callback_pc list"
  hs_registered :: bool
  hs_opusClosed :: bool
  hs_cancelled :: bool
  hs_todo :: "half_action list"
  hs_emitted :: "emit_result list"
  hs_channelPanic :: bool

definition moved :: "nat \<Rightarrow> callback_pc \<Rightarrow> half_state \<Rightarrow> half_state" where
  "moved k pc s = s\<lparr>hs_callbacks := (hs_callbacks s)[k := pc]\<rparr>"

definition at :: "half_state \<Rightarrow> nat \<Rightarrow> callback_pc \<Rightarrow> bool" where
  "at s k pc \<longleftrightarrow> k < length (hs_callbacks s) \<and> hs_callbacks s ! k = pc"

fun trackAction :: "string \<Rightarrow> string \<Rightarrow> time \<Rightarrow> half_action \<Rightarrow> tracker \<Rightarrow> emit_result list \<times> tracker" where
  "trackAction dir roomID now (TrackStart s) lt = ([], StartStage s now lt)"
| "trackAction dir roomID now (TrackEnd s) lt = ([], EndStage s now lt)"
| "trackAction dir roomID now (TrackEmit st) lt =
     (case Emit dir roomID st lt of (r, lt') \<Rightarrow> ([r], lt'))"
| "trackAction dir roomID now _ lt = ([], lt)"

inductive half_step :: "string \<Rightarrow> string \<Rightarrow> half_state \<Rightarrow> half_state \<Rightarrow> bool" for dir roomID where
  track: "hs_registered s \<Longrightarrow> half_step dir roomID s (s\<lparr>hs_callbacks := hs_callbacks s @ [AwaitFrame]\<rparr>)"
| frame: "at s k AwaitFrame \<Longrightarrow> half_step dir roomID s (moved k AfterReset (s\<lparr>hs_tracker := Reset (hs_tracker s)\<rparr>))"
| capture: "at s k AfterReset \<Longrightarrow>
     half_step dir roomID s (moved k AfterStart (s\<lparr>hs_tracker := StartStage StageCapture now (hs_tracker s)\<rparr>))"
| captured: "at s k AfterStart \<Longrightarrow>
     half_step dir roomID s (moved k SendingFrame (s\<lparr>hs_tracker := EndStage StageCapture now (hs_tracker s)\<rparr>))"
| frame_sent: "at s k SendingFrame \<Longrightarrow> \<not> hs_opusClosed s \<Longrightarrow> half_step dir roomID s (moved k AwaitFrame s)"
| send_panics: "at s k SendingFrame \<Longrightarrow> hs_opusClosed s \<Longrightarrow> half_step dir roomID s (s\<lparr>hs_channelPanic := True\<rparr>)"
| given_up: "at s k SendingFrame \<Longrightarrow> hs_cancelled s \<Longrightarrow> half_step dir roomID s (moved k CallbackGone s)"
| track_ends: "at s k AwaitFrame \<Longrightarrow> \<not> hs_opusClosed s \<Longrightarrow>
     half_step dir roomID s (moved k CallbackGone (s\<lparr>hs_opusClosed := True\<rparr>))"
| close_panics: "at s k AwaitFrame \<Longrightarrow> hs_opusClosed s \<Longrightarrow> half_step dir roomID s (s\<lparr>hs_channelPanic := True\<rparr>)"
| cancelled: "half_step dir roomID s (s\<lparr>hs_cancelled := True\<rparr>)"
| main: "hs_todo s = a # todo \<Longrightarrow> trackAction dir roomID now a (hs_tracker s) = (out, lt) \<Longrightarrow>
     half_step dir roomID s
       (s\<lparr>hs_tracker := lt, hs_todo := todo, hs_emitted := hs_emitted s @ out\<rparr>)"

inductive_cases half_stepE: "half_step dir roomID s t"

text \<open>A half once \<open>OnAudioTrack\<close> has returned.\<close>

definition half_init :: "pipeline_half \<Rightarrow> half_outcome \<Rightarrow> half_state" where
  "half_init half out =
     \<lparr>hs_tracker = NewLatencyTracker, hs_callbacks = [], hs_registered = (ho_track out = None), hs_opusClosed = False,
      hs_cancelled = False, hs_todo = runHalf half out, hs_emitted = [], hs_channelPanic = False\<rparr>"

abbreviation half_runs :: "string \<Rightarrow> string \<Rightarrow> half_state \<Rightarrow> half_state \<Rightarrow> bool" where
  "half_runs dir roomID \<equiv> (half_step dir roomID)\<^sup>*\<^sup>*"

lemma moved_sel [simp]:
  "hs_tracker (moved k pc s) = hs_tracker s" "hs_callbacks (moved k pc s) = (hs_callbacks s)[k := pc]"
  "hs_opusClosed (moved k pc s) = hs_opusClosed s" "hs_todo (moved k pc s) = hs_todo s"
  "hs_emitted (moved k pc s) = hs_emitted s" "hs_channelPanic (moved k pc s) = hs_channelPanic s"
  by (simp_all add: moved_def)

abbreviation isStart :: "half_action \<Rightarrow> bool" where
  "isStart a \<equiv> (case a of TrackStart _ \<Rightarrow> True | _ \<Rightarrow> False)"

definition starts_left :: "half_action list \<Rightarrow> nat" where
  "starts_left todo = length (filter isStart todo)"

definition captures :: "tracker \<Rightarrow> nat" where
  "captures lt = count_list (map st_Stage (timings lt)) StageCapture"

definition others :: "tracker \<Rightarrow> nat" where
  "others lt = length (filter (\<lambda>s. s \<noteq> StageCapture) (map st_Stage (timings lt)))"

lemma length_split_count:
  "length xs = count_list (map f xs) c + length (filter (\<lambda>s. s \<noteq> c) (map f xs))"
  by (induction xs) auto

lemma timings_split: "length (timings lt) = captures lt + others lt"
  unfolding captures_def others_def by (rule length_split_count)

text \<open>
  A callback has a capture in the current chunk, or is about to start one, at most once; the half starts each of its four
  stages once, whatever has been reset in between.  Panics take two callbacks.
\<close>

definition half_inv :: "half_state \<Rightarrow> bool" where
  "half_inv s \<longleftrightarrow>
     captures (hs_tracker s) + count_list (hs_callbacks s) AfterReset \<le> length (hs_callbacks s)
     \<and> others (hs_tracker s) + starts_left (hs_todo s) \<le> 4
     \<and> TrackStart StageCapture \<notin> set (hs_todo s)
     \<and> (hs_opusClosed s \<longrightarrow> CallbackGone \<in> set (hs_callbacks s))
     \<and> (IndexPanic \<in> set (hs_emitted s) \<or> hs_channelPanic s \<longrightarrow> 2 \<le> length (hs_callbacks s))"

lemma captures_simps [simp]:
  "captures (Reset lt) = 0" "captures (EndStage s t lt) = captures lt"
  "captures (snd (Emit h r st lt)) = 0"
  by (simp_all add: captures_def)

lemma others_simps [simp]:
  "others (Reset lt) = 0" "others (EndStage s t lt) = others lt"
  "others (snd (Emit h r st lt)) = 0"
  by (simp_all add: others_def)

lemma captures_Start:
  "captures (StartStage s t lt) \<le> captures lt + (if s = StageCapture then 1 else 0)"
  by (simp add: captures_def timings_Start)

lemma others_Start:
  "others (StartStage s t lt) \<le> others lt + (if s = StageCapture then 0 else 1)"
  by (simp add: others_def timings_Start)

lemma starts_left_simps [simp]:
  "starts_left [] = 0"
  "starts_left (a # as) = (if isStart a then 1 else 0) + starts_left as"
  by (simp_all add: starts_left_def)

lemma runHalf_starts: "starts_left (runHalf half out) \<le> 4"
  by (auto simp: runHalf_defs split: option.splits)

lemma runHalf_no_capture: "TrackStart StageCapture \<notin> set (runHalf half out)"
  by (auto simp: runHalf_defs split: option.splits)

lemma trackAction_inv:
  assumes "trackAction dir roomID now a lt = (out, lt')" and "a \<noteq> TrackStart StageCapture"
  shows "captures lt' \<le> captures lt \<and> others lt' \<le> others lt + (if isStart a then 1 else 0)
    \<and> (IndexPanic \<in> set out \<longrightarrow> length (timings lt) > maxStages)"
proof (cases a)
  case (TrackStart s)
  then show ?thesis
    using assms captures_Start [of s now lt] others_Start [of s now lt] by auto
next
  case (TrackEmit st)
  then obtain r where "Emit dir roomID st lt = (r, lt')" and "out = [r]"
    using assms(1) by (auto split: prod.splits)
  then show ?thesis
    using Emit_panics_iff [of dir roomID st lt] captures_simps(3) [of dir roomID st lt]
      others_simps(3) [of dir roomID st lt] TrackEmit
    by auto
qed (use assms in auto)

lemma half_inv_init: "half_inv (half_init half out)"
  using runHalf_starts [of half out] runHalf_no_capture [of half out]
  by (simp add: half_inv_def half_init_def NewLatencyTracker_def captures_def others_def timings_def)

lemma half_inv_main:
  assumes inv: "half_inv s" and todo: "hs_todo s = a # todo"
    and act: "trackAction dir roomID now a (hs_tracker s) = (out, lt)"
  shows "half_inv (s\<lparr>hs_tracker := lt, hs_todo := todo, hs_emitted := hs_emitted s @ out\<rparr>)"
proof -
  have a: "a \<noteq> TrackStart StageCapture" using inv todo by (auto simp: half_inv_def)
  note t = trackAction_inv [OF act a]
  have "2 \<le> length (hs_callbacks s)" if "IndexPanic \<in> set out"
    using t that inv timings_split [of "hs_tracker s"] by (auto simp: half_inv_def maxStages_def)
  then show ?thesis using inv t todo by (auto simp: half_inv_def split: if_splits)
qed

lemma count_list_update:
  "k < length xs \<Longrightarrow> count_list (xs[k := y]) x + (if xs ! k = x then 1 else 0) = count_list xs x + (if y = x then 1 else 0)"
proof (induction xs arbitrary: k)
  case (Cons z xs)
  show ?case
  proof (cases k)
    case (Suc j)
    then show ?thesis using Cons.prems Cons.IH [of j] by (cases "y = x") auto
  qed simp
qed simp

lemma count_at: "at s k pc \<Longrightarrow> count_list (hs_callbacks (moved k pc' s)) x + (if pc = x then 1 else 0)
    = count_list (hs_callbacks s) x + (if pc' = x then 1 else 0)"
  using count_list_update [of k "hs_callbacks s" pc' x] by (auto simp: at_def)

lemma moved_gone: "at s k pc \<Longrightarrow> pc \<noteq> CallbackGone \<Longrightarrow> CallbackGone \<in> set (hs_callbacks s)
    \<Longrightarrow> CallbackGone \<in> set ((hs_callbacks s)[k := pc'])"
  by (metis at_def in_set_conv_nth length_list_update nth_list_update_neq)

text \<open>A callback at work beside one that has ended.\<close>

lemma two_callbacks: "at s k pc \<Longrightarrow> pc \<noteq> CallbackGone \<Longrightarrow> CallbackGone \<in> set (hs_callbacks s) \<Longrightarrow> 2 \<le> length (hs_callbacks s)"
  by (cases "hs_callbacks s"; cases "tl (hs_callbacks s)") (auto simp: at_def)

lemma half_step_inv: "half_step dir roomID s t \<Longrightarrow> half_inv s \<Longrightarrow> half_inv t"
proof (induction rule: half_step.induct)
  case (frame s k)
  have "count_list (hs_callbacks (moved k AfterReset s)) AfterReset \<le> length (hs_callbacks (moved k AfterReset s))"
    by (rule count_le_length)
  then show ?case using frame moved_gone [OF frame(1)] by (auto simp: half_inv_def)
next
  case (capture s k now)
  then show ?case
    using captures_Start [of StageCapture now "hs_tracker s"] others_Start [of StageCapture now "hs_tracker s"]
      count_at [OF capture(1), of AfterStart AfterReset] moved_gone [OF capture(1)] by (auto simp: half_inv_def)
next
  case (captured s k now)
  then show ?case
    using count_at [OF captured(1), of SendingFrame AfterReset] moved_gone [OF captured(1)] by (auto simp: half_inv_def)
next
  case (frame_sent s k)
  then show ?case
    using count_at [OF frame_sent(1), of AwaitFrame AfterReset] by (auto simp: half_inv_def)
next
  case (send_panics s k)
  then show ?case using two_callbacks [OF send_panics(1)] by (auto simp: half_inv_def)
next
  case (given_up s k)
  then show ?case
    using count_at [OF given_up(1), of CallbackGone AfterReset] moved_gone [OF given_up(1)] by (auto simp: half_inv_def)
next
  case (track_ends s k)
  then have "CallbackGone \<in> set ((hs_callbacks s)[k := CallbackGone])" by (simp add: at_def set_update_memI)
  then show ?case
    using track_ends count_at [OF track_ends(1), of CallbackGone AfterReset] by (auto simp: half_inv_def)
next
  case (close_panics s k)
  then show ?case using two_callbacks [OF close_panics(1)] by (auto simp: half_inv_def)
next
  case (main s a todo now out lt)
  then show ?case by (simp add: half_inv_main)
qed (auto simp: half_inv_def)

lemma half_reach_inv: "half_runs dir roomID (half_init half out) s \<Longrightarrow> half_inv s"
  by (induction rule: rtranclp_induct) (auto intro: half_inv_init half_step_inv)

subsection \<open>Properties of a pipeline half\<close>

definition succeeds :: "half_outcome \<Rightarrow> bool" where
  "succeeds out \<longleftrightarrow> ho_decode out = None \<and> ho_translate out = None \<and> ho_encode out = None \<and> ho_send out = None"

definition statuses :: "half_action list \<Rightarrow> string list" where
  "statuses as = List.map_filter (\<lambda>a. case a of TrackEmit s \<Rightarrow> Some s | _ \<Rightarrow> None) as"

definition totalChunks :: "half_action list \<Rightarrow> int" where
  "totalChunks as = sum_list (map (\<lambda>a. case a of AddTotalChunks n \<Rightarrow> n | _ \<Rightarrow> 0) as)"

definition errorChunks :: "half_action list \<Rightarrow> int" where
  "errorChunks as = sum_list (map (\<lambda>a. case a of AddErrorChunks n \<Rightarrow> n | _ \<Rightarrow> 0) as)"

definition notices :: "half_action list \<Rightarrow> (string \<times> (string \<times> string) list) list" where
  "notices as = List.map_filter (\<lambda>a. case a of Notify s f \<Rightarrow> Some (s, f) | _ \<Rightarrow> None) as"

lemmas half_view = statuses_def totalChunks_def errorChunks_def notices_def List.map_filter_def

text \<open>
  C35: once its audio track is set up, a half reports exactly one status for its chunks: "ok", with the
  frames counted as processed and nobody notified, when every stage succeeds; "error", with the
  frames counted as failed and exactly one participant notified, when some stage fails.
\<close>

theorem half_reports_once:
  assumes "ho_track out = None"
  shows "statuses (runHalf half out) = [if succeeds out then ''ok'' else ''error'']
    \<and> totalChunks (runHalf half out) = (if succeeds out then ho_frames out else 0)
    \<and> errorChunks (runHalf half out) = (if succeeds out then 0 else ho_frames out)
    \<and> length (notices (runHalf half out)) = (if succeeds out then 0 else 1)"
  using assms
  by (cases "ho_decode out"; cases "ho_translate out"; cases "ho_encode out"; cases "ho_send out")
     (simp_all add: runHalf_defs half_view succeeds_def)

theorem half_reports_once_witness:
  "statuses (runHalf (halfAtoB (NewSession ''a'' ''r'' ''u'' ''en'' 0) (NewSession ''b'' ''r'' ''v'' ''es'' 0))
     \<lparr>ho_track = None, ho_decode = None, ho_translate = Some (Foreign ''401''), ho_encode = None,
      ho_send = None, ho_frames = 7\<rparr>) = [''error'']"
  by (subst half_reports_once [THEN conjunct1]) (simp_all add: succeeds_def)

text \<open>
  Who is told about which failure: the speaker when the track, the decoding or the translation
  fails, the listener when the encoding or the sending fails; the first failing stage decides.
\<close>

theorem failure_notices:
  "notices (runHalf half out) =
    (case ho_track out of
       Some e \<Rightarrow> [(ph_sourceSessID half, [(''reason'', ''audio track setup failed: '' @ error_text e)])]
     | None \<Rightarrow>
       if ho_decode out \<noteq> None
       then [(ph_sourceSessID half, codecError ''codec'' ''audio processing error'' (ph_sourceSessID half))]
       else if ho_translate out \<noteq> None
       then [(ph_sourceSessID half, codecError ''translation'' ''translation service error'' (ph_sourceSessID half))]
       else if ho_encode out \<noteq> None
       then [(ph_targetSessID half, codecError ''codec'' ''audio encoding error'' (ph_sourceSessID half))]
       else if ho_send out \<noteq> None
       then [(ph_targetSessID half, codecError ''server'' ''audio send error'' (ph_sourceSessID half))]
       else [])"
  by (cases "ho_track out"; cases "ho_decode out"; cases "ho_translate out"; cases "ho_encode out"; cases "ho_send out")
     (simp_all add: runHalf_defs half_view)

text \<open>
  C37: however the frame callbacks and the half's own goroutine interleave on the shared tracker and the shared channel, a
  chunk holds at most four timings and one for each remote track the source session has had; as long as it has had at most
  one, no \<open>Emit\<close> indexes past its fixed array of stage attributes, and nothing is sent on or done to \<open>opusCh\<close> after
  it is closed.
\<close>

theorem one_track_cannot_panic:
  assumes "half_runs dir roomID (half_init half out) s"
  shows "length (timings (hs_tracker s)) \<le> 4 + length (hs_callbacks s)
    \<and> (length (hs_callbacks s) \<le> 1 \<longrightarrow> IndexPanic \<notin> set (hs_emitted s) \<and> \<not> hs_channelPanic s)"
  using half_reach_inv [OF assms] timings_split [of "hs_tracker s"] by (auto simp: half_inv_def)

text \<open>The half's own goroutine, when nothing comes in between.\<close>

fun tracked :: "string \<Rightarrow> string \<Rightarrow> half_action list \<Rightarrow> tracker \<Rightarrow> emit_result list" where
  "tracked dir roomID [] lt = []"
| "tracked dir roomID (a # as) lt = (case trackAction dir roomID 0 a lt of (out, lt') \<Rightarrow> out @ tracked dir roomID as lt')"

lemma half_runs_on:
  "\<exists>t. half_runs dir roomID s t \<and> hs_callbacks t = hs_callbacks s
     \<and> hs_emitted t = hs_emitted s @ tracked dir roomID (hs_todo s) (hs_tracker s)"
proof (induction "hs_todo s" arbitrary: s)
  case Nil
  then show ?case by (intro exI [of _ s]) (simp add: Nil.hyps [symmetric])
next
  case (Cons a todo)
  obtain out lt where act: "trackAction dir roomID 0 a (hs_tracker s) = (out, lt)" by fastforce
  let ?s = "s\<lparr>hs_tracker := lt, hs_todo := todo, hs_emitted := hs_emitted s @ out\<rparr>"
  from Cons.hyps(1) [of ?s] obtain t where t: "half_runs dir roomID ?s t" "hs_callbacks t = hs_callbacks s"
      "hs_emitted t = hs_emitted s @ out @ tracked dir roomID todo lt" by auto
  have "half_step dir roomID s ?s" by (rule half_step.main [OF Cons.hyps(2) [symmetric] act])
  from converse_rtranclp_into_rtranclp [of "half_step dir roomID", OF this t(1)] t(2,3) act
  show ?case by (intro exI [of _ t]) (simp add: Cons.hyps(2) [symmetric])
qed

abbreviation talk_half :: pipeline_half where
  "talk_half \<equiv> halfAtoB (NewSession ''a'' ''r'' ''u'' ''en'' 0) (NewSession ''b'' ''r'' ''v'' ''es'' 0)"

definition smooth :: half_outcome where
  "smooth = \<lparr>ho_track = None, ho_decode = None, ho_translate = None, ho_encode = None, ho_send = None, ho_frames = 2\<rparr>"

text \<open>Two tracks of one session bring a frame each, and both frames start their capture in the same chunk.\<close>

definition crowded :: half_state where
  "crowded = (half_init talk_half smooth)\<lparr>hs_callbacks := [AfterStart, AfterStart], hs_tracker :=
     StartStage StageCapture 0 (StartStage StageCapture 0 (Reset (Reset NewLatencyTracker)))\<rparr>"

lemma half_then: "half_runs d r s t \<Longrightarrow> half_step d r t u \<Longrightarrow> half_runs d r s u"
  by (rule rtranclp.rtrancl_into_rtrancl)

lemma crowded_reached: "half_runs d r (half_init talk_half smooth) crowded"
proof -
  let ?i = "half_init talk_half smooth"
  let ?s = "\<lambda>cs lt. ?i\<lparr>hs_callbacks := cs, hs_tracker := lt\<rparr>"
  note defs = at_def moved_def half_init_def smooth_def
  have "half_step d r ?i (?s [AwaitFrame] NewLatencyTracker)"
    using half_step.track [of ?i d r] by (simp add: defs)
  then have 1: "half_runs d r ?i (?s [AwaitFrame] NewLatencyTracker)" by (rule r_into_rtranclp)
  have "half_step d r (?s [AwaitFrame] NewLatencyTracker) (?s [AwaitFrame, AwaitFrame] NewLatencyTracker)"
    using half_step.track [of "?s [AwaitFrame] NewLatencyTracker" d r] by (simp add: defs)
  note 2 = half_then [OF 1 this]
  have "half_step d r (?s [AwaitFrame, AwaitFrame] NewLatencyTracker) (?s [AfterReset, AwaitFrame] (Reset NewLatencyTracker))"
    using half_step.frame [of "?s [AwaitFrame, AwaitFrame] NewLatencyTracker" 0 d r] by (simp add: defs)
  note 3 = half_then [OF 2 this]
  have "half_step d r (?s [AfterReset, AwaitFrame] (Reset NewLatencyTracker)) (?s [AfterReset, AfterReset] (Reset (Reset NewLatencyTracker)))"
    using half_step.frame [of "?s [AfterReset, AwaitFrame] (Reset NewLatencyTracker)" 1 d r] by (simp add: defs)
  note 4 = half_then [OF 3 this]
  let ?lt = "Reset (Reset NewLatencyTracker)"
  have "half_step d r (?s [AfterReset, AfterReset] ?lt) (?s [AfterStart, AfterReset] (StartStage StageCapture 0 ?lt))"
    using half_step.capture [of "?s [AfterReset, AfterReset] ?lt" 0 d r 0] by (simp add: defs)
  note 5 = half_then [OF 4 this]
  have "half_step d r (?s [AfterStart, AfterReset] (StartStage StageCapture 0 ?lt)) crowded"
    using half_step.capture [of "?s [AfterStart, AfterReset] (StartStage StageCapture 0 ?lt)" 1 d r 0]
    by (simp add: crowded_def defs)
  from half_then [OF 5 this] show ?thesis .
qed

text \<open>Both tracks of a session end.\<close>

lemma closed_twice: "\<exists>s. half_runs d r (half_init half (out\<lparr>ho_track := None\<rparr>)) s \<and> length (hs_callbacks s) = 2 \<and> hs_channelPanic s"
proof -
  let ?i = "half_init half (out\<lparr>ho_track := None\<rparr>)"
  let ?s = "\<lambda>cs b. ?i\<lparr>hs_callbacks := cs, hs_opusClosed := b\<rparr>"
  note defs = at_def moved_def half_init_def
  have 1: "half_step d r ?i (?s [AwaitFrame] False)" using half_step.track [of ?i d r] by (simp add: defs)
  have 2: "half_step d r (?s [AwaitFrame] False) (?s [AwaitFrame, AwaitFrame] False)"
    using half_step.track [of "?s [AwaitFrame] False" d r] by (simp add: defs)
  have 3: "half_step d r (?s [AwaitFrame, AwaitFrame] False) (?s [CallbackGone, AwaitFrame] True)"
    using half_step.track_ends [of "?s [AwaitFrame, AwaitFrame] False" 0 d r] by (simp add: defs)
  have 4: "half_step d r (?s [CallbackGone, AwaitFrame] True) ((?s [CallbackGone, AwaitFrame] True)\<lparr>hs_channelPanic := True\<rparr>)"
    by (rule half_step.close_panics [of _ 1]) (simp_all add: defs)
  from half_then [OF half_then [OF half_then [OF r_into_rtranclp [of "half_step d r", OF 1] 2] 3] 4]
  show ?thesis by (intro exI conjI, assumption) simp_all
qed

text \<open>
  C27: a client whose session has two remote tracks can take the server down, in two ways: a half in which every stage succeeds,
  after one frame of each track, indexes past the array of \<open>Emit\<close>; and when both tracks end, whatever the
  stages do, \<open>opusCh\<close> is closed twice.
\<close>

theorem two_tracks_can_panic:
  "(\<exists>s. half_runs dir roomID (half_init talk_half smooth) s \<and> length (hs_callbacks s) = 2 \<and> IndexPanic \<in> set (hs_emitted s))
   \<and> (\<exists>s. half_runs dir roomID (half_init half (out\<lparr>ho_track := None\<rparr>)) s \<and> length (hs_callbacks s) = 2 \<and> hs_channelPanic s)"
proof (rule conjI [OF _ closed_twice])
  obtain s where s: "half_runs dir roomID crowded s" "hs_callbacks s = hs_callbacks crowded"
      "hs_emitted s = hs_emitted crowded @ tracked dir roomID (hs_todo crowded) (hs_tracker crowded)"
    using half_runs_on [of dir roomID crowded] by blast
  have "IndexPanic \<in> set (tracked dir roomID (hs_todo crowded) (hs_tracker crowded))"
    by (simp add: crowded_def half_init_def smooth_def runHalf_defs Reset_def NewLatencyTracker_def StartStage_def EndStage_def
        Emit_def maxStages_def)
  then show "\<exists>s. half_runs dir roomID (half_init talk_half smooth) s \<and> length (hs_callbacks s) = 2 \<and> IndexPanic \<in> set (hs_emitted s)"
    using rtranclp_trans [OF crowded_reached s(1)] s(2,3) by (intro exI [of _ s]) (simp add: crowded_def)
qed

text \<open>One track, one frame, and a half in which every stage succeeds.\<close>

theorem one_track_cannot_panic_witness:
  "\<exists>s. half_runs ''AtoB'' ''r'' (half_init talk_half smooth) s \<and> length (hs_callbacks s) = 1 \<and> hs_emitted s \<noteq> []
     \<and> IndexPanic \<notin> set (hs_emitted s)"
proof -
  let ?i = "half_init talk_half smooth"
  let ?s = "?i\<lparr>hs_callbacks := [AwaitFrame]\<rparr>"
  let ?t = "?s\<lparr>hs_callbacks := [AfterReset], hs_tracker := Reset NewLatencyTracker\<rparr>"
  have "half_step ''AtoB'' ''r'' ?i ?s" using half_step.track [of ?i "''AtoB''" "''r''"] by (simp add: half_init_def smooth_def)
  moreover have "half_step ''AtoB'' ''r'' ?s ?t"
    using half_step.frame [of ?s 0 "''AtoB''" "''r''"] by (simp add: half_init_def at_def moved_def)
  ultimately have t: "half_runs ''AtoB'' ''r'' ?i ?t" by (blast intro: half_then r_into_rtranclp)
  obtain s where s: "half_runs ''AtoB'' ''r'' ?t s" "hs_callbacks s = [AfterReset]"
      "hs_emitted s = tracked ''AtoB'' ''r'' (hs_todo ?t) (hs_tracker ?t)"
    using half_runs_on [of "''AtoB''" "''r''" ?t] by (auto simp: half_init_def)
  have "hs_emitted s \<noteq> []" by (simp add: s(3) half_init_def smooth_def runHalf_defs split: prod.splits)
  then show ?thesis using one_track_cannot_panic [OF rtranclp_trans [OF t s(1)]] s(2) rtranclp_trans [OF t s(1)]
    by (intro exI [of _ s]) simp
qed

end
