(* ===== verification/System.thy ===== *)
theory System
  imports Service_Rooms Repository Pipeline
begin

section \<open>The assembled service: calls, goroutines and timers over the in-memory repository\<close>

text \<open>
  What \<open>cmd/server\<close> wires together: the service over \<open>InMemoryRoomRepository\<close> and any WebRTC
  peer.  A run is a sequence of calls from the HTTP server and the hub, of pipeline goroutines
  that get their turn, of grace timers that fire and of sweeps; \<open>service_reach\<close> collects the states.
\<close>

datatype service_call =
    CallCreate string string
  | CallDelete string
  | CallJoin string string string
  | CallLeave string string
  | CallSignal signaling_message
  | CallDrop string
  | CallTimer string
  | CallSweep
  | CallTouch string
  | CallSpawned nat
  | CallHalf half_action
  | CallTranscripts string "string list"
  | CallCandidate string string

text \<open>The n-th waiting pipeline goroutine runs.\<close>

definition runSpawned :: "nat \<Rightarrow> ('r, 'p) service \<Rightarrow> ('r, 'p) service" where
  "runSpawned n w =
     (if n < length (sv_spawned w) then
        (case sv_spawned w ! n of (p, sessA, sessB) \<Rightarrow>
           startPipeline p sessA sessB
             (w\<lparr>sv_spawned := take n (sv_spawned w) @ drop (Suc n) (sv_spawned w)\<rparr>))
      else w)"

text \<open>A timer that was not stopped runs its function once its deadline has passed.\<close>

definition runTimer ::
  "'r room_repository \<Rightarrow> 'p webrtc_peer \<Rightarrow> env \<Rightarrow> string \<Rightarrow> ('r, 'p) service \<Rightarrow> ('r, 'p) service" where
  "runTimer R P E sid w =
     (case sv_graceTimers w sid of
        None \<Rightarrow> w
      | Some t \<Rightarrow> if gt_deadline t \<le> ev_now E then graceTimerFires R P E sid t w else w)"

fun perform ::
  "'r room_repository \<Rightarrow> 'p webrtc_peer \<Rightarrow> env \<Rightarrow> service_call \<Rightarrow> ('r, 'p) service
     \<Rightarrow> ('r, 'p) service" where
  "perform R P E (CallCreate src tgt) w = snd (CreateRoom R E src tgt w)"
| "perform R P E (CallDelete i) w = snd (DeleteRoom R P E i w)"
| "perform R P E (CallJoin i u lang) w = snd (JoinRoom R P E i u lang w)"
| "perform R P E (CallLeave i u) w = snd (LeaveRoom R P E i u w)"
| "perform R P E (CallSignal m) w = snd (HandleSignaling R P E m w)"
| "perform R P E (CallDrop sid) w = OnDisconnect E sid w"
| "perform R P E (CallTimer sid) w = runTimer R P E sid w"
| "perform R P E CallSweep w = sweepExpiredRooms R P E w"
| "perform R P E (CallTouch i) w = snd (svc_UpdateLastActivity R E i w)"
| "perform R P E (CallSpawned n) w = runSpawned n w"
| "perform R P E (CallHalf a) w = applyAction a w"
| "perform R P E (CallTranscripts sid ts) w = forwardTranscripts sid ts w"
| "perform R P E (CallCandidate sid c) w = localCandidate sid c w"

text \<open>The enumerations of the repository's map visit every key once.\<close>

definition ord_ok :: "(mem_repo \<Rightarrow> string list) \<Rightarrow> bool" where
  "ord_ok ord \<longleftrightarrow> (\<forall>r. finite (dom r) \<longrightarrow> enumerates (ord r) r)"

text \<open>A UUID is neither a session's nor a room's ID already, and holds no colon.\<close>

definition fresh_uuid :: "(mem_repo, 'p) service \<Rightarrow> string \<Rightarrow> bool" where
  "fresh_uuid w i \<longleftrightarrow> i \<noteq> [] \<and> sv_sessions w i = None \<and> fresh_room_id (sv_repo w) w i"

inductive service_reach ::
  "(mem_repo \<Rightarrow> string list) \<Rightarrow> 'p webrtc_peer \<Rightarrow> (mem_repo, 'p) service \<Rightarrow> bool"
  for ord P where
  boot: "NewService cfg (Some NewInMemoryRoomRepository) (Some peer) True True True = Inr w
    \<Longrightarrow> service_reach ord P w"
| call: "service_reach ord P w \<Longrightarrow> env_ok E \<Longrightarrow> fresh_uuid w (ev_uuid E)
    \<Longrightarrow> service_reach ord P (perform (mem_repository ord) P E c w)"

interpretation memR: room_backend "\<lambda>r. r" "mem_repository ord" for ord
  by unfold_locales (auto simp: mem_Save_def mem_FindByID_def mem_Delete_def)

subsection \<open>The invariant of the assembled service\<close>

lemma NewService_consistent:
  assumes "NewService cfg (Some NewInMemoryRoomRepository) (Some peer) a b c = Inr w"
  shows "consistent (sv_repo w) w"
  using assms
  by (auto simp: NewService_def NewInMemoryRoomRepository_def consistent_def registered_def
      sessions_indexed_def rooms_sound_def members_match_def hosted_def split: if_splits)

lemma consistent_touch:
  assumes c: "consistent (sv_repo w) w"
  shows "consistent (sv_repo (snd (svc_UpdateLastActivity (mem_repository ord) E i w)))
    (snd (svc_UpdateLastActivity (mem_repository ord) E i w))"
proof (cases "sv_repo w i")
  case None
  then show ?thesis
    using c by (simp add: svc_UpdateLastActivity_def mem_UpdateLastActivity_def consistent_def)
next
  case (Some p)
  note rs = rooms_soundD [OF consistentD(4) [OF c] Some]
  let ?r = "(sv_heap w p)\<lparr>rm_LastActivity := Some (ev_now E)\<rparr>"
  have "rooms_sound (sv_repo w) ((sv_heap w)(p := ?r)) (sv_next w)"
    using consistentD(4) [OF c] Some rs room_ok_Touch [of "sv_heap w p" "ev_now E"]
    by (intro rooms_sound_upd) (simp_all add: TouchActivity_def)
  then show ?thesis
    using c Some
    by (auto simp: svc_UpdateLastActivity_def mem_UpdateLastActivity_def consistent_def members_match_def)
qed

lemma consistent_sessions_update:
  assumes "consistent B w" "sv_sessions w sid = Some s"
    "se_ID s' = se_ID s" "se_RoomID s' = se_RoomID s" "se_UserID s' = se_UserID s"
  shows "consistent B (w\<lparr>sv_sessions := (sv_sessions w)(sid \<mapsto> s')\<rparr>)"
  using assms unfolding consistent_def
  by (auto intro: registered_update sessions_indexed_update hosted_update)

lemma consistent_logSessionError:
  assumes "consistent B w"
  shows "consistent B (logSessionError sid stage e w)"
proof (cases "sv_sessions w sid")
  case (Some s)
  then show ?thesis
    using consistent_sessions_update [OF assms Some, of "s\<lparr>se_ErrorCount := se_ErrorCount s + 1\<rparr>"]
    by (simp add: logSessionError_def Let_def consistent_def)
qed (simp add: logSessionError_def assms)

lemma forwardTranscripts_frame [frame_simps]:
  "sv_sessions (forwardTranscripts t ts w) = sv_sessions w"
  "sv_lookup (forwardTranscripts t ts w) = sv_lookup w"
  "sv_heap (forwardTranscripts t ts w) = sv_heap w"
  "sv_next (forwardTranscripts t ts w) = sv_next w"
  "sv_repo (forwardTranscripts t ts w) = sv_repo w"
  by (induction ts arbitrary: w) (simp_all add: forwardTranscripts_def NotifySession_def)

lemma applyAction_repo [simp]: "sv_repo (applyAction a w) = sv_repo w"
  by (cases a) (simp_all add: NotifySession_def logSessionError_def Let_def split: option.split)

lemma consistent_applyAction: "consistent B w \<Longrightarrow> consistent B (applyAction a w)"
  by (cases a) (simp_all add: consistent_logSessionError, simp add: NotifySession_def consistent_def)

lemma runSpawned_frame [frame_simps]:
  "sv_sessions (runSpawned n w) = sv_sessions w" "sv_lookup (runSpawned n w) = sv_lookup w"
  "sv_heap (runSpawned n w) = sv_heap w" "sv_next (runSpawned n w) = sv_next w"
  "sv_repo (runSpawned n w) = sv_repo w" "sv_graceTimers (runSpawned n w) = sv_graceTimers w"
  by (simp_all add: runSpawned_def startPipeline_def Let_def split: prod.split)

lemma consistent_perform:
  assumes c: "consistent (sv_repo w) w" and E: "env_ok E" and f: "fresh_uuid w (ev_uuid E)"
  shows "consistent (sv_repo (perform (mem_repository ord) P E k w)) (perform (mem_repository ord) P E k w)"
proof -
  note split = prod.collapse [symmetric]
  have fr: "fresh_room_id (sv_repo w) w (ev_uuid E)" "sv_sessions w (ev_uuid E) = None"
    using f by (simp_all add: fresh_uuid_def)
  have ord: "enumerates (ev_ord_lookup E (sv_lookup w)) (sv_lookup w)"
    using E consistentD(2) [OF c] by (simp add: env_ok_def)
  show ?thesis
  proof (cases k)
    case (CallCreate s t)
    then show ?thesis using memR.consistent_CreateRoom [OF c fr(1) split] by simp
  next
    case (CallDelete i)
    then show ?thesis using memR.consistent_DeleteRoom [OF c ord split] by simp
  next
    case (CallJoin i u l)
    then show ?thesis using memR.consistent_JoinRoom [OF c fr(2) split] by simp
  next
    case (CallLeave i u)
    then show ?thesis using memR.consistent_LeaveRoom [OF c split] by simp
  next
    case (CallSignal m)
    then show ?thesis using memR.consistent_HandleSignaling [OF c fr(2) split] by simp
  next
    case (CallDrop sid)
    then show ?thesis using memR.consistent_OnDisconnect [OF c] by simp
  next
    case (CallTimer sid)
    then show ?thesis
      using c memR.consistent_graceTimerFires [OF c E] by (auto simp: runTimer_def split: option.split)
  next
    case CallSweep
    then show ?thesis using memR.consistent_sweep [OF c E] by simp
  next
    case (CallTouch i)
    then show ?thesis using consistent_touch [OF c] by simp
  next
    case (CallSpawned n)
    then show ?thesis using c by (simp add: consistent_def frame_simps)
  next
    case (CallHalf a)
    then show ?thesis using consistent_applyAction [OF c] by simp
  next
    case (CallTranscripts sid ts)
    then show ?thesis using c by (simp add: consistent_def frame_simps)
  next
    case (CallCandidate sid x)
    then show ?thesis using c by (simp add: consistent_def localCandidate_def NotifySession_def)
  qed
qed

lemma service_reach_consistent: "service_reach ord P w \<Longrightarrow> consistent (sv_repo w) w"
  by (induction rule: service_reach.induct) (simp_all add: NewService_consistent consistent_perform)

end
