(* ===== verification/Example_Run.thy ===== *)
theory Example_Run
  imports System "HOL-Library.Char_ord" "HOL-Library.List_Lexorder"
begin

section \<open>A small run of the service\<close>

text \<open>
  One concrete run on which the properties are evaluated: a peer whose calls all succeed, map
  enumerations in sorted order, a room created for en/es and joined by alice (en) and bob (es).
\<close>

definition sorted_keys :: "(string \<rightharpoonup> 'v) \<Rightarrow> string list" where
  "sorted_keys m = sorted_list_of_set (dom m)"

definition quiet_peer :: "unit webrtc_peer" where
  "quiet_peer =
     \<lparr>CreateSession = (\<lambda>_ s. (None, s)), CloseSession = (\<lambda>_ s. (None, s)),
      HandleOffer = (\<lambda>_ _ s. (None, s)), CreateAnswer = (\<lambda>_ s. (Inr ''v=0'', s)),
      AddICECandidate = (\<lambda>_ _ s. (None, s)), OnICECandidate = (\<lambda>_ s. (None, s))\<rparr>"

definition zero_reader :: reader where
  "zero_reader = \<lparr>rd_bytes = [0, 0, 0, 0, 0, 0], rd_err = Foreign ''EOF''\<rparr>"

definition example_env :: "time \<Rightarrow> string \<Rightarrow> env" where
  "example_env now uuid = \<lparr>ev_now = now, ev_uuid = uuid, ev_rand = zero_reader,
     ev_ord_sessions = sorted_keys, ev_ord_lookup = sorted_keys\<rparr>"

abbreviation example_repo :: "mem_repo room_repository" where
  "example_repo \<equiv> mem_repository sorted_keys"

definition run0 :: "(mem_repo, unit) service" where
  "run0 = (case NewService DefaultServiceConfig (Some NewInMemoryRoomRepository) (Some ()) True True True of
             Inr w \<Rightarrow> w | Inl _ \<Rightarrow> undefined)"

definition run1 :: "(mem_repo, unit) service" where
  "run1 = perform example_repo quiet_peer (example_env 0 ''r'') (CallCreate ''en'' ''es'') run0"

definition run2 :: "(mem_repo, unit) service" where
  "run2 = perform example_repo quiet_peer (example_env second ''a'') (CallJoin ''r'' ''alice'' ''en'') run1"

definition run3 :: "(mem_repo, unit) service" where
  "run3 = perform example_repo quiet_peer (example_env (2 * second) ''b'') (CallJoin ''r'' ''bob'' ''es'') run2"

lemma enumerates_sorted_keys: "finite (dom m) \<Longrightarrow> enumerates (sorted_keys m) m"
  by (simp add: enumerates_def sorted_keys_def)

lemma ord_ok_sorted: "ord_ok sorted_keys"
  by (simp add: ord_ok_def enumerates_sorted_keys)

lemma example_env_ok: "env_ok (example_env now uuid)"
  by (simp add: env_ok_def example_env_def enumerates_sorted_keys)

lemmas example_defs = quiet_peer_def example_env_def zero_reader_def sorted_keys_def

lemma run0_eq: "run0 = \<lparr>sv_cfg = DefaultServiceConfig, sv_heap = empty_heap, sv_next = 0,
    sv_repo = (\<lambda>_. None), sv_peer = (), sv_sessions = (\<lambda>_. None), sv_lookup = (\<lambda>_. None),
    sv_pipelines = (\<lambda>_. None), sv_graceTimers = (\<lambda>_. None), sv_spawned = [], sv_cancelled = [],
    sv_outbox = [], sv_events = []\<rparr>"
  by (simp add: run0_def NewService_def DefaultServiceConfig_def NewInMemoryRoomRepository_def)

definition example_room :: "string set \<Rightarrow> time option \<Rightarrow> room" where
  "example_room us t = \<lparr>rm_ID = ''r'', rm_SourceLang = ''en'', rm_TargetLang = ''es'',
     rm_ShortCode = ''AAAAAA'', rm_CreatedAt = 0, rm_LastActivity = t, rm_Active = True,
     rm_Participants = us, rm_Capacity = 2\<rparr>"

lemma zero_code: "GenerateShortCode zero_reader = (Inr ''AAAAAA'', zero_reader\<lparr>rd_bytes := []\<rparr>)"
  by (simp add: GenerateShortCode_def ReadFull_def zero_reader_def shortCodeLen_def code_char_def
      shortCodeAlphabet_def)

lemma run1_eq: "run1 = run0\<lparr>sv_heap := empty_heap(0 := example_room {} None), sv_next := 1,
    sv_repo := [''r'' \<mapsto> 0]\<rparr>"
  by (simp add: run1_def run0_eq CreateRoom_def NewRoom_def Let_def example_env_def DefaultServiceConfig_def
      numeral_eq_Suc zero_code mem_FindByShortCode_def visited_def List.map_filter_def sorted_keys_def
      mem_Save_def example_room_def defaultCapacity_def)

definition alice :: session where
  "alice = NewSession ''a'' ''r'' ''alice'' ''en'' second"

definition bob :: session where
  "bob = NewSession ''b'' ''r'' ''bob'' ''es'' (2 * second)"

lemmas join_eval = JoinRoom_def openSession_def Let_def Join_def mem_FindByID_def mem_Save_def
  cancelGraceTimersForRoom_def sessionsInRoom_def List.map_filter_def example_room_def
  TouchActivity_def IsFull_def NewSession_def

lemma run2_eq: "run2 = run1\<lparr>sv_heap := empty_heap(0 := example_room {''alice''} (Some second)),
    sv_sessions := [''a'' \<mapsto> alice], sv_lookup := [''r:alice'' \<mapsto> ''a'']\<rparr>"
  by (simp add: run2_def run1_eq run0_eq join_eval example_defs alice_def lookupKey_def fun_upd_twist)

lemma run3_eq: "run3 = run2\<lparr>sv_heap := empty_heap(0 := example_room {''alice'', ''bob''} (Some (2 * second))),
    sv_sessions := [''a'' \<mapsto> alice, ''b'' \<mapsto> bob],
    sv_lookup := [''r:alice'' \<mapsto> ''a'', ''r:bob'' \<mapsto> ''b''],
    sv_spawned := [(0, alice, bob)]\<rparr>"
  by (simp add: run3_def run2_eq run1_eq run0_eq join_eval example_defs alice_def bob_def lookupKey_def
      insert_commute)

lemmas run_eqs = run3_eq run2_eq run1_eq run0_eq

lemma reach0: "service_reach sorted_keys quiet_peer run0"
  by (rule service_reach.boot [of DefaultServiceConfig "()"])
     (simp add: run0_def NewService_def DefaultServiceConfig_def)

lemmas fresh_eval = fresh_uuid_def fresh_room_id_def example_env_def

lemma reach1: "service_reach sorted_keys quiet_peer run1"
  unfolding run1_def
  by (rule service_reach.call [OF reach0 example_env_ok]) (simp add: run0_eq fresh_eval)

lemma reach2: "service_reach sorted_keys quiet_peer run2"
  unfolding run2_def
  by (rule service_reach.call [OF reach1 example_env_ok]) (simp add: run_eqs fresh_eval)

lemma reach3: "service_reach sorted_keys quiet_peer run3"
  unfolding run3_def
  by (rule service_reach.call [OF reach2 example_env_ok]) (simp add: run_eqs fresh_eval alice_def)

text \<open>The parts of the run the evaluations look at.\<close>

lemma members_sel [simp]:
  "se_ID alice = ''a''" "se_ID bob = ''b''" "se_RoomID alice = ''r''" "se_RoomID bob = ''r''"
  "se_UserID alice = ''alice''" "se_UserID bob = ''bob''" "se_Lang alice = ''en''" "se_Lang bob = ''es''"
  "se_Name alice = []" "se_Name bob = []"
  by (simp_all add: alice_def bob_def NewSession_def)

lemma alice_not_bob [simp]: "alice \<noteq> bob" "bob \<noteq> alice"
  using members_sel(1,2) by fastforce+

lemma run2_sel:
  "sv_sessions run2 = [''a'' \<mapsto> alice]" "sv_lookup run2 = [''r:alice'' \<mapsto> ''a'']"
  "sv_repo run2 = [''r'' \<mapsto> 0]" "sv_heap run2 0 = example_room {''alice''} (Some second)"
  "sv_graceTimers run2 = (\<lambda>_. None)" "sv_outbox run2 = []" "sv_spawned run2 = []"
  "sv_cfg run2 = DefaultServiceConfig"
  by (simp_all add: run_eqs)

lemma run3_sel:
  "sv_sessions run3 = [''a'' \<mapsto> alice, ''b'' \<mapsto> bob]"
  "sv_lookup run3 = [''r:alice'' \<mapsto> ''a'', ''r:bob'' \<mapsto> ''b'']"
  "sv_repo run3 = [''r'' \<mapsto> 0]"
  "sv_heap run3 0 = example_room {''alice'', ''bob''} (Some (2 * second))"
  "sv_graceTimers run3 = (\<lambda>_. None)" "sv_outbox run3 = []" "sv_spawned run3 = [(0, alice, bob)]"
  "sv_cfg run3 = DefaultServiceConfig" "sv_pipelines run3 = (\<lambda>_. None)"
  by (simp_all add: run_eqs)

lemma example_room_sel [simp]:
  "rm_ID (example_room us t) = ''r''" "rm_SourceLang (example_room us t) = ''en''"
  "rm_TargetLang (example_room us t) = ''es''" "rm_ShortCode (example_room us t) = ''AAAAAA''"
  "rm_LastActivity (example_room us t) = t" "rm_Active (example_room us t)"
  "rm_Participants (example_room us t) = us" "rm_Capacity (example_room us t) = 2"
  by (simp_all add: example_room_def)

lemma ran_sessions:
  "ran [''a'' \<mapsto> alice] = {alice}" "ran [''a'' \<mapsto> alice, ''b'' \<mapsto> bob] = {alice, bob}"
  by auto

text \<open>The same room joined by a client that sends no user ID.\<close>

definition run_nameless :: "(mem_repo, unit) service" where
  "run_nameless = perform example_repo quiet_peer (example_env second ''a'') (CallJoin ''r'' [] ''en'') run1"

lemma nameless_eq: "run_nameless = run1\<lparr>sv_heap := empty_heap(0 := example_room {[]} (Some second)),
    sv_sessions := [''a'' \<mapsto> NewSession ''a'' ''r'' [] ''en'' second], sv_lookup := [''r:'' \<mapsto> ''a'']\<rparr>"
  by (simp add: run_nameless_def run1_eq run0_eq join_eval example_defs lookupKey_def fun_upd_twist)

lemma reach_nameless: "service_reach sorted_keys quiet_peer run_nameless"
  unfolding run_nameless_def
  by (rule service_reach.call [OF reach1 example_env_ok]) (simp add: run_eqs fresh_eval)

end
