(* ===== verification/Evolution.thy ===== *)
theory Evolution
  imports System
begin

section \<open>What the calls change in the stored rooms\<close>

text \<open>
  Apart from \<open>CreateRoom\<close> no call stores a room or changes a short code, and apart from joins and
  \<open>UpdateLastActivity\<close> no call changes a room's last activity; the calls other than
  \<open>CreateRoom\<close> allocate no room either: \<open>evolves b\<close> relates the states before and
  after such calls (\<open>b\<close>: activity may change).  From it, the short codes of the stored rooms stay
  well formed and distinct in every reachable state.
\<close>

definition evolves :: "bool \<Rightarrow> (mem_repo, 'p) service \<Rightarrow> (mem_repo, 'p) service \<Rightarrow> bool" where
  "evolves b w w' \<longleftrightarrow> (\<forall>i p. sv_repo w' i = Some p \<longrightarrow> sv_repo w i = Some p)
     \<and> (\<forall>q. rm_ShortCode (sv_heap w' q) = rm_ShortCode (sv_heap w q))
     \<and> (b \<or> (\<forall>q. rm_LastActivity (sv_heap w' q) = rm_LastActivity (sv_heap w q)))
     \<and> sv_cfg w' = sv_cfg w \<and> sv_next w' = sv_next w"

lemma evolves_refl [simp]: "evolves b w w"
  by (simp add: evolves_def)

lemma evolves_trans: "evolves b u v \<Longrightarrow> evolves b v w \<Longrightarrow> evolves b u w"
  by (auto simp: evolves_def)

lemma evolves_weaken: "evolves False u v \<Longrightarrow> evolves b u v"
  by (auto simp: evolves_def)

lemma evolves_same:
  "sv_repo w' = sv_repo w \<Longrightarrow> sv_heap w' = sv_heap w \<Longrightarrow> sv_cfg w' = sv_cfg w \<Longrightarrow>
     sv_next w' = sv_next w \<Longrightarrow> evolves b w w'"
  by (simp add: evolves_def)

lemma evolves_eq: "sv_repo w' = sv_repo v \<Longrightarrow> sv_heap w' = sv_heap v \<Longrightarrow> sv_cfg w' = sv_cfg v \<Longrightarrow>
    sv_next w' = sv_next v \<Longrightarrow> evolves b w v \<Longrightarrow> evolves b w w'"
  by (simp add: evolves_def)

lemma openSession_cfg: "sv_cfg (snd (openSession R P E p b i u lang w)) = sv_cfg w"
  by (auto simp: openSession_def Let_def split: prod.splits option.splits)

lemma JoinRoom_cfg: "sv_cfg (snd (JoinRoom R P E i u lang w)) = sv_cfg w"
  by (auto simp: JoinRoom_def Let_def openSession_cfg frame_simps split: sum.splits option.splits)

lemma evolves_JoinRoom:
  assumes c: "consistent (sv_repo w) w"
  shows "evolves True w (snd (JoinRoom (mem_repository ord) P E i u lang w))"
proof (cases "JoinRoom (mem_repository ord) P E i u lang w")
  case (Pair x w')
  have cfg: "sv_cfg w' = sv_cfg w"
    using JoinRoom_cfg [of "mem_repository ord" P E i u lang w] Pair by simp
  show ?thesis
  proof (cases x)
    case (Inl e)
    with Pair have J: "JoinRoom (mem_repository ord) P E i u lang w = (Inl e, w')" by simp
    then show ?thesis
      using JoinRoom_Inl [OF J] memR.JoinRoom_Inl_bindings [OF J] Pair cfg by (simp add: evolves_same)
  next
    case (Inr sid)
    with Pair have "JoinRoom (mem_repository ord) P E i u lang w = (Inr sid, w')" by simp
    then show ?thesis
    proof (cases rule: JoinRoom_InrE)
      case (new p r')
      then have p: "sv_repo w i = Some p" by (simp add: mem.find_Inr_iff)
      have r': "rm_ShortCode r' = rm_ShortCode (sv_heap w p)" "rm_ID r' = i"
        using new(4) rooms_soundD(1) [OF consistentD(4) [OF c] p] by (auto simp: Join_Inr_iff)
      show ?thesis
        using openSession_Inr [OF new(5)] memR.openSession_Inr_bindings [OF new(5)] Pair p r' cfg
        by (auto simp: evolves_def frame_simps TouchActivity_def split: if_splits)
    next
      case (reconnect p)
      then show ?thesis using Pair cfg by (simp add: evolves_same frame_simps)
    next
      case (reopen p)
      then have p: "sv_repo w i = Some p" by (simp add: mem.find_Inr_iff)
      show ?thesis
        using reopen(3-5) members_matchD [OF consistentD(5) [OF c] p, of u] by simp
    qed
  qed
qed

lemma evolves_Leave:
  assumes "Leave (h p) u = Inr r"
  shows "rm_ShortCode r = rm_ShortCode (h p)" "rm_LastActivity r = rm_LastActivity (h p)" "rm_ID r = rm_ID (h p)"
  using assms by (auto simp: Leave_Inr_iff)

lemma evolves_LeaveRoom:
  assumes c: "consistent (sv_repo w) w"
  shows "evolves False w (snd (LeaveRoom (mem_repository ord) P E i u w))"
  using rooms_soundD(1) [OF consistentD(4) [OF c], of i]
  by (auto simp: LeaveRoom_def Let_def evolves_def mem_FindByID_def mem_Save_def frame_simps evolves_Leave
      split: option.splits sum.splits if_splits)

lemma evolves_DeleteRoom:
  assumes c: "consistent (sv_repo w) w" and E: "env_ok E"
  shows "evolves False w (snd (DeleteRoom (mem_repository ord) P E i w))"
proof (cases "sv_repo w i")
  case None
  then show ?thesis using memR.DeleteRoom_absent [of w i ord P E] by auto
next
  case (Some p)
  have ord: "enumerates (ev_ord_lookup E (sv_lookup w)) (sv_lookup w)"
    using E consistentD(2) [OF c] by (simp add: env_ok_def)
  show ?thesis
    using memR.DeleteRoom_effect [OF Some ord prod.collapse [symmetric]]
    by (auto simp: evolves_def Close_def split: if_splits)
qed

lemma evolves_sweepLoop:
  assumes "consistent (sv_repo w) w" and E: "env_ok E"
  shows "evolves False w (sweepLoop (mem_repository ord) P E ps w)"
  using assms(1)
proof (induction ps arbitrary: w)
  case (Cons p ps)
  let ?w1 = "snd (DeleteRoom (mem_repository ord) P E (rm_ID (sv_heap w p)) w)"
  have "enumerates (ev_ord_lookup E (sv_lookup w)) (sv_lookup w)"
    using E consistentD(2) [OF Cons.prems] by (simp add: env_ok_def)
  from memR.consistent_DeleteRoom [OF Cons.prems this prod.collapse [symmetric]]
  have "consistent (sv_repo ?w1) ?w1" .
  from evolves_trans [OF evolves_DeleteRoom [OF Cons.prems E] Cons.IH [OF this]] show ?case by simp
qed simp

lemma evolves_graceTimerFires:
  assumes c: "consistent (sv_repo w) w" and E: "env_ok E"
  shows "evolves False w (graceTimerFires (mem_repository ord) P E sid t w)"
proof -
  define w1 where "w1 = w\<lparr>sv_graceTimers := (sv_graceTimers w)(sid := None),
     sv_events := sv_events w @ [SessionEnd sid (gt_roomID t) (se_UserID (gt_sess t))
                       (duration_sec E (gt_sess t)) ''timeout'']\<rparr>"
  have c1: "consistent (sv_repo w1) w1" using c by (simp add: w1_def consistent_def)
  have "evolves False w w1" by (simp add: evolves_same w1_def)
  from evolves_trans [OF this evolves_DeleteRoom [OF c1 E]] show ?thesis
    by (simp add: graceTimerFires_def Let_def w1_def [symmetric] evolves_def frame_simps)
qed

lemma handleJoin_rooms:
  "sv_repo (snd (handleJoin R P E m w)) = sv_repo (snd (JoinRoom R P E (msg_RoomID m) (msg_UserID m) (msg_Lang m) w))"
  "sv_heap (snd (handleJoin R P E m w)) = sv_heap (snd (JoinRoom R P E (msg_RoomID m) (msg_UserID m) (msg_Lang m) w))"
  "sv_cfg (snd (handleJoin R P E m w)) = sv_cfg (snd (JoinRoom R P E (msg_RoomID m) (msg_UserID m) (msg_Lang m) w))"
  "sv_next (snd (handleJoin R P E m w)) = sv_next (snd (JoinRoom R P E (msg_RoomID m) (msg_UserID m) (msg_Lang m) w))"
  by (auto simp: handleJoin_def Let_def frame_simps split: prod.split sum.split option.split)

lemma handleOffer_cfg: "sv_cfg (snd (handleOffer P m w)) = sv_cfg w"
  by (auto simp: handleOffer_def Let_def split: prod.split sum.split option.split)

lemma evolves_HandleSignaling:
  assumes c: "consistent (sv_repo w) w"
  shows "evolves (msg_Type m = ''join'') w (snd (HandleSignaling (mem_repository ord) P E m w))"
proof (cases "msg_Type m = ''join''")
  case True
  have "evolves True w (snd (handleJoin (mem_repository ord) P E m w))"
    using evolves_eq [OF handleJoin_rooms evolves_JoinRoom [OF c]] .
  with True show ?thesis by (auto simp: HandleSignaling_def split: prod.split)
next
  case False
  have "evolves False w (snd (handleOffer P m w))"
    by (rule evolves_same) (simp_all add: frame_simps handleOffer_cfg)
  moreover have "LeaveRoom (mem_repository ord) P E i u w = (y, w2) \<Longrightarrow> evolves False w w2" for i u y w2
    using evolves_LeaveRoom [OF c, of ord P E i u] by simp
  ultimately show ?thesis
    using False
    by (auto simp: HandleSignaling_def evolves_same split: prod.split option.split go_result.split)
qed

text \<open>The calls that may change a room's last activity.\<close>

fun is_activity :: "service_call \<Rightarrow> bool" where
  "is_activity (CallJoin i u l) = True"
| "is_activity (CallTouch i) = True"
| "is_activity (CallSignal m) = (msg_Type m = ''join'')"
| "is_activity _ = False"

fun is_create :: "service_call \<Rightarrow> bool" where
  "is_create (CallCreate s t) = True"
| "is_create _ = False"

lemma applyAction_rooms:
  "sv_heap (applyAction a w) = sv_heap w" "sv_cfg (applyAction a w) = sv_cfg w"
  "sv_next (applyAction a w) = sv_next w"
  by (cases a; simp add: NotifySession_def logSessionError_def Let_def split: option.split)+

lemma forwardTranscripts_cfg: "sv_cfg (forwardTranscripts t ts w) = sv_cfg w"
  by (induction ts arbitrary: w) (simp_all add: forwardTranscripts_def NotifySession_def)

lemma runSpawned_cfg: "sv_cfg (runSpawned n w) = sv_cfg w"
  by (simp add: runSpawned_def startPipeline_def Let_def split: prod.split)

lemma evolves_perform:
  assumes c: "consistent (sv_repo w) w" and E: "env_ok E" and k: "\<not> is_create k"
  shows "evolves (is_activity k) w (perform (mem_repository ord) P E k w)"
proof (cases k)
  case (CallTimer sid)
  then show ?thesis using evolves_graceTimerFires [OF c E] by (auto simp: runTimer_def split: option.split)
next
  case CallSweep
  then show ?thesis using evolves_sweepLoop [OF c E] by (auto simp: sweepExpiredRooms_def split: sum.split)
next
  case (CallTouch i)
  then show ?thesis
    by (auto simp: svc_UpdateLastActivity_def mem_UpdateLastActivity_def evolves_def split: option.split)
next
  case (CallDrop sid)
  then show ?thesis by (auto intro!: evolves_same simp: OnDisconnect_def split: option.split)
next
  case (CallHalf a)
  then show ?thesis by (auto intro!: evolves_same simp: applyAction_rooms)
qed (use k in \<open>auto simp: evolves_JoinRoom [OF c] evolves_LeaveRoom [OF c] evolves_DeleteRoom [OF c E]
      evolves_HandleSignaling [OF c] frame_simps forwardTranscripts_cfg runSpawned_cfg localCandidate_def
      intro!: evolves_same\<close>)

subsection \<open>Short codes of the stored rooms\<close>

definition codes_ok :: "room_heap \<Rightarrow> mem_repo \<Rightarrow> bool" where
  "codes_ok h r \<longleftrightarrow> finite (dom r) \<and> codes_unique h r \<and> (\<forall>p \<in> ran r. code_shaped (rm_ShortCode (h p)))"

lemma codes_ok_evolves:
  assumes "codes_ok (sv_heap w) (sv_repo w)" and e: "evolves b w w'"
  shows "codes_ok (sv_heap w') (sv_repo w')"
proof -
  have sub: "dom (sv_repo w') \<subseteq> dom (sv_repo w)" "ran (sv_repo w') \<subseteq> ran (sv_repo w)"
    using e by (force simp: evolves_def ran_def)+
  have sc: "rm_ShortCode (sv_heap w' q) = rm_ShortCode (sv_heap w q)" for q
    using e by (simp add: evolves_def)
  show ?thesis
    using assms(1) sub finite_subset [OF sub(1)] inj_on_subset [OF _ sub(2)]
    by (auto simp: codes_ok_def codes_unique_def sc)
qed

text \<open>The retry loop of \<open>CreateRoom\<close> only accepts a code no stored room has.\<close>

lemma pickShortCode_Some:
  assumes "pickShortCode (mem_repository ord) h r n rd = Inr (Some code)" and "ord_ok ord" and "finite (dom r)"
  shows "code_shaped code \<and> (\<forall>p \<in> ran r. rm_ShortCode (h p) \<noteq> code)"
  using assms(1)
proof (induction n arbitrary: rd)
  case (Suc n)
  have en: "enumerates (ord r) r" using assms(2,3) by (simp add: ord_ok_def)
  from Suc show ?case
    using mem_FindByShortCode_Inl [OF en]
    by (auto simp: code_shaped_def split: prod.splits sum.splits if_splits dest!: GenerateShortCode_Inr)
       (metis ToUpper_code)+
qed simp

lemma CreateRoom_mem:
  assumes "CreateRoom (mem_repository ord) E src tgt w = (x, w')"
  shows "(isl x \<and> sv_repo w' = sv_repo w \<and> (\<forall>q. q \<noteq> sv_next w \<longrightarrow> sv_heap w' q = sv_heap w q)) \<or>
    (\<exists>r code. x = Inr (sv_next w) \<and> NewRoom (ev_uuid E) src tgt (ev_now E) = Inr r
      \<and> (\<exists>rd. pickShortCode (mem_repository ord) ((sv_heap w)(sv_next w := r)) (sv_repo w)
            (nat (MaxShortCodeRetries (sv_cfg w))) rd = Inr (Some code))
      \<and> sv_repo w' = (sv_repo w)(ev_uuid E \<mapsto> sv_next w)
      \<and> sv_heap w' = (sv_heap w)(sv_next w := r\<lparr>rm_ShortCode := code\<rparr>))"
  using assms
  by (auto simp: CreateRoom_def Let_def mem_Save_def NewRoom_def split: sum.splits option.splits prod.splits if_splits)

lemma codes_ok_CreateRoom:
  assumes c: "consistent (sv_repo w) w" and k: "codes_ok (sv_heap w) (sv_repo w)"
    and f: "fresh_uuid w (ev_uuid E)" and ord: "ord_ok ord"
    and C: "CreateRoom (mem_repository ord) E src tgt w = (x, w')"
  shows "codes_ok (sv_heap w') (sv_repo w')"
proof -
  have old: "q \<noteq> sv_next w" if "q \<in> ran (sv_repo w)" for q
    using rooms_soundD(2) [OF consistentD(4) [OF c]] that by (fastforce simp: ran_def)
  from CreateRoom_mem [OF C] show ?thesis
  proof (elim disjE exE conjE)
    assume "isl x" "sv_repo w' = sv_repo w" and h: "\<forall>q. q \<noteq> sv_next w \<longrightarrow> sv_heap w' q = sv_heap w q"
    then show ?thesis using k old by (auto simp: codes_ok_def codes_unique_def inj_on_def)
  next
    fix r code rd
    assume pick: "pickShortCode (mem_repository ord) ((sv_heap w)(sv_next w := r)) (sv_repo w)
            (nat (MaxShortCodeRetries (sv_cfg w))) rd = Inr (Some code)"
      and w': "sv_repo w' = (sv_repo w)(ev_uuid E \<mapsto> sv_next w)"
        "sv_heap w' = (sv_heap w)(sv_next w := r\<lparr>rm_ShortCode := code\<rparr>)"
    have new: "sv_repo w (ev_uuid E) = None" using f by (simp add: fresh_uuid_def fresh_room_id_def)
    have ran: "ran (sv_repo w') = insert (sv_next w) (ran (sv_repo w))"
      by (simp add: w' ran_map_upd [where m = "sv_repo w", OF new])
    have fin: "finite (dom (sv_repo w))" using k by (simp add: codes_ok_def)
    from pickShortCode_Some [OF pick ord fin] show ?thesis
      unfolding codes_ok_def codes_unique_def ran
      using k old by (auto simp: w' codes_ok_def codes_unique_def inj_on_def)
  qed
qed

lemma service_reach_codes:
  assumes "service_reach ord P w" and ord: "ord_ok ord"
  shows "codes_ok (sv_heap w) (sv_repo w)"
  using assms(1)
proof (induction rule: service_reach.induct)
  case (boot cfg peer w)
  then show ?case
    by (auto simp: NewService_def NewInMemoryRoomRepository_def codes_ok_def codes_unique_def split: if_splits)
next
  case (call w E k)
  have c: "consistent (sv_repo w) w" by (rule service_reach_consistent [OF call(1)])
  show ?case
  proof (cases "is_create k")
    case True
    then obtain s t where "k = CallCreate s t" by (cases k) auto
    then show ?thesis using codes_ok_CreateRoom [OF c call(4,3) ord prod.collapse [symmetric]] by simp
  next
    case False
    from codes_ok_evolves [OF call(4) evolves_perform [OF c call(2) this]] show ?thesis .
  qed
qed

end
