(* ===== verification/Service_Properties.thy ===== *)
theory Service_Properties
  imports Example_Run Evolution
begin

section \<open>Properties of the room service\<close>

text \<open>
  The properties of the assembled service: in every state a run can reach, and for calls from such
  states.  Each is a few steps over the invariants of \<open>Service_Rooms\<close> and \<open>System\<close> and the effect lemmas.
\<close>

subsection \<open>Rooms and their sessions\<close>

definition room_sessions :: "('r, 'p) service \<Rightarrow> string \<Rightarrow> session set" where
  "room_sessions w i = {s \<in> ran (sv_sessions w). se_RoomID s = i}"

lemma example_sessions:
  "room_sessions run2 ''r'' = {alice}" "room_sessions run3 ''r'' = {alice, bob}"
  by (auto simp: room_sessions_def run2_sel run3_sel ran_sessions simp del: fun_upd_apply)

lemma room_sessions_iff:
  assumes c: "consistent B w"
  shows "s \<in> room_sessions w i \<longleftrightarrow> sv_sessions w (se_ID s) = Some s \<and> se_RoomID s = i"
  using sessions_indexedD(1) [OF consistentD(3) [OF c]] by (auto simp: room_sessions_def ran_def)

lemma room_session_key:
  assumes c: "consistent B w" and s: "s \<in> room_sessions w i"
  shows "sv_lookup w (lookupKey i (se_UserID s)) = Some (se_ID s)"
  using s sessions_indexedD(2) [OF consistentD(3) [OF c]] by (auto simp: room_sessions_iff [OF c])

lemma key_room_session:
  assumes c: "consistent B w" and i: "CHR '':'' \<notin> set i"
    and k: "sv_lookup w (lookupKey i u) = Some sid"
  obtains s where "s \<in> room_sessions w i" "se_UserID s = u" "se_ID s = sid"
proof -
  from consistentD(1) [OF c] k obtain s
    where s: "sv_sessions w sid = Some s" "se_ID s = sid" "lookupKey i u = keyOf s" by (elim registeredE)
  have "CHR '':'' \<notin> set (se_RoomID s)" by (rule sessions_indexedD(3) [OF consistentD(3) [OF c] s(1)])
  then have "se_RoomID s = i" "se_UserID s = u" using s(3) i by (auto simp: lookupKey_eq_iff)
  then show thesis using s that by (simp add: room_sessions_iff [OF c])
qed

lemma members_are_users:
  assumes c: "consistent B w" and B: "B i = Some p"
  shows "rm_Participants (sv_heap w p) = se_UserID ` room_sessions w i"
proof (intro set_eqI iffI)
  fix u
  assume "u \<in> rm_Participants (sv_heap w p)"
  with members_matchD [OF consistentD(5) [OF c] B] obtain sid
    where "sv_lookup w (lookupKey i u) = Some sid" by auto
  from key_room_session [OF c rooms_soundD(3) [OF consistentD(4) [OF c] B] this]
  show "u \<in> se_UserID ` room_sessions w i" by blast
next
  fix u
  assume "u \<in> se_UserID ` room_sessions w i"
  then show "u \<in> rm_Participants (sv_heap w p)"
    using members_matchD [OF consistentD(5) [OF c] B] room_session_key [OF c] by auto
qed

lemma room_sessions_inj: "consistent B w \<Longrightarrow> inj_on se_UserID (room_sessions w i)"
  by (rule inj_onI) (metis room_session_key room_sessions_iff option.inject)

lemma room_sessions_finite: "consistent B w \<Longrightarrow> finite (room_sessions w i)"
  unfolding room_sessions_def using sessions_finite finite_ran by (metis finite_Collect_conjI Collect_mem_eq)

text \<open>
  C5: in every state that whole calls, run one after the other, reach from the start, a stored room is active and has at most
  two participants; they are exactly the users of the sessions open in that room, one session per user.
  (Calls that overlap can break this: theory \<open>Races\<close>.)
\<close>

theorem rooms_and_sessions_agree:
  assumes "service_reach ord P w" and "sv_repo w i = Some p"
  shows "rm_ID (sv_heap w p) = i \<and> rm_Active (sv_heap w p)
    \<and> rm_Participants (sv_heap w p) = se_UserID ` room_sessions w i
    \<and> inj_on se_UserID (room_sessions w i)
    \<and> finite (room_sessions w i) \<and> card (room_sessions w i) \<le> 2"
proof -
  have c: "consistent (sv_repo w) w" by (rule service_reach_consistent [OF assms(1)])
  note rs = rooms_soundD [OF consistentD(4) [OF c] assms(2)]
  have "card (room_sessions w i) = card (rm_Participants (sv_heap w p))"
    by (simp add: members_are_users [OF c assms(2)] card_image [OF room_sessions_inj [OF c]])
  then show ?thesis
    using rs members_are_users [OF c assms(2)] room_sessions_inj [OF c] room_sessions_finite [OF c]
    by (auto simp: room_ok_def defaultCapacity_def)
qed

theorem rooms_and_sessions_agree_witness:
  "se_UserID ` room_sessions run3 ''r'' = {''alice'', ''bob''}"
proof -
  have "sv_repo run3 ''r'' = Some 0" by (simp add: run3_sel)
  from rooms_and_sessions_agree [OF reach3 this] show ?thesis by (simp add: run3_sel)
qed

text \<open>
  C14: no signaling message makes the service panic in a reachable state, and the only error it
  returns is \<open>ErrUnknownMessageType\<close>, for a message of unknown type; every other failure is an answer.
\<close>

theorem signaling_never_panics:
  assumes "service_reach ord P w"
  shows "\<exists>x. fst (HandleSignaling (mem_repository ord) P E m w) = Return x
    \<and> (isl x \<longleftrightarrow> msg_Type m \<notin> {''join'', ''offer'', ''ice-candidate'', ''leave''})
    \<and> (\<forall>e. x \<noteq> Inl e \<or> e = Sentinel ErrUnknownMessageType)"
proof -
  have r: "svc_registered w" by (rule consistentD(1) [OF service_reach_consistent [OF assms]])
  show ?thesis
    using LeaveRoom_no_panic [OF r, of "mem_repository ord" P E]
    by (auto simp: HandleSignaling_def split: prod.splits option.splits go_result.splits)
       (metis fst_conv)
qed

theorem signaling_never_panics_witness:
  "\<exists>x. fst (HandleSignaling example_repo quiet_peer (example_env 3 ''c'')
      (empty_message\<lparr>msg_Type := ''leave'', msg_SessionID := ''a''\<rparr>) run3) = Return (Inr x)"
  using signaling_never_panics [OF reach3, of "example_env 3 ''c''"
      "empty_message\<lparr>msg_Type := ''leave'', msg_SessionID := ''a''\<rparr>"]
  by (auto simp: isl_def) (metis sum.exhaust_sel isl_def)

subsection \<open>Joining\<close>

lemma join_mem:
  assumes c: "consistent (sv_repo w) w" and p: "sv_repo w i = Some p"
  shows "Join (sv_heap w p) u =
    (if sv_lookup w (lookupKey i u) \<noteq> None then Inl (Sentinel ErrAlreadyInRoom)
     else if 2 \<le> card (room_sessions w i) then Inl (Sentinel ErrRoomFull)
     else Inr ((sv_heap w p)\<lparr>rm_Participants := insert u (rm_Participants (sv_heap w p))\<rparr>))"
proof -
  note rs = rooms_soundD [OF consistentD(4) [OF c] p]
  have "card (rm_Participants (sv_heap w p)) = card (room_sessions w i)"
    by (simp add: members_are_users [OF c p] card_image [OF room_sessions_inj [OF c]])
  then show ?thesis
    using rs members_matchD [OF consistentD(5) [OF c] p, of u] by (auto simp: Join_def defaultCapacity_def)
qed

lemma openSession_fst_mem:
  "fst (openSession (mem_repository ord) P E p b i u lang w) =
    (case fst (CreateSession P (ev_uuid E) (sv_peer w)) of
       Some e \<Rightarrow> Inl (Wrapped ''roomsvc.JoinRoom: creating peer session'' e)
     | None \<Rightarrow> Inr (ev_uuid E))"
  by (auto simp: openSession_def Let_def mem_Save_def NewSession_def split: prod.splits option.splits)

lemma join_fst:
  assumes "consistent (sv_repo w) w"
  shows "fst (JoinRoom (mem_repository ord) P E i u lang w) =
    (if lang = [] then Inl (Wrapped ''roomsvc.JoinRoom'' (Sentinel ErrMissingLang))
     else case sv_repo w i of
       None \<Rightarrow> Inl (Wrapped ''roomsvc.JoinRoom'' (Wrapped ''roomsvc.FindByID'' (Sentinel ErrRoomNotFound)))
     | Some p \<Rightarrow>
         if lang \<notin> {rm_SourceLang (sv_heap w p), rm_TargetLang (sv_heap w p)}
         then Inl (Wrapped ''roomsvc.JoinRoom'' (Sentinel ErrLangNotSupported))
         else (case sv_lookup w (lookupKey i u) of
             Some sid \<Rightarrow> Inr sid
           | None \<Rightarrow>
               if 2 \<le> card (room_sessions w i)
               then Inl (Wrapped ''roomsvc.JoinRoom'' (Sentinel ErrRoomFull))
               else (case fst (CreateSession P (ev_uuid E) (sv_peer w)) of
                   Some e \<Rightarrow> Inl (Wrapped ''roomsvc.JoinRoom: creating peer session'' e)
                 | None \<Rightarrow> Inr (ev_uuid E))))"
proof (cases "sv_repo w i")
  case (Some p)
  note j = join_mem [OF assms Some, of u]
  show ?thesis
    using Some by (auto simp: JoinRoom_def mem_FindByID_def j Let_def frame_simps openSession_fst_mem
        split: option.splits)
qed (simp add: JoinRoom_def mem_FindByID_def)



text \<open>
  C17: a join that fails, whatever the repository and the peer do, leaves the rooms, the sessions, the
  registry, the pipelines and the notifications as they were: the participant it had added is
  taken out again.
\<close>

theorem failed_join_is_rolled_back:
  assumes "JoinRoom R P E i u lang w = (Inl e, w')"
  shows "sv_heap w' = sv_heap w \<and> sv_sessions w' = sv_sessions w \<and> sv_lookup w' = sv_lookup w
    \<and> sv_pipelines w' = sv_pipelines w \<and> sv_spawned w' = sv_spawned w \<and> sv_outbox w' = sv_outbox w"
  using JoinRoom_Inl [OF assms] by simp

text \<open>A peer that refuses every session.\<close>

definition refusing_peer :: "unit webrtc_peer" where
  "refusing_peer = quiet_peer\<lparr>CreateSession := (\<lambda>_ s. (Some (Foreign ''no ICE''), s))\<rparr>"

theorem failed_join_is_rolled_back_witness:
  "rm_Participants (sv_heap (snd (JoinRoom example_repo refusing_peer (example_env 3 ''c'') ''r'' ''carol'' ''en'' run2)) 0)
     = {''alice''}"
proof -
  let ?x = "JoinRoom example_repo refusing_peer (example_env 3 ''c'') ''r'' ''carol'' ''en'' run2"
  have "fst ?x = Inl (Wrapped ''roomsvc.JoinRoom: creating peer session'' (Foreign ''no ICE''))"
    unfolding join_fst [OF service_reach_consistent [OF reach2]]
    by (simp add: run2_sel example_sessions lookupKey_def refusing_peer_def)
  then have "?x = (Inl (Wrapped ''roomsvc.JoinRoom: creating peer session'' (Foreign ''no ICE'')), snd ?x)"
    by (simp add: prod_eq_iff)
  from failed_join_is_rolled_back [OF this] have h: "sv_heap (snd ?x) = sv_heap run2" by blast
  show ?thesis unfolding h by (simp add: run2_sel)
qed

lemma sessions_listed:
  assumes "env_ok E" and "finite (dom S)"
  shows "set (sessionsInRoom E i S) = {s \<in> ran S. se_RoomID s = i}"
proof -
  have "enumerates (ev_ord_sessions E S) S" using assms by (simp add: env_ok_def)
  then have "set (List.map_filter S (ev_ord_sessions E S)) = ran S"
    by (auto simp: enumerates_def List.map_filter_def ran_def dom_def image_iff) force
  then show ?thesis by (auto simp: sessionsInRoom_def)
qed

lemma set_sessionsInRoom:
  assumes c: "consistent B w" and E: "env_ok E"
  shows "set (sessionsInRoom E i (sv_sessions w)) = room_sessions w i"
  by (simp add: sessions_listed [OF E sessions_finite [OF c]] room_sessions_def)

lemma fold_map_delete:
  "fold (\<lambda>s t. t(f s := None)) ss m = (\<lambda>k. if k \<in> f ` set ss then None else m k)"
  by (induction ss arbitrary: m) (auto simp: fun_eq_iff)

lemma cancelGrace_timers:
  assumes "consistent B w" and "env_ok E"
  shows "sv_graceTimers (cancelGraceTimersForRoom E i w) =
    (\<lambda>sid. if sid \<in> se_ID ` room_sessions w i then None else sv_graceTimers w sid)"
  by (simp add: cancelGraceTimersForRoom_def fold_map_delete set_sessionsInRoom [OF assms])

lemma rejoin_mem:
  assumes c: "consistent (sv_repo w) w" and E: "env_ok E" and p: "sv_repo w i = Some p"
    and l: "lang \<noteq> []" "lang = rm_SourceLang (sv_heap w p) \<or> lang = rm_TargetLang (sv_heap w p)"
    and s: "s \<in> room_sessions w i"
  shows "JoinRoom (mem_repository ord) P E i (se_UserID s) lang w =
    (Inr (se_ID s),
     w\<lparr>sv_graceTimers := (\<lambda>sid. if sid \<in> se_ID ` room_sessions w i then None else sv_graceTimers w sid)\<rparr>)"
  using p l join_mem [OF c p, of "se_UserID s"] room_session_key [OF c s]
  by (simp add: JoinRoom_def mem_FindByID_def Let_def frame_simps cancelGrace_timers [OF c E, symmetric])
     (simp add: cancelGraceTimersForRoom_def)

text \<open>
  A user who joins again gets the session they already have, in either language of the room; the
  call changes nothing but the grace timers, of which those of the room's sessions are stopped.
\<close>

theorem rejoin_keeps_the_session:
  assumes "service_reach ord P w" and "env_ok E" and "sv_repo w i = Some p"
    and "lang \<noteq> []" and "lang = rm_SourceLang (sv_heap w p) \<or> lang = rm_TargetLang (sv_heap w p)"
    and "s \<in> room_sessions w i"
  shows "JoinRoom (mem_repository ord) P E i (se_UserID s) lang w =
    (Inr (se_ID s),
     w\<lparr>sv_graceTimers := (\<lambda>sid. if sid \<in> se_ID ` room_sessions w i then None else sv_graceTimers w sid)\<rparr>)"
  by (rule rejoin_mem [OF service_reach_consistent [OF assms(1)] assms(2-6)])

theorem rejoin_keeps_the_session_witness:
  "fst (JoinRoom example_repo quiet_peer (example_env 3 ''c'') ''r'' ''alice'' ''es'' run3) = Inr ''a''"
proof -
  have p: "sv_repo run3 ''r'' = Some 0" by (simp add: run3_sel)
  have l: "''es'' = rm_SourceLang (sv_heap run3 0) \<or> ''es'' = rm_TargetLang (sv_heap run3 0)"
    by (simp add: run3_sel)
  have "alice \<in> room_sessions run3 ''r''" by (simp add: example_sessions)
  from rejoin_keeps_the_session [OF reach3 example_env_ok p _ l this] show ?thesis by simp
qed

lemma spawned_openSession_mem:
  assumes "openSession (mem_repository ord) P E p b i u lang w = (Inr sid, w')"
  shows "sv_spawned w' = sv_spawned w @
    (if IsFull (sv_heap w p) then
       (case List.find (\<lambda>s. se_ID s \<noteq> sid)
          (sessionsInRoom E i ((sv_sessions w)(sid \<mapsto> NewSession sid i u lang (ev_now E)))) of
          None \<Rightarrow> [] | Some a \<Rightarrow> [(p, a, NewSession sid i u lang (ev_now E))])
     else [])"
  using assms
  by (auto simp: openSession_def Let_def NewSession_def mem_Save_def TouchActivity_def IsFull_def
      split: prod.splits option.splits if_splits)

lemma find_other:
  assumes "set xs = insert s A" "\<forall>a \<in> A. se_ID a \<noteq> se_ID s" "A = {a}"
  shows "List.find (\<lambda>x. se_ID x \<noteq> se_ID s) xs = Some a"
proof (cases "List.find (\<lambda>x. se_ID x \<noteq> se_ID s) xs")
  case None
  then show ?thesis using assms by (auto simp: find_None_iff)
next
  case (Some y)
  then have "y \<in> set xs" "se_ID y \<noteq> se_ID s" by (auto simp: find_Some_iff)
  then show ?thesis using assms Some by auto
qed

lemma join_effect:
  assumes "service_reach ord P w" and "env_ok E" and "fresh_uuid w (ev_uuid E)"
    and "JoinRoom (mem_repository ord) P E i u lang w = (Inr sid, w')"
    and "sv_lookup w (lookupKey i u) = None"
  shows "\<exists>p s. sv_repo w i = Some p \<and> sid = ev_uuid E \<and> s = NewSession sid i u lang (ev_now E)
    \<and> sv_repo w' = sv_repo w \<and> sv_sessions w' = (sv_sessions w)(sid \<mapsto> s)
    \<and> sv_lookup w' = (sv_lookup w)(lookupKey i u \<mapsto> sid)
    \<and> sv_heap w' = (sv_heap w)(p := (sv_heap w p)\<lparr>rm_LastActivity := Some (ev_now E),
         rm_Participants := insert u (rm_Participants (sv_heap w p))\<rparr>)
    \<and> (room_sessions w i = {} \<and> sv_spawned w' = sv_spawned w
       \<or> (\<exists>a. room_sessions w i = {a} \<and> sv_spawned w' = sv_spawned w @ [(p, a, s)]))"
  using assms(4)
proof (cases rule: JoinRoom_InrE)
  case (new p r')
  have c: "consistent (sv_repo w) w" by (rule service_reach_consistent [OF assms(1)])
  have p: "sv_repo w i = Some p" using new(1) by (simp add: mem.find_Inr_iff)
  have fresh: "sv_sessions w (ev_uuid E) = None" using assms(3) by (simp add: fresh_uuid_def)
  let ?w0 = "cancelGraceTimersForRoom E i (w\<lparr>sv_heap := (sv_heap w)(p := r')\<rparr>)"
  let ?s = "NewSession sid i u lang (ev_now E)"
  note op = openSession_Inr [OF new(5)] and r' = new(4) [unfolded join_mem [OF c p]]
  have r: "r' = (sv_heap w p)\<lparr>rm_Participants := insert u (rm_Participants (sv_heap w p))\<rparr>"
    and few: "card (room_sessions w i) < 2"
    using r' by (auto split: if_splits)
  have c': "consistent (sv_repo w') w'" by (rule memR.consistent_JoinRoom [OF c fresh assms(4)])
  have S': "sv_sessions w' = (sv_sessions w)(sid \<mapsto> ?s)" using op by (simp add: frame_simps)
  have old: "\<forall>a \<in> room_sessions w i. se_ID a \<noteq> sid"
    using fresh op by (auto simp: room_sessions_iff [OF c])
  have rs': "room_sessions w' i = insert ?s (room_sessions w i)"
    using ran_map_upd [of "sv_sessions w" sid ?s] fresh op by (auto simp: room_sessions_def S')
  have xs: "set (sessionsInRoom E i ((sv_sessions w)(sid \<mapsto> ?s))) = insert ?s (room_sessions w i)"
    using set_sessionsInRoom [OF c' assms(2), of i] by (simp add: S' rs')
  have "card (rm_Participants (sv_heap w p)) = card (room_sessions w i)"
    by (simp add: members_are_users [OF c p] card_image [OF room_sessions_inj [OF c]])
  moreover have "u \<notin> rm_Participants (sv_heap w p)"
    using members_matchD [OF consistentD(5) [OF c] p, of u] assms(5) by simp
  ultimately have full: "IsFull r' \<longleftrightarrow> 1 \<le> card (room_sessions w i)"
    using rooms_soundD [OF consistentD(4) [OF c] p]
    by (auto simp: IsFull_def r room_ok_def defaultCapacity_def)
  have none: "room_sessions w i = {} \<Longrightarrow> sv_spawned w' = sv_spawned w"
    using spawned_openSession_mem [OF new(5)] full by (simp add: frame_simps)
  have one: "sv_spawned w' = sv_spawned w @ [(p, a, ?s)]" if "room_sessions w i = {a}" for a
    using spawned_openSession_mem [OF new(5)] full find_other [OF xs _ that] old that by (simp add: frame_simps)
  have "room_sessions w i = {} \<or> (\<exists>a. room_sessions w i = {a})"
    using few room_sessions_finite [OF c, of i]
    by (metis One_nat_def card_1_singletonE card_0_eq less_2_cases)
  then show ?thesis
    using p op none one rooms_soundD(1) [OF consistentD(4) [OF c] p]
    by (auto simp: r frame_simps TouchActivity_def mem_Save_def fun_upd_idem)
qed (use assms(5) members_matchD [OF consistentD(5) [OF service_reach_consistent [OF assms(1)]], of i _ u]
     in \<open>auto simp: mem.find_Inr_iff\<close>)

lemma openSession_rest:
  "openSession R P E p b i u lang w = (Inr sid, w') \<Longrightarrow> CreateSession P sid (sv_peer w) = (None, sv_peer w')
    \<and> sv_cfg w' = sv_cfg w \<and> sv_next w' = sv_next w \<and> sv_pipelines w' = sv_pipelines w \<and> sv_graceTimers w' = sv_graceTimers w
    \<and> sv_cancelled w' = sv_cancelled w \<and> sv_outbox w' = sv_outbox w \<and> sv_events w' = sv_events w"
  by (auto simp: openSession_def NewSession_def Let_def split: prod.splits option.splits if_splits)

lemma join_new_rest:
  assumes "consistent (sv_repo w) w" and "env_ok E" and "JoinRoom (mem_repository ord) P E i u lang w = (Inr sid, w')"
    and "sv_lookup w (lookupKey i u) = None"
  shows "CreateSession P sid (sv_peer w) = (None, sv_peer w')
    \<and> sv_graceTimers w' = (\<lambda>x. if x \<in> se_ID ` room_sessions w i then None else sv_graceTimers w x)
    \<and> sv_cfg w' = sv_cfg w \<and> sv_next w' = sv_next w \<and> sv_pipelines w' = sv_pipelines w
    \<and> sv_cancelled w' = sv_cancelled w \<and> sv_outbox w' = sv_outbox w \<and> sv_events w' = sv_events w"
  using assms(3)
proof (cases rule: JoinRoom_InrE)
  case (new p r')
  let ?w = "w\<lparr>sv_heap := (sv_heap w)(p := r')\<rparr>"
  have "sv_graceTimers (cancelGraceTimersForRoom E i ?w) = (\<lambda>x. if x \<in> se_ID ` room_sessions w i then None else sv_graceTimers w x)"
    using cancelGrace_timers [OF assms(1,2), of i] by (simp add: cancelGraceTimersForRoom_def)
  then show ?thesis using openSession_rest [OF new(5)] by (simp add: cancelGraceTimersForRoom_def)
qed (use assms(4) members_matchD [OF consistentD(5) [OF assms(1)], of i _ u]
     in \<open>auto simp: mem.find_Inr_iff\<close>)

text \<open>
  C18: a user who was not in the room and joins gets the new UUID as session, and the whole effect is this: the peer has made a
  connection for it; it is registered in state connecting, under its ID and the key of room and user; the room counts the
  user and takes the time as its last activity; the grace timers of the sessions of the room, and no others, are
  cancelled; and one pipeline is started, between the other session and the new one, exactly when there was
  one other session.
\<close>

theorem join_opens_a_session:
  assumes "service_reach ord P w" and "env_ok E" and "fresh_uuid w (ev_uuid E)"
    and "JoinRoom (mem_repository ord) P E i u lang w = (Inr sid, w')"
    and "sv_lookup w (lookupKey i u) = None"
  shows "\<exists>p s peer' started. sv_repo w i = Some p \<and> sid = ev_uuid E \<and> s = NewSession sid i u lang (ev_now E)
    \<and> CreateSession P sid (sv_peer w) = (None, peer')
    \<and> (room_sessions w i = {} \<and> started = [] \<or> (\<exists>a. room_sessions w i = {a} \<and> started = [(p, a, s)]))
    \<and> w' = w\<lparr>sv_heap := (sv_heap w)(p := (sv_heap w p)\<lparr>rm_LastActivity := Some (ev_now E),
                rm_Participants := insert u (rm_Participants (sv_heap w p))\<rparr>),
             sv_peer := peer',
             sv_sessions := (sv_sessions w)(sid \<mapsto> s),
             sv_lookup := (sv_lookup w)(lookupKey i u \<mapsto> sid),
             sv_graceTimers := (\<lambda>x. if x \<in> se_ID ` room_sessions w i then None else sv_graceTimers w x),
             sv_spawned := sv_spawned w @ started\<rparr>"
proof -
  from join_effect [OF assms] obtain p s where e: "sv_repo w i = Some p" "sid = ev_uuid E" "s = NewSession sid i u lang (ev_now E)"
      "sv_repo w' = sv_repo w" "sv_sessions w' = (sv_sessions w)(sid \<mapsto> s)" "sv_lookup w' = (sv_lookup w)(lookupKey i u \<mapsto> sid)"
      "sv_heap w' = (sv_heap w)(p := (sv_heap w p)\<lparr>rm_LastActivity := Some (ev_now E),
         rm_Participants := insert u (rm_Participants (sv_heap w p))\<rparr>)"
      and spawned: "room_sessions w i = {} \<and> sv_spawned w' = sv_spawned w
       \<or> (\<exists>a. room_sessions w i = {a} \<and> sv_spawned w' = sv_spawned w @ [(p, a, s)])" by blast
  then obtain started where st: "sv_spawned w' = sv_spawned w @ started"
      "room_sessions w i = {} \<and> started = [] \<or> (\<exists>a. room_sessions w i = {a} \<and> started = [(p, a, s)])" by auto
  note rest = join_new_rest [OF service_reach_consistent [OF assms(1)] assms(2,4,5)]
  show ?thesis
    by (intro exI [of _ p] exI [of _ s] exI [of _ "sv_peer w'"] exI [of _ started] conjI e(1-3) conjunct1 [OF rest] st(2))
       (rule service.equality, use e st rest in simp_all)
qed

lemma join_run3:
  "JoinRoom example_repo quiet_peer (example_env (2 * second) ''b'') ''r'' ''bob'' ''es'' run2 = (Inr ''b'', run3)"
proof -
  have "fst (JoinRoom example_repo quiet_peer (example_env (2 * second) ''b'') ''r'' ''bob'' ''es'' run2) = Inr ''b''"
    unfolding join_fst [OF service_reach_consistent [OF reach2]]
    by (simp add: run2_sel example_sessions lookupKey_def quiet_peer_def example_env_def)
  then show ?thesis by (simp add: run3_def prod_eq_iff)
qed

theorem join_opens_a_session_witness:
  "sv_spawned run3 = [(0, alice, NewSession ''b'' ''r'' ''bob'' ''es'' (2 * second))]"
proof -
  have f: "fresh_uuid run2 (ev_uuid (example_env (2 * second) ''b''))"
    by (simp add: fresh_eval run2_sel ran_sessions del: fun_upd_apply) simp
  have n: "sv_lookup run2 (lookupKey ''r'' ''bob'') = None" by (simp add: run2_sel lookupKey_def)
  from join_opens_a_session [OF reach2 example_env_ok f join_run3 n] show ?thesis
  proof (elim exE conjE, goal_cases)
    case (1 p s peer' started)
    have "sv_spawned run3 = sv_spawned run2 @ started" using arg_cong [OF 1(6), of sv_spawned] by simp
    then show ?case using 1(1-5) by (auto simp: run2_sel example_sessions example_env_def)
  qed
qed

subsection \<open>Deleting\<close>

lemma delete_mem:
  assumes c: "consistent (sv_repo w) w" and E: "env_ok E" and p: "sv_repo w i = Some p"
    and D: "DeleteRoom (mem_repository ord) P E i w = (x, w')"
  shows "x = None \<and> sv_repo w' = (sv_repo w)(i := None)
    \<and> sv_heap w' = (sv_heap w)(p := Close (sv_heap w p))
    \<and> sv_sessions w' = map_delete (\<lambda>_ s. se_RoomID s = i \<and> se_UserID s \<noteq> []) (sv_sessions w)
    \<and> sv_pipelines w' = (sv_pipelines w)(i := None) \<and> sv_graceTimers w' = sv_graceTimers w
    \<and> sv_outbox w' = sv_outbox w \<and> sv_spawned w' = sv_spawned w"
proof -
  have ord: "enumerates (ev_ord_lookup E (sv_lookup w)) (sv_lookup w)"
    using E consistentD(2) [OF c] by (simp add: env_ok_def)
  note eff = memR.DeleteRoom_effect [OF p ord D]
  note i = rooms_soundD(3) [OF consistentD(4) [OF c] p]
  have "(\<exists>k. strict_prefix_match (i @ '':'') k \<and> sv_lookup w k = Some sid)
      \<longleftrightarrow> se_RoomID s = i \<and> se_UserID s \<noteq> []" if s: "sv_sessions w sid = Some s" for sid s
  proof
    assume "\<exists>k. strict_prefix_match (i @ '':'') k \<and> sv_lookup w k = Some sid"
    then obtain k where k: "strict_prefix_match (i @ '':'') k" "sv_lookup w k = Some sid" by blast
    with consistentD(1) [OF c] s have "k = keyOf s" by (auto elim: registeredE)
    then show "se_RoomID s = i \<and> se_UserID s \<noteq> []"
      using k prefix_of_lookupKey [OF i sessions_indexedD(3) [OF consistentD(3) [OF c] s]] by auto
  next
    assume "se_RoomID s = i \<and> se_UserID s \<noteq> []"
    then show "\<exists>k. strict_prefix_match (i @ '':'') k \<and> sv_lookup w k = Some sid"
      using prefix_of_lookupKey [OF i sessions_indexedD(3) [OF consistentD(3) [OF c] s]]
        sessions_indexedD(2) [OF consistentD(3) [OF c] s] by auto
  qed
  moreover have "sv_sessions w sid = None \<Longrightarrow> \<not> (\<exists>k. strict_prefix_match (i @ '':'') k \<and> sv_lookup w k = Some sid)" for sid
    using consistentD(1) [OF c] by (auto elim: registeredE)
  ultimately have "(\<lambda>sid. if \<exists>k. strict_prefix_match (i @ '':'') k \<and> sv_lookup w k = Some sid
      then None else sv_sessions w sid) = map_delete (\<lambda>_ s. se_RoomID s = i \<and> se_UserID s \<noteq> []) (sv_sessions w)"
    by (auto simp: map_delete_def fun_eq_iff split: option.split)
  then show ?thesis using eff by simp
qed

text \<open>
  C20: deleting a stored room succeeds and touches that room alone: it is closed and no longer found,
  its pipeline is gone, of the sessions exactly those of the room's users with a non-empty user ID
  are dropped (the session of a user with an empty ID stays), and every other room, session and pipeline and every grace timer
  stays.
\<close>

theorem delete_is_confined_to_the_room:
  assumes "service_reach ord P w" and "env_ok E" and "sv_repo w i = Some p"
    and "DeleteRoom (mem_repository ord) P E i w = (x, w')"
  shows "x = None
    \<and> RoomExists (mem_repository ord) i w'
        = Some (Wrapped ''roomsvc.RoomExists'' (Wrapped ''roomsvc.FindByID'' (Sentinel ErrRoomNotFound)))
    \<and> \<not> rm_Active (sv_heap w' p) \<and> rm_Participants (sv_heap w' p) = {} \<and> sv_pipelines w' i = None
    \<and> sv_sessions w' = map_delete (\<lambda>_ s. se_RoomID s = i \<and> se_UserID s \<noteq> []) (sv_sessions w)
    \<and> (\<forall>j. j = i \<or> sv_repo w' j = sv_repo w j \<and> sv_pipelines w' j = sv_pipelines w j)
    \<and> (\<forall>q. q = p \<or> sv_heap w' q = sv_heap w q) \<and> sv_graceTimers w' = sv_graceTimers w"
  using delete_mem [OF service_reach_consistent [OF assms(1)] assms(2-4)]
  by (auto simp: RoomExists_def mem_FindByID_def Close_def)

theorem delete_is_confined_to_the_room_witness:
  "sv_sessions (snd (DeleteRoom example_repo quiet_peer (example_env 3 ''c'') ''r'' run3)) ''a'' = None"
proof -
  have p: "sv_repo run3 ''r'' = Some 0" by (simp add: run3_sel)
  from delete_is_confined_to_the_room [OF reach3 example_env_ok p prod.collapse [symmetric], of 3 "''c''"]
  show ?thesis by (simp add: map_delete_def run3_sel)
qed

text \<open>
  The session of a user with an empty ID outlives its room: the deletion loop skips its key, and
  afterwards leaving fails with \<open>ErrRoomNotFound\<close>, before the session is removed.
\<close>

theorem empty_user_session_leaks:
  assumes "service_reach ord P w" and "env_ok E" and "sv_repo w i = Some p"
    and "sv_lookup w (lookupKey i []) = Some sid"
    and "DeleteRoom (mem_repository ord) P E i w = (x, w')"
    and "LeaveRoom (mem_repository ord) P E' i [] w' = (y, w'')"
  shows "sv_repo w' i = None \<and> sv_sessions w' sid \<noteq> None
    \<and> y = Return (Some (Wrapped ''roomsvc.LeaveRoom'' (Wrapped ''roomsvc.FindByID'' (Sentinel ErrRoomNotFound))))
    \<and> sv_sessions w'' sid \<noteq> None \<and> sv_lookup w'' = sv_lookup w'"
proof -
  have c: "consistent (sv_repo w) w" by (rule service_reach_consistent [OF assms(1)])
  have ord: "enumerates (ev_ord_lookup E (sv_lookup w)) (sv_lookup w)"
    using assms(2) consistentD(2) [OF c] by (simp add: env_ok_def)
  note i = rooms_soundD(3) [OF consistentD(4) [OF c] assms(3)]
  obtain s where s: "s \<in> room_sessions w i" "se_UserID s = []" "se_ID s = sid"
    using key_room_session [OF c i assms(4)] by blast
  note d = delete_mem [OF c assms(2,3,5)]
  have S: "sv_sessions w' sid = Some s" using d s by (auto simp: room_sessions_iff [OF c])
  have "sv_lookup w' (lookupKey i []) = Some sid"
    using memR.DeleteRoom_effect [OF assms(3) ord assms(5)] assms(4) prefix_of_lookupKey [OF i i, of "[]"] by simp
  moreover have "sv_repo w' i = None" using d by simp
  ultimately show ?thesis
    using assms(6) S by (auto simp: LeaveRoom_def mem_FindByID_def Let_def)
qed

theorem empty_user_session_leaks_witness:
  "sv_sessions (snd (LeaveRoom example_repo quiet_peer (example_env 4 ''d'') ''r'' []
     (snd (DeleteRoom example_repo quiet_peer (example_env 3 ''c'') ''r'' run_nameless)))) ''a'' \<noteq> None"
proof -
  have p: "sv_repo run_nameless ''r'' = Some 0"
    and k: "sv_lookup run_nameless (lookupKey ''r'' []) = Some ''a''"
    by (simp_all add: nameless_eq run1_eq lookupKey_def)
  from empty_user_session_leaks [OF reach_nameless example_env_ok p k
      prod.collapse [symmetric] prod.collapse [symmetric], of 3 "''c''" "example_env 4 ''d''"]
  show ?thesis by blast
qed

subsection \<open>Creating rooms, and finding them by code\<close>

lemma create_run1: "CreateRoom example_repo (example_env 0 ''r'') ''en'' ''es'' run0 = (Inr 0, run1)"
proof -
  have "fst (CreateRoom example_repo (example_env 0 ''r'') ''en'' ''es'' run0) = Inr 0"
    by (simp add: run0_eq CreateRoom_def NewRoom_def Let_def example_env_def DefaultServiceConfig_def
      numeral_eq_Suc zero_code mem_FindByShortCode_def visited_def List.map_filter_def sorted_keys_def
      mem_Save_def)
  then show ?thesis
    by (simp add: run1_def prod_eq_iff)
qed

lemma create_effect:
  assumes "service_reach ord P w" and "ord_ok ord" and "fresh_uuid w (ev_uuid E)"
    and "CreateRoom (mem_repository ord) E src tgt w = (x, w')"
  shows "case x of
      Inl e \<Rightarrow> sv_repo w' = sv_repo w
    | Inr p \<Rightarrow> sv_repo w' = (sv_repo w)(ev_uuid E \<mapsto> p) \<and> p \<notin> ran (sv_repo w)
        \<and> length src = 2 \<and> length tgt = 2
        \<and> rm_SourceLang (sv_heap w' p) = src \<and> rm_TargetLang (sv_heap w' p) = tgt
        \<and> rm_Participants (sv_heap w' p) = {} \<and> rm_Active (sv_heap w' p)
        \<and> code_shaped (rm_ShortCode (sv_heap w' p))
        \<and> (\<forall>q \<in> ran (sv_repo w). rm_ShortCode (sv_heap w' q) \<noteq> rm_ShortCode (sv_heap w' p))"
proof -
  have c: "consistent (sv_repo w) w" by (rule service_reach_consistent [OF assms(1)])
  have fin: "finite (dom (sv_repo w))"
    using service_reach_codes [OF assms(1,2)] by (simp add: codes_ok_def)
  have old: "sv_next w \<notin> ran (sv_repo w)"
    using rooms_soundD(2) [OF consistentD(4) [OF c]] by (fastforce simp: ran_def)
  then have upd: "q \<in> ran (sv_repo w) \<Longrightarrow> q \<noteq> sv_next w" for q by blast
  from CreateRoom_mem [OF assms(4)] show ?thesis
  proof (elim disjE exE conjE)
    assume "isl x" "sv_repo w' = sv_repo w"
    then show ?thesis by (auto simp: isl_def)
  next
    fix r code rd
    assume x: "x = Inr (sv_next w)" and r: "NewRoom (ev_uuid E) src tgt (ev_now E) = Inr r"
      and pick: "pickShortCode (mem_repository ord) ((sv_heap w)(sv_next w := r)) (sv_repo w)
            (nat (MaxShortCodeRetries (sv_cfg w))) rd = Inr (Some code)"
      and w': "sv_repo w' = (sv_repo w)(ev_uuid E \<mapsto> sv_next w)"
        "sv_heap w' = (sv_heap w)(sv_next w := r\<lparr>rm_ShortCode := code\<rparr>)"
    from pickShortCode_Some [OF pick assms(2) fin] show ?thesis
      using r old upd by (auto simp: x w' NewRoom_def split: if_splits)
  qed
qed

text \<open>
  C22: a successful \<open>CreateRoom\<close> stores one new room under its UUID, without participants, in the two
  languages asked for, with a six-letter code of the alphabet that no stored room has; a failing
  one stores nothing.
\<close>

theorem create_stores_one_room:
  assumes "service_reach ord P w" and "ord_ok ord" and "fresh_uuid w (ev_uuid E)"
    and "CreateRoom (mem_repository ord) E src tgt w = (x, w')"
  shows "case x of
      Inl e \<Rightarrow> sv_repo w' = sv_repo w
    | Inr p \<Rightarrow> sv_repo w' = (sv_repo w)(ev_uuid E \<mapsto> p) \<and> p \<notin> ran (sv_repo w)
        \<and> length src = 2 \<and> length tgt = 2
        \<and> rm_SourceLang (sv_heap w' p) = src \<and> rm_TargetLang (sv_heap w' p) = tgt
        \<and> rm_Participants (sv_heap w' p) = {} \<and> rm_Active (sv_heap w' p)
        \<and> code_shaped (rm_ShortCode (sv_heap w' p))
        \<and> (\<forall>q \<in> ran (sv_repo w). rm_ShortCode (sv_heap w' q) \<noteq> rm_ShortCode (sv_heap w' p))"
  by (rule create_effect [OF assms])

theorem create_stores_one_room_witness:
  "code_shaped (rm_ShortCode (sv_heap run1 0))"
proof -
  have f: "fresh_uuid run0 (ev_uuid (example_env 0 ''r''))" by (simp add: run0_eq fresh_eval)
  from create_stores_one_room [OF reach0 ord_ok_sorted f create_run1] show ?thesis by simp
qed

lemma code_lookup:
  assumes "service_reach ord P w" and "ord_ok ord" and "sv_repo w i = Some p"
  shows "svc_FindByShortCode (mem_repository ord) code w = Inr p
    \<longleftrightarrow> ToUpper code = rm_ShortCode (sv_heap w p)"
proof -
  have k: "codes_ok (sv_heap w) (sv_repo w)" by (rule service_reach_codes [OF assms(1,2)])
  have en: "enumerates (ord (sv_repo w)) (sv_repo w)" using k assms(2) by (simp add: ord_ok_def codes_ok_def)
  have p: "p \<in> ran (sv_repo w)" using assms(3) by (auto simp: ran_def)
  have "mem_FindByShortCode (ord (sv_repo w)) code (sv_heap w) (sv_repo w) = Inr p
      \<longleftrightarrow> rm_ShortCode (sv_heap w p) = ToUpper code"
  proof
    assume "rm_ShortCode (sv_heap w p) = ToUpper code"
    then show "mem_FindByShortCode (ord (sv_repo w)) code (sv_heap w) (sv_repo w) = Inr p"
      using mem_FindByShortCode_unique [OF en _ p] k by (simp add: codes_ok_def)
  qed (use mem_FindByShortCode_Inr [OF en] in blast)
  moreover have "svc_FindByShortCode (mem_repository ord) code w = Inr p
      \<longleftrightarrow> mem_FindByShortCode (ord (sv_repo w)) code (sv_heap w) (sv_repo w) = Inr p"
    by (simp add: svc_FindByShortCode_def split: sum.split)
  ultimately show ?thesis by (simp add: eq_commute)
qed

text \<open>The code of a room that has been deleted finds nothing.\<close>

lemma deleted_code:
  assumes "service_reach ord P w" and "ord_ok ord" and "env_ok E" and "sv_repo w i = Some p"
    and "DeleteRoom (mem_repository ord) P E i w = (x, w')" and "ToUpper code = rm_ShortCode (sv_heap w p)"
  shows "svc_FindByShortCode (mem_repository ord) code w'
    = Inl (Wrapped ''roomsvc.FindByShortCode'' (Wrapped ''roomsvc.FindByShortCode'' (Sentinel ErrRoomNotFound)))"
proof -
  have c: "consistent (sv_repo w) w" by (rule service_reach_consistent [OF assms(1)])
  have k: "codes_ok (sv_heap w) (sv_repo w)" by (rule service_reach_codes [OF assms(1,2)])
  note d = delete_mem [OF c assms(3-5)]
  have en: "enumerates (ord (sv_repo w')) (sv_repo w')" using d k assms(2) by (simp add: ord_ok_def codes_ok_def)
  show ?thesis
  proof (cases "mem_FindByShortCode (ord (sv_repo w')) code (sv_heap w') (sv_repo w')")
    case (Inl e)
    then show ?thesis by (auto simp: svc_FindByShortCode_def mem_FindByShortCode_def Let_def split: option.splits)
  next
    case (Inr q)
    from mem_FindByShortCode_Inr [OF en Inr] d obtain j
      where q: "j \<noteq> i" "sv_repo w j = Some q" "rm_ShortCode (sv_heap w' q) = ToUpper code"
      by (auto simp: ran_def split: if_splits)
    have "q \<noteq> p" using rooms_sound_inj [OF consistentD(4) [OF c] assms(4), of j] q by auto
    moreover have "q \<in> ran (sv_repo w)" "p \<in> ran (sv_repo w)" using q(2) assms(4) by (auto simp: ran_def)
    ultimately have False using k q(3) d assms(6) by (auto simp: codes_ok_def codes_unique_def inj_on_def)
    then show ?thesis ..
  qed
qed

text \<open>
  C25: in a state that whole calls reach, a stored room is what \<open>FindByShortCode\<close> finds for an ASCII code exactly when its
  own code is that code in upper case, whatever order the repository is searched in: codes are
  case-insensitive and identify the room.
\<close>

theorem code_finds_its_room:
  assumes "service_reach ord P w" and "ord_ok ord" and "sv_repo w i = Some p" and "\<forall>c \<in> set code. of_char c < (128 :: nat)"
  shows "svc_FindByShortCode (mem_repository ord) code w = Inr p
    \<longleftrightarrow> ToUpper code = rm_ShortCode (sv_heap w p)"
  by (rule code_lookup [OF assms(1-3)])

theorem code_finds_its_room_witness:
  "svc_FindByShortCode example_repo ''aaAAaA'' run3 = Inr 0"
proof -
  have p: "sv_repo run3 ''r'' = Some 0" by (simp add: run3_sel)
  show ?thesis
    by (rule code_finds_its_room [OF reach3 ord_ok_sorted p, THEN iffD2]) (simp, unfold run3_sel example_room_sel, code_simp)
qed

text \<open>The codes the retry loop generates from the bytes of its reader.\<close>

fun code_attempts :: "nat \<Rightarrow> 8 word list \<Rightarrow> string list" where
  "code_attempts 0 bs = []"
| "code_attempts (Suc n) bs = map code_char (take 6 bs) # code_attempts n (drop 6 bs)"

text \<open>
  While random bytes last, the retry loop takes the first of its attempts that no stored room
  has, and reports exhaustion exactly when all of them are taken.
\<close>

theorem retry_takes_the_first_free_code:
  assumes "ord_ok ord" and "finite (dom r)" and "6 * n \<le> length (rd_bytes rd)"
  shows "pickShortCode (mem_repository ord) h r n rd
    = Inr (List.find (\<lambda>c. c \<notin> (\<lambda>p. rm_ShortCode (h p)) ` ran r) (code_attempts n (rd_bytes rd)))"
  using assms(3)
proof (induction n arbitrary: rd)
  case (Suc n)
  have en: "enumerates (ord r) r" using assms(1,2) by (simp add: ord_ok_def)
  let ?c = "map code_char (take 6 (rd_bytes rd))"
  have g: "GenerateShortCode rd = (Inr ?c, rd\<lparr>rd_bytes := drop 6 (rd_bytes rd)\<rparr>)"
    using Suc.prems by (simp add: GenerateShortCode_def ReadFull_def shortCodeLen_def)
  have up: "ToUpper ?c = ?c" by (rule ToUpper_code) (auto simp: code_char_in_alphabet)
  have ih: "pickShortCode (mem_repository ord) h r n (rd\<lparr>rd_bytes := drop 6 (rd_bytes rd)\<rparr>)
    = Inr (List.find (\<lambda>c. c \<notin> (\<lambda>p. rm_ShortCode (h p)) ` ran r) (code_attempts n (drop 6 (rd_bytes rd))))"
    using Suc.IH [of "rd\<lparr>rd_bytes := drop 6 (rd_bytes rd)\<rparr>"] Suc.prems by simp
  show ?case
  proof (cases "mem_FindByShortCode (ord r) ?c h r")
    case (Inl e)
    then show ?thesis using mem_FindByShortCode_Inl [OF en Inl] by (auto simp: g up)
  next
    case (Inr q)
    with mem_FindByShortCode_Inr [OF en Inr] have "?c \<in> (\<lambda>p. rm_ShortCode (h p)) ` ran r"
      by (auto simp: up intro: rev_image_eqI)
    with Inr show ?thesis by (simp add: g ih)
  qed
qed simp

theorem retry_takes_the_first_free_code_witness:
  "pickShortCode example_repo empty_heap (\<lambda>_. None) 1 zero_reader = Inr (Some ''AAAAAA'')"
  using retry_takes_the_first_free_code [OF ord_ok_sorted, of "\<lambda>_. None" 1 zero_reader empty_heap]
  by (simp add: zero_reader_def code_char_def shortCodeAlphabet_def)

subsection \<open>The expiration sweep\<close>

lemma sweepLoop_repo:
  assumes "consistent (sv_repo w) w" and "env_ok E"
    and "\<forall>p \<in> set ps. sv_repo w (rm_ID (sv_heap w p)) \<in> {None, Some p}"
  shows "sv_repo (sweepLoop (mem_repository ord) P E ps w)
    = (\<lambda>i. if \<exists>p \<in> set ps. rm_ID (sv_heap w p) = i then None else sv_repo w i)"
  using assms(1,3)
proof (induction ps arbitrary: w)
  case (Cons p ps)
  let ?i = "rm_ID (sv_heap w p)"
  obtain x w1 where D: "DeleteRoom (mem_repository ord) P E ?i w = (x, w1)" by fastforce
  have ord: "enumerates (ev_ord_lookup E (sv_lookup w)) (sv_lookup w)"
    using assms(2) consistentD(2) [OF Cons.prems(1)] by (simp add: env_ok_def)
  have c1: "consistent (sv_repo w1) w1" by (rule memR.consistent_DeleteRoom [OF Cons.prems(1) ord D])
  have eff: "sv_repo w1 = (sv_repo w)(?i := None)" "rm_ID (sv_heap w1 q) = rm_ID (sv_heap w q)" for q
  proof -
    show "sv_repo w1 = (sv_repo w)(?i := None)"
      using delete_mem [OF Cons.prems(1) assms(2) _ D] memR.DeleteRoom_absent [of w ?i ord P E] D
      by (cases "sv_repo w ?i") (auto simp: fun_upd_idem)
    show "rm_ID (sv_heap w1 q) = rm_ID (sv_heap w q)"
      using delete_mem [OF Cons.prems(1) assms(2) _ D] memR.DeleteRoom_absent [of w ?i ord P E] D Cons.prems(2)
      by (cases "sv_repo w ?i") (auto simp: Close_def)
  qed
  have "\<forall>q \<in> set ps. sv_repo w1 (rm_ID (sv_heap w1 q)) \<in> {None, Some q}"
    using Cons.prems(2) by (auto simp: eff)
  from Cons.IH [OF c1 this] show ?case by (auto simp: D eff fun_eq_iff)
qed simp

lemma sweep_repo:
  assumes r: "service_reach ord P w" and E: "env_ok E" and o: "ord_ok ord"
  shows "sv_repo (sweepExpiredRooms (mem_repository ord) P E w)
    = map_delete (\<lambda>_ p. expired (ev_now E - RoomTTL (sv_cfg w)) (sv_heap w p)) (sv_repo w)"
proof -
  have c: "consistent (sv_repo w) w" by (rule service_reach_consistent [OF r])
  let ?t = "ev_now E - RoomTTL (sv_cfg w)"
  have en: "enumerates (ord (sv_repo w)) (sv_repo w)"
    using service_reach_codes [OF r o] o by (simp add: ord_ok_def codes_ok_def)
  define ps where "ps = filter (\<lambda>p. expired ?t (sv_heap w p)) (visited (ord (sv_repo w)) (sv_repo w))"
  have ps: "set ps = {p \<in> ran (sv_repo w). expired ?t (sv_heap w p)}" by (auto simp: ps_def set_visited [OF en])
  have id: "rm_ID (sv_heap w p) = i" if "sv_repo w i = Some p" for i p
    by (rule rooms_soundD(1) [OF consistentD(4) [OF c] that])
  have "\<forall>p \<in> set ps. sv_repo w (rm_ID (sv_heap w p)) \<in> {None, Some p}" using id by (auto simp: ps ran_def)
  from sweepLoop_repo [OF c E this, of ord P] show ?thesis
    using id
    by (auto simp: sweepExpiredRooms_def mem_ListExpired_def ps_def [symmetric] ps map_delete_def ran_def
        fun_eq_iff split: option.split)
qed

text \<open>
  C23: a sweep deletes exactly the stored rooms whose last activity is further back than the room TTL;
  a room nobody ever joined has no last activity and is never deleted by it.
\<close>

theorem sweep_deletes_exactly_the_expired:
  assumes "service_reach ord P w" and "env_ok E" and "ord_ok ord"
  shows "sv_repo (sweepExpiredRooms (mem_repository ord) P E w) i =
    (case sv_repo w i of
       None \<Rightarrow> None
     | Some p \<Rightarrow> (case rm_LastActivity (sv_heap w p) of
           None \<Rightarrow> Some p
         | Some t \<Rightarrow> if t + RoomTTL (sv_cfg w) < ev_now E then None else Some p))"
  by (auto simp: sweep_repo [OF assms] map_delete_def expired_def split: option.split)

theorem sweep_deletes_exactly_the_expired_witness:
  "sv_repo (sweepExpiredRooms example_repo quiet_peer (example_env (603 * second) ''c'') run3) ''r'' = None"
  unfolding sweep_deletes_exactly_the_expired [OF reach3 example_env_ok ord_ok_sorted]
  by (simp add: run3_sel DefaultServiceConfig_def example_env_def)

text \<open>The goroutine sweeps at each tick, in order, until its context is done, and never after that.\<close>

lemma sweeps_until_cancelled:
  "sweepRounds R P (map SweepTick Es @ SweepDone # ss) w = (fold (sweepExpiredRooms R P) Es w, True)"
  by (induction Es arbitrary: w) simp_all

text \<open>
  A stretch of a run in which nobody joins and nobody calls \<open>UpdateLastActivity\<close>: transcripts,
  signaling, pipelines, disconnects and all else go on.
\<close>

inductive without_joins ::
  "(mem_repo \<Rightarrow> string list) \<Rightarrow> 'p webrtc_peer \<Rightarrow> (mem_repo, 'p) service \<Rightarrow> (mem_repo, 'p) service \<Rightarrow> bool"
  for ord P w where
  none: "without_joins ord P w w"
| more: "without_joins ord P w v \<Longrightarrow> env_ok E \<Longrightarrow> fresh_uuid v (ev_uuid E) \<Longrightarrow> \<not> is_activity k
    \<Longrightarrow> without_joins ord P w (perform (mem_repository ord) P E k v)"

lemma without_joins_reach: "without_joins ord P w v \<Longrightarrow> service_reach ord P w \<Longrightarrow> service_reach ord P v"
  by (induction rule: without_joins.induct) (auto intro: service_reach.call)

lemma CreateRoom_cfg: "sv_cfg (snd (CreateRoom R E s t w)) = sv_cfg w"
  by (auto simp: CreateRoom_def Let_def split: sum.splits option.splits prod.splits)

lemma without_joins_activity:
  assumes "without_joins ord P w v" and r: "service_reach ord P w" and "sv_repo w i = Some p"
  shows "sv_cfg v = sv_cfg w \<and> rm_LastActivity (sv_heap v p) = rm_LastActivity (sv_heap w p)
    \<and> p < sv_next v"
  using assms(1)
proof (induction rule: without_joins.induct)
  case none
  then show ?case
    using rooms_soundD(2) [OF consistentD(4) [OF service_reach_consistent [OF r]] assms(3)] by simp
next
  case (more v E k)
  have c: "consistent (sv_repo v) v"
    by (rule service_reach_consistent [OF without_joins_reach [OF more(1) r]])
  show ?case
  proof (cases "is_create k")
    case True
    then obtain s t where k: "k = CallCreate s t" by (cases k) auto
    show ?thesis
      using CreateRoom_frame [OF prod.collapse, of "mem_repository ord" E s t v] more(5)
        CreateRoom_cfg [of "mem_repository ord" E s t v] by (auto simp: k)
  next
    case False
    have "evolves False v (perform (mem_repository ord) P E k v)"
      using evolves_perform [OF c more(2) False] more(4) by simp
    then show ?thesis using more(5) by (auto simp: evolves_def)
  qed
qed

text \<open>
  Only a join counts as activity: however much is said and signalled in a room after the last
  join, the first sweep more than the room TTL after that join deletes the room, with its
  participants in it.
\<close>

theorem busy_room_is_swept:
  assumes "service_reach ord P w" and "ord_ok ord" and "sv_repo w i = Some p"
    and "rm_LastActivity (sv_heap w p) = Some t" and "without_joins ord P w v"
    and "env_ok E" and "t + RoomTTL (sv_cfg w) < ev_now E" and "sv_repo v i = Some p"
  shows "sv_repo (sweepExpiredRooms (mem_repository ord) P E v) i = None"
  using without_joins_activity [OF assms(5,1,3)] assms(4,7,8)
  by (simp add: sweep_repo [OF without_joins_reach [OF assms(5,1)] assms(6,2)] map_delete_def expired_def)

theorem busy_room_is_swept_witness:
  "sv_repo (sweepExpiredRooms example_repo quiet_peer (example_env (603 * second) ''d'')
     (forwardTranscripts ''b'' [''hello''] run3)) ''r'' = None"
proof -
  have r: "sv_repo run3 ''r'' = Some 0" "rm_LastActivity (sv_heap run3 0) = Some (2 * second)"
    by (simp_all add: run3_sel)
  have f: "fresh_uuid run3 (ev_uuid (example_env (602 * second) ''c''))"
    by (simp add: fresh_eval run3_sel ran_sessions del: fun_upd_apply) simp
  have wj: "without_joins sorted_keys quiet_peer run3 (forwardTranscripts ''b'' [''hello''] run3)"
    using without_joins.more [OF without_joins.none example_env_ok f, of "CallTranscripts ''b'' [''hello'']"] by simp
  show ?thesis
    by (rule busy_room_is_swept [OF reach3 ord_ok_sorted r wj example_env_ok])
       (simp_all add: run3_sel DefaultServiceConfig_def example_env_def frame_simps)
qed

subsection \<open>Disconnection and the grace period\<close>

text \<open>
  A dropped connection of a live session starts one grace timer, due after the grace period and
  for that session's room; dropping again while it runs changes nothing, nor does dropping an
  unknown or empty session, and no drop touches rooms, sessions, pipelines or notifications.
\<close>

theorem disconnect_starts_one_timer:
  "OnDisconnect E' sid (OnDisconnect E sid w) = OnDisconnect E sid w
    \<and> sv_graceTimers (OnDisconnect E sid w) =
      (case sv_sessions w sid of
         None \<Rightarrow> sv_graceTimers w
       | Some s \<Rightarrow>
           if sid = [] then sv_graceTimers w
           else if sv_graceTimers w sid = None
           then (sv_graceTimers w)(sid \<mapsto> \<lparr>gt_roomID = se_RoomID s, gt_sess = s,
                  gt_deadline = ev_now E + GracePeriod (sv_cfg w)\<rparr>)
           else sv_graceTimers w)
    \<and> sv_sessions (OnDisconnect E sid w) = sv_sessions w \<and> sv_repo (OnDisconnect E sid w) = sv_repo w
    \<and> sv_heap (OnDisconnect E sid w) = sv_heap w \<and> sv_pipelines (OnDisconnect E sid w) = sv_pipelines w
    \<and> sv_outbox (OnDisconnect E sid w) = sv_outbox w"
  by (auto simp: OnDisconnect_def split: option.split)

lemma graceTimerFires_mem:
  assumes c: "consistent (sv_repo w) w" and "env_ok E" and "w' = graceTimerFires (mem_repository ord) P E sid t w"
  shows "sv_repo w' (gt_roomID t) = None
    \<and> (\<forall>s \<in> room_sessions w' (gt_roomID t). se_UserID s = [] \<or> sv_repo w (gt_roomID t) = None)
    \<and> sv_graceTimers w' sid = None
    \<and> sv_outbox w' = sv_outbox w @
        [\<lparr>nt_SessionID = sid, nt_Type = ''room-closed'', nt_Fields = [(''reason'', ''peer-timeout'')]\<rparr>]
    \<and> sv_sessions w' \<subseteq>\<^sub>m sv_sessions w"
proof -
  let ?i = "gt_roomID t"
  define w1 where "w1 = w\<lparr>sv_graceTimers := (sv_graceTimers w)(sid := None),
     sv_events := sv_events w @ [SessionEnd sid ?i (se_UserID (gt_sess t))
                       (duration_sec E (gt_sess t)) ''timeout'']\<rparr>"
  have c1: "consistent (sv_repo w1) w1" using c by (simp add: w1_def consistent_def)
  obtain x w2 where D: "DeleteRoom (mem_repository ord) P E ?i w1 = (x, w2)" by fastforce
  have w': "w' = NotifySession sid ''room-closed'' [(''reason'', ''peer-timeout'')] w2"
    using assms(3) D by (simp add: graceTimerFires_def Let_def w1_def)
  show ?thesis
  proof (cases "sv_repo w1 ?i")
    case None
    then have "w2 = w1" using memR.DeleteRoom_absent [of w1 ?i ord P E] D by auto
    then show ?thesis using None by (auto simp: w' frame_simps w1_def)
  next
    case (Some p)
    from delete_mem [OF c1 assms(2) Some D] show ?thesis
      by (auto simp: w' frame_simps w1_def room_sessions_def ran_def map_le_def map_delete_def split: option.splits if_splits)
  qed
qed

lemma timer_mem:
  assumes c: "consistent (sv_repo w) w" and "env_ok E" and "sv_graceTimers w sid = Some t"
    and "gt_deadline t \<le> ev_now E" and "w' = runTimer (mem_repository ord) P E sid w"
  shows "sv_repo w' (gt_roomID t) = None
    \<and> (\<forall>s \<in> room_sessions w' (gt_roomID t). se_UserID s = [] \<or> sv_repo w (gt_roomID t) = None)
    \<and> sv_graceTimers w' sid = None
    \<and> sv_outbox w' = sv_outbox w @
        [\<lparr>nt_SessionID = sid, nt_Type = ''room-closed'', nt_Fields = [(''reason'', ''peer-timeout'')]\<rparr>]"
  using graceTimerFires_mem [OF c assms(2), of w' ord P sid t] assms(3-5) by (simp add: runTimer_def)

text \<open>
  C10: in a state that whole calls reach, let the function of a session's grace timer run without interruption once the timer is
  due: the timer is forgotten and its room is no longer stored; if the room was still stored, of the sessions of the room
  only one of a user with an empty ID can remain; and exactly one notification is sent, \<open>room-closed\<close> to the session that had
  disconnected, none to the peer who was still connected.
\<close>

theorem timer_closes_room_and_tells_only_the_dropped:
  assumes "service_reach ord P w" and "env_ok E" and "sv_graceTimers w sid = Some t"
    and "gt_deadline t \<le> ev_now E" and "w' = runTimer (mem_repository ord) P E sid w"
  shows "sv_repo w' (gt_roomID t) = None
    \<and> (\<forall>s \<in> room_sessions w' (gt_roomID t). se_UserID s = [] \<or> sv_repo w (gt_roomID t) = None)
    \<and> sv_graceTimers w' sid = None
    \<and> sv_outbox w' = sv_outbox w @
        [\<lparr>nt_SessionID = sid, nt_Type = ''room-closed'', nt_Fields = [(''reason'', ''peer-timeout'')]\<rparr>]"
  by (rule timer_mem [OF service_reach_consistent [OF assms(1)] assms(2-5)])

definition dropped_run :: "(mem_repo, unit) service" where
  "dropped_run = perform example_repo quiet_peer (example_env (3 * second) ''c'') (CallDrop ''a'') run3"

lemma run3_fresh: "uuid \<notin> {[], ''a'', ''b'', ''r''} \<Longrightarrow> CHR '':'' \<notin> set uuid \<Longrightarrow> fresh_uuid run3 (ev_uuid (example_env t uuid))"
  by (simp add: fresh_eval run3_sel ran_sessions del: fun_upd_apply) auto

lemma dropped_reach: "service_reach sorted_keys quiet_peer dropped_run"
  unfolding dropped_run_def
  by (rule service_reach.call [OF reach3 example_env_ok]) (simp add: run3_fresh)

lemma dropped_eq: "dropped_run = run3\<lparr>sv_events := sv_events run3 @ [SessionEnd ''a'' ''r'' ''alice'' 2 ''disconnect''],
    sv_graceTimers := [''a'' \<mapsto> \<lparr>gt_roomID = ''r'', gt_sess = alice, gt_deadline = 33 * second\<rparr>]\<rparr>"
  by (simp add: dropped_run_def OnDisconnect_def run3_sel duration_sec_def whole_seconds_def example_env_def
      DefaultServiceConfig_def alice_def NewSession_def)

theorem timer_closes_room_and_tells_only_the_dropped_witness:
  "sv_repo (runTimer example_repo quiet_peer (example_env (33 * second) ''d'') ''a'' dropped_run) ''r'' = None"
proof -
  have t: "sv_graceTimers dropped_run ''a''
      = Some \<lparr>gt_roomID = ''r'', gt_sess = alice, gt_deadline = 33 * second\<rparr>" by (simp add: dropped_eq)
  from timer_closes_room_and_tells_only_the_dropped [OF dropped_reach example_env_ok t _ refl,
      of "33 * second" "''d''"] show ?thesis by (simp add: example_env_def)
qed

lemma LeaveRoom_timers: "sv_graceTimers (snd (LeaveRoom R P E i u w)) = sv_graceTimers w"
  by (auto simp: LeaveRoom_def Let_def frame_simps split: sum.splits option.splits prod.splits)

lemma openSession_timers: "sv_graceTimers (snd (openSession R P E p b i u lang w)) = sv_graceTimers w"
  by (auto simp: openSession_def Let_def split: prod.splits option.splits)

lemma JoinRoom_timers:
  "sv_graceTimers (snd (JoinRoom R P E i u lang w)) \<in>
     {sv_graceTimers w, sv_graceTimers (cancelGraceTimersForRoom E i w)}"
  by (auto simp: JoinRoom_def Let_def openSession_timers cancelGraceTimersForRoom_def
      split: sum.splits option.splits)

text \<open>
  Leaving does not stop the grace timer of the session that leaves, and no later join can, since
  joins look for timers of live sessions only: when it fires it deletes the room under whoever has
  joined in the meantime.
\<close>

theorem stale_timer_survives_joins:
  assumes "service_reach ord P w" and "env_ok E" and "fresh_uuid w (ev_uuid E)"
    and "sv_graceTimers w sid = Some t" and "sv_sessions w sid = None"
    and "w' = snd (JoinRoom (mem_repository ord) P E i u lang w)"
    and "env_ok E'" and "gt_deadline t \<le> ev_now E'"
  shows "sv_graceTimers w' sid = Some t
    \<and> sv_repo (runTimer (mem_repository ord) P E' sid w') (gt_roomID t) = None"
proof -
  have c: "consistent (sv_repo w) w" by (rule service_reach_consistent [OF assms(1)])
  have live: "sid \<notin> se_ID ` room_sessions w i"
    using assms(5) by (auto simp: room_sessions_iff [OF c])
  have t: "sv_graceTimers w' sid = Some t"
    using JoinRoom_timers [of "mem_repository ord" P E i u lang w] assms(4,6) live
    by (auto simp: cancelGrace_timers [OF c assms(2)])
  have "service_reach ord P w'"
    using service_reach.call [OF assms(1-3), of "CallJoin i u lang"] assms(6) by simp
  then have c': "consistent (sv_repo w') w'" by (rule service_reach_consistent)
  show ?thesis using t timer_mem [OF c' assms(7) t assms(8) refl] by simp
qed

text \<open>Alice's connection drops, she leaves, and Carol takes her place.\<close>

definition left_run :: "(mem_repo, unit) service" where
  "left_run = perform example_repo quiet_peer (example_env (4 * second) ''c'') (CallLeave ''r'' ''alice'') dropped_run"

lemma dropped_fresh: "fresh_uuid dropped_run (ev_uuid (example_env t ''c''))"
  using run3_fresh [of "''c''" t] by (simp add: fresh_uuid_def fresh_room_id_def dropped_eq)

lemma left_reach: "service_reach sorted_keys quiet_peer left_run"
  unfolding left_run_def by (rule service_reach.call [OF dropped_reach example_env_ok dropped_fresh])

lemma left_sel:
  "sv_sessions left_run = [''b'' \<mapsto> bob]" "sv_repo left_run = [''r'' \<mapsto> 0]"
  "sv_graceTimers left_run ''a'' = Some \<lparr>gt_roomID = ''r'', gt_sess = alice, gt_deadline = 33 * second\<rparr>"
  by (simp_all add: left_run_def LeaveRoom_timers)
     (simp_all add: dropped_eq run3_sel LeaveRoom_def lookupKey_def Let_def mem_FindByID_def Leave_def
       mem_Save_def frame_simps fun_upd_twist)

theorem stale_timer_survives_joins_witness:
  "sv_repo (runTimer example_repo quiet_peer (example_env (33 * second) ''e'') ''a''
     (snd (JoinRoom example_repo quiet_peer (example_env (5 * second) ''d'') ''r'' ''carol'' ''en'' left_run))) ''r'' = None"
proof -
  have f: "fresh_uuid left_run (ev_uuid (example_env (5 * second) ''d''))"
    by (simp add: fresh_eval left_sel)
  have s: "sv_sessions left_run ''a'' = None" by (simp add: left_sel)
  from stale_timer_survives_joins [OF left_reach example_env_ok f left_sel(3) s refl example_env_ok,
      of "33 * second" "''e''"] show ?thesis by (simp add: example_env_def)
qed

subsection \<open>Names\<close>

lemma JoinRoom_outbox: "sv_outbox (snd (JoinRoom R P E i u lang w)) = sv_outbox w"
  by (auto simp: JoinRoom_def openSession_def Let_def frame_simps split: sum.splits option.splits prod.splits)

text \<open>
  The answer to a first join names the other participant, if there is one, and the other
  participant is told the new one's name; the new session carries that name.  Without another
  session nobody is notified.
\<close>

theorem join_relays_names:
  assumes "service_reach ord P w" and "env_ok E" and "fresh_uuid w (ev_uuid E)"
    and "fst (JoinRoom (mem_repository ord) P E (msg_RoomID m) (msg_UserID m) (msg_Lang m) w) = Inr sid"
    and "sv_lookup w (lookupKey (msg_RoomID m) (msg_UserID m)) = None"
    and "handleJoin (mem_repository ord) P E m w = (resp, w')"
  shows "msg_Type resp = ''joined'' \<and> msg_SessionID resp = sid \<and> msg_RoomID resp = msg_RoomID m
    \<and> map_option se_Name (sv_sessions w' sid) = Some (msg_Name m)
    \<and> (room_sessions w (msg_RoomID m) = {} \<and> msg_Name resp = [] \<and> sv_outbox w' = sv_outbox w
       \<or> (\<exists>a. room_sessions w (msg_RoomID m) = {a} \<and> msg_Name resp = se_Name a
            \<and> sv_outbox w' = sv_outbox w @ (if se_ID a = [] then [] else
                [\<lparr>nt_SessionID = se_ID a, nt_Type = ''peer-joined'', nt_Fields = [(''name'', msg_Name m)]\<rparr>])))"
proof -
  let ?i = "msg_RoomID m" and ?u = "msg_UserID m"
  obtain w1 where J: "JoinRoom (mem_repository ord) P E ?i ?u (msg_Lang m) w = (Inr sid, w1)"
    using assms(4) by (metis prod.collapse)
  from join_effect [OF assms(1-3) J assms(5)] obtain p
    where eff: "sv_sessions w1 = (sv_sessions w)(sid \<mapsto> NewSession sid ?i ?u (msg_Lang m) (ev_now E))"
      "sid = ev_uuid E" and one: "room_sessions w ?i = {} \<or> (\<exists>a. room_sessions w ?i = {a})"
    by blast
  have c: "consistent (sv_repo w) w" by (rule service_reach_consistent [OF assms(1)])
  have fresh: "sv_sessions w sid = None" using assms(3) eff(2) by (simp add: fresh_uuid_def)
  have c1: "consistent (sv_repo w1) w1"
    using memR.consistent_JoinRoom [OF c _ J] fresh eff(2) by simp
  let ?s = "(NewSession sid ?i ?u (msg_Lang m) (ev_now E))\<lparr>se_Name := msg_Name m\<rparr>"
  let ?w2 = "w1\<lparr>sv_sessions := (sv_sessions w1)(sid \<mapsto> ?s)\<rparr>"
  have c2: "consistent (sv_repo w1) ?w2"
    by (rule consistent_sessions_update [OF c1, of sid "NewSession sid ?i ?u (msg_Lang m) (ev_now E)"])
       (simp_all add: eff(1))
  have "room_sessions ?w2 ?i = insert ?s (room_sessions w ?i)"
    using ran_map_upd [where m = "sv_sessions w", of sid ?s] fresh by (auto simp: room_sessions_def eff(1))
  then have xs: "set (sessionsInRoom E ?i (sv_sessions ?w2)) = insert ?s (room_sessions w ?i)"
    using set_sessionsInRoom [OF c2 assms(2)] by simp
  have old: "\<forall>a \<in> room_sessions w ?i. se_ID a \<noteq> se_ID ?s"
    using fresh by (auto simp: room_sessions_iff [OF c])
  have empty: "List.find (\<lambda>s. se_ID s \<noteq> sid) (sessionsInRoom E ?i (sv_sessions ?w2)) = None"
    if "room_sessions w ?i = {}" using xs that by (auto simp: find_None_iff)
  have peer: "List.find (\<lambda>s. se_ID s \<noteq> sid) (sessionsInRoom E ?i (sv_sessions ?w2)) = Some a"
    if "room_sessions w ?i = {a}" for a using find_other [OF xs old that] by simp
  have out: "sv_outbox w1 = sv_outbox w" using JoinRoom_outbox [of _ P E ?i ?u "msg_Lang m" w] J by (metis snd_conv)
  from one show ?thesis
  proof (elim disjE exE)
    assume r: "room_sessions w ?i = {}"
    show ?thesis
      using assms(6) empty [OF r] r out eff(1)
      by (auto simp: handleJoin_def J Let_def empty_message_def)
  next
    fix a
    assume r: "room_sessions w ?i = {a}"
    show ?thesis
      using assms(6) peer [OF r] r out eff(1)
      by (auto simp: handleJoin_def J Let_def empty_message_def frame_simps)
  qed
qed

theorem join_relays_names_witness:
  "sv_outbox (snd (handleJoin example_repo quiet_peer (example_env (2 * second) ''b'')
     (empty_message\<lparr>msg_RoomID := ''r'', msg_UserID := ''bob'', msg_Lang := ''es'', msg_Name := ''Bob''\<rparr>) run2))
   = [\<lparr>nt_SessionID = ''a'', nt_Type = ''peer-joined'', nt_Fields = [(''name'', ''Bob'')]\<rparr>]"
proof -
  let ?m = "empty_message\<lparr>msg_RoomID := ''r'', msg_UserID := ''bob'', msg_Lang := ''es'', msg_Name := ''Bob''\<rparr>"
  have f: "fresh_uuid run2 (ev_uuid (example_env (2 * second) ''b''))"
    by (simp add: fresh_eval run2_sel ran_sessions del: fun_upd_apply) simp
  have j: "fst (JoinRoom example_repo quiet_peer (example_env (2 * second) ''b'') (msg_RoomID ?m) (msg_UserID ?m)
      (msg_Lang ?m) run2) = Inr ''b''" using join_run3 by simp
  have n: "sv_lookup run2 (lookupKey (msg_RoomID ?m) (msg_UserID ?m)) = None" by (simp add: run2_sel lookupKey_def)
  from join_relays_names [OF reach2 example_env_ok f j n prod.collapse [symmetric]] show ?thesis
    by (auto simp: example_sessions run2_sel)
qed

end
