(* ===== verification/Room_Abstraction.thy ===== *)
theory Room_Abstraction
  imports Service_Properties
begin

section \<open>What the service promises about its rooms\<close>

text \<open>
  The contract of the room service, without sessions, pipelines, timers, heap or repository: a map
  from room IDs to the sets of users in the rooms, and one clause per way a call may change it.  The
  abstraction \<open>occupancy\<close> reads the map off the repository and the shared room objects; every call of
  the assembled service is a step of the contract.
\<close>

type_synonym occupancy = "string \<rightharpoonup> string set"

definition occupancy :: "(mem_repo, 'p) service \<Rightarrow> occupancy" where
  "occupancy w = (\<lambda>i. map_option (\<lambda>p. rm_Participants (sv_heap w p)) (sv_repo w i))"

fun asks_join :: "service_call \<Rightarrow> string \<Rightarrow> string \<Rightarrow> bool" where
  "asks_join (CallJoin i u lang) j v = (i = j \<and> u = v)"
| "asks_join (CallSignal m) j v = (msg_Type m = ''join'' \<and> msg_RoomID m = j \<and> msg_UserID m = v)"
| "asks_join _ j v = False"

fun asks_leave :: "service_call \<Rightarrow> string \<Rightarrow> string \<Rightarrow> bool" where
  "asks_leave (CallLeave i u) j v = (i = j \<and> u = v)"
| "asks_leave (CallSignal m) j v = (msg_Type m = ''leave'')"
| "asks_leave _ j v = False"

inductive occupancy_step :: "service_call \<Rightarrow> occupancy \<Rightarrow> occupancy \<Rightarrow> bool" where
  unchanged: "occupancy_step k S S"
| created: "S i = None \<Longrightarrow> occupancy_step (CallCreate src tgt) S (S(i \<mapsto> {}))"
| joined: "asks_join k i u \<Longrightarrow> S i = Some A \<Longrightarrow> u \<notin> A \<Longrightarrow> card A < 2 \<Longrightarrow>
    occupancy_step k S (S(i \<mapsto> insert u A))"
| left_room: "asks_leave k i u \<Longrightarrow> S i = Some A \<Longrightarrow> u \<in> A \<Longrightarrow> occupancy_step k S (S(i \<mapsto> A - {u}))"
| deleted: "occupancy_step (CallDelete i) S (S(i := None))"
| timed_out: "occupancy_step (CallTimer sid) S (S(i := None))"
| swept: "occupancy_step CallSweep S (S |` D)"

inductive_cases occupancy_step_dropE: "occupancy_step (CallDrop sid) S S'"

inductive occupancy_reach :: "occupancy \<Rightarrow> bool" where
  start: "occupancy_reach Map.empty"
| step: "occupancy_reach S \<Longrightarrow> occupancy_step k S S' \<Longrightarrow> occupancy_reach S'"

text \<open>The contract alone bounds the rooms, by rule induction.\<close>

lemma occupancy_step_bound:
  assumes "occupancy_step k S S'" and "\<forall>i A. S i = Some A \<longrightarrow> finite A \<and> card A \<le> 2"
  shows "\<forall>i A. S' i = Some A \<longrightarrow> finite A \<and> card A \<le> 2"
  using assms
proof (induction rule: occupancy_step.induct)
  case (joined k i u S A)
  then have "finite A" "card (insert u A) \<le> 2" by (auto simp: card_insert_if)
  then show ?case using joined by auto
next
  case (left_room k i u S A)
  have "finite A" "card A \<le> 2" using left_room by blast+
  then have "finite (A - {u})" "card (A - {u}) \<le> 2" using card_Diff1_le [of A u] by simp_all
  then show ?case using left_room by auto
qed (auto simp: restrict_map_def split: if_splits)

lemma occupancy_reach_bound: "occupancy_reach S \<Longrightarrow> S i = Some A \<Longrightarrow> finite A \<and> card A \<le> 2"
proof (induction arbitrary: i A rule: occupancy_reach.induct)
  case (step S k S')
  then show ?case using occupancy_step_bound [OF step.hyps(2)] by blast
qed simp

subsection \<open>The abstraction of each operation\<close>

lemma occupancy_same:
  "sv_repo w' = sv_repo w \<Longrightarrow> sv_heap w' = sv_heap w \<Longrightarrow> occupancy w' = occupancy w"
  by (simp add: occupancy_def)

lemma occupancy_step_same:
  "sv_repo w' = sv_repo w \<Longrightarrow> sv_heap w' = sv_heap w \<Longrightarrow> occupancy_step k (occupancy w) (occupancy w')"
  by (drule (1) occupancy_same) (simp add: unchanged)

text \<open>Writing the object of one stored room changes that room only: no two rooms share an object.\<close>

lemma occupancy_write:
  assumes "consistent (sv_repo w) w" and "sv_repo w i = Some p"
    and "sv_repo w' = sv_repo w" and "sv_heap w' = (sv_heap w)(p := r)"
  shows "occupancy w' = (occupancy w)(i \<mapsto> rm_Participants r)"
proof
  fix j
  show "occupancy w' j = ((occupancy w)(i \<mapsto> rm_Participants r)) j"
    using assms(2-4) rooms_sound_inj [OF consistentD(4) [OF assms(1)] assms(2), of j]
    by (cases "sv_repo w j") (auto simp: occupancy_def)
qed

lemma occupancy_at: "sv_repo w i = Some p \<Longrightarrow> occupancy w i = Some (rm_Participants (sv_heap w p))"
  by (simp add: occupancy_def)

lemma occupancy_create:
  assumes r: "service_reach ord P w" and o: "ord_ok ord" and f: "fresh_uuid w (ev_uuid E)"
  shows "occupancy_step (CallCreate src tgt) (occupancy w) (occupancy (snd (CreateRoom (mem_repository ord) E src tgt w)))"
proof -
  obtain x w' where C: "CreateRoom (mem_repository ord) E src tgt w = (x, w')" by fastforce
  have c: "consistent (sv_repo w) w" by (rule service_reach_consistent [OF r])
  have "sv_next w \<notin> ran (sv_repo w)"
    using rooms_soundD(2) [OF consistentD(4) [OF c]] by (fastforce simp: ran_def)
  then have old: "sv_repo w i = Some q \<Longrightarrow> q \<noteq> sv_next w" for i q by (auto intro: ranI)
  have new: "occupancy w (ev_uuid E) = None"
    using f by (simp add: occupancy_def fresh_uuid_def fresh_room_id_def)
  from CreateRoom_mem [OF C] consider
      (same) "sv_repo w' = sv_repo w" "\<forall>q. q \<noteq> sv_next w \<longrightarrow> sv_heap w' q = sv_heap w q"
    | (stored) r code where "NewRoom (ev_uuid E) src tgt (ev_now E) = Inr r"
        "sv_repo w' = (sv_repo w)(ev_uuid E \<mapsto> sv_next w)" "sv_heap w' = (sv_heap w)(sv_next w := r\<lparr>rm_ShortCode := code\<rparr>)"
    by blast
  then show ?thesis
  proof cases
    case same
    have "occupancy w' j = occupancy w j" for j
      using same old [of j] by (cases "sv_repo w j") (simp_all add: occupancy_def)
    then have "occupancy w' = occupancy w" ..
    then show ?thesis by (simp add: C unchanged)
  next
    case stored
    have "rm_Participants r = {}" using stored(1) by (auto simp: NewRoom_def split: if_splits)
    then have "occupancy w' j = ((occupancy w)(ev_uuid E \<mapsto> {})) j" for j
      using stored(2,3) old [of j] by (cases "sv_repo w j") (simp_all add: occupancy_def)
    then have "occupancy w' = (occupancy w)(ev_uuid E \<mapsto> {})" ..
    then show ?thesis using created [of "occupancy w", OF new] by (simp add: C)
  qed
qed

lemma occupancy_join:
  assumes r: "service_reach ord P w" and E: "env_ok E" and f: "fresh_uuid w (ev_uuid E)" and k: "asks_join k i u"
    and w': "sv_repo w' = sv_repo (snd (JoinRoom (mem_repository ord) P E i u lang w))"
      "sv_heap w' = sv_heap (snd (JoinRoom (mem_repository ord) P E i u lang w))"
  shows "occupancy_step k (occupancy w) (occupancy w')"
proof -
  have c: "consistent (sv_repo w) w" by (rule service_reach_consistent [OF r])
  obtain x w1 where J: "JoinRoom (mem_repository ord) P E i u lang w = (x, w1)" by fastforce
  have w1: "occupancy w' = occupancy w1" using w' J by (simp add: occupancy_def)
  show ?thesis
  proof (cases x)
    case (Inl e)
    with J have J': "JoinRoom (mem_repository ord) P E i u lang w = (Inl e, w1)" by simp
    have "occupancy w1 = occupancy w"
      by (rule occupancy_same) (simp_all add: JoinRoom_Inl [OF J'] memR.JoinRoom_Inl_bindings [OF J'])
    then show ?thesis by (simp add: w1 unchanged)
  next
    case (Inr sid)
    with J have J': "JoinRoom (mem_repository ord) P E i u lang w = (Inr sid, w1)" by simp
    show ?thesis
    proof (cases "sv_lookup w (lookupKey i u)")
      case None
      from join_effect [OF r E f J' None] obtain p where p: "sv_repo w i = Some p" "sv_repo w1 = sv_repo w"
          "sv_heap w1 = (sv_heap w)(p := (sv_heap w p)\<lparr>rm_LastActivity := Some (ev_now E),
             rm_Participants := insert u (rm_Participants (sv_heap w p))\<rparr>)"
          "room_sessions w i = {} \<or> (\<exists>a. room_sessions w i = {a})"
        by auto
      have "card (rm_Participants (sv_heap w p)) < 2" using p(4) by (auto simp: members_are_users [OF c p(1)])
      moreover have "u \<notin> rm_Participants (sv_heap w p)"
        using members_matchD [OF consistentD(5) [OF c] p(1), of u] None by simp
      ultimately have "occupancy_step k (occupancy w) ((occupancy w)(i \<mapsto> insert u (rm_Participants (sv_heap w p))))"
        by (intro joined [of k i u "occupancy w", OF k occupancy_at [OF p(1)]])
      then show ?thesis using occupancy_write [OF c p(1-3)] by (simp add: w1)
    next
      case (Some sid')
      from J' have "sv_repo w1 = sv_repo w \<and> sv_heap w1 = sv_heap w"
      proof (cases rule: JoinRoom_InrE)
        case (new p r')
        then show ?thesis using join_mem [OF c, of i p u] Some by (simp add: mem.find_Inr_iff)
      next
        case (reopen p)
        then show ?thesis using Some by (simp add: frame_simps)
      qed (simp add: frame_simps)
      then show ?thesis unfolding w1 by (intro occupancy_step_same) simp_all
    qed
  qed
qed

lemma occupancy_leave:
  assumes c: "consistent (sv_repo w) w" and k: "asks_leave k i u"
  shows "occupancy_step k (occupancy w) (occupancy (snd (LeaveRoom (mem_repository ord) P E i u w)))"
proof -
  let ?w' = "snd (LeaveRoom (mem_repository ord) P E i u w)"
  have "sv_repo ?w' = sv_repo w \<and> sv_heap ?w' = sv_heap w \<or>
    (\<exists>p. sv_repo w i = Some p \<and> u \<in> rm_Participants (sv_heap w p) \<and> sv_repo ?w' = sv_repo w
       \<and> sv_heap ?w' = (sv_heap w)(p := (sv_heap w p)\<lparr>rm_Participants := rm_Participants (sv_heap w p) - {u}\<rparr>))"
    using rooms_soundD(1) [OF consistentD(4) [OF c], of i]
    by (auto simp: LeaveRoom_def Let_def mem_FindByID_def mem_Save_def frame_simps Leave_def fun_upd_idem
        split: option.splits)
  then show ?thesis
    using occupancy_write [OF c, of i _ ?w'] left_room [of k i u "occupancy w", OF k occupancy_at] occupancy_step_same by fastforce
qed

lemma occupancy_delete:
  assumes c: "consistent (sv_repo w) w" and E: "env_ok E"
  shows "occupancy (snd (DeleteRoom (mem_repository ord) P E i w)) = (occupancy w)(i := None)"
proof (cases "sv_repo w i")
  case None
  then show ?thesis using memR.DeleteRoom_absent [of w i ord P E] by (auto simp: occupancy_def)
next
  case (Some p)
  obtain x w' where D: "DeleteRoom (mem_repository ord) P E i w = (x, w')" by fastforce
  have "occupancy w' j = ((occupancy w)(i := None)) j" for j
    using delete_mem [OF c E Some D] rooms_sound_inj [OF consistentD(4) [OF c] Some, of j]
    by (cases "sv_repo w j") (auto simp: occupancy_def)
  then show ?thesis by (simp add: D fun_eq_iff)
qed

lemma occupancy_sweepLoop:
  assumes "consistent (sv_repo w) w" and E: "env_ok E"
  shows "\<exists>D. occupancy (sweepLoop (mem_repository ord) P E ps w) = occupancy w |` D"
  using assms(1)
proof (induction ps arbitrary: w)
  case Nil
  then show ?case by (intro exI [of _ UNIV]) (simp add: restrict_map_def)
next
  case (Cons p ps)
  let ?i = "rm_ID (sv_heap w p)"
  obtain x w1 where D: "DeleteRoom (mem_repository ord) P E ?i w = (x, w1)" by fastforce
  have "enumerates (ev_ord_lookup E (sv_lookup w)) (sv_lookup w)"
    using E consistentD(2) [OF Cons.prems] by (simp add: env_ok_def)
  from Cons.IH [OF memR.consistent_DeleteRoom [OF Cons.prems this D]]
  obtain D' where "occupancy (sweepLoop (mem_repository ord) P E ps w1) = occupancy w1 |` D'" by blast
  moreover have "occupancy w1 = (occupancy w)(?i := None)"
    using occupancy_delete [OF Cons.prems E, of ord P ?i] by (simp add: D)
  ultimately show ?case
    by (intro exI [of _ "D' - {?i}"]) (auto simp: D restrict_map_def fun_eq_iff)
qed

lemma occupancy_timer:
  assumes c: "consistent (sv_repo w) w" and E: "env_ok E"
  shows "occupancy_step (CallTimer sid) (occupancy w) (occupancy (runTimer (mem_repository ord) P E sid w))"
proof -
  have "occupancy_step (CallTimer sid) (occupancy w) (occupancy (graceTimerFires (mem_repository ord) P E sid t w))" for t
  proof -
    define w1 where "w1 = w\<lparr>sv_graceTimers := (sv_graceTimers w)(sid := None),
       sv_events := sv_events w @ [SessionEnd sid (gt_roomID t) (se_UserID (gt_sess t))
                         (duration_sec E (gt_sess t)) ''timeout'']\<rparr>"
    have c1: "consistent (sv_repo w1) w1" and o1: "occupancy w1 = occupancy w"
      using c by (simp_all add: w1_def consistent_def occupancy_def)
    have "occupancy (graceTimerFires (mem_repository ord) P E sid t w)
        = occupancy (snd (DeleteRoom (mem_repository ord) P E (gt_roomID t) w1))"
      by (simp add: graceTimerFires_def Let_def w1_def [symmetric] occupancy_def frame_simps)
    then show ?thesis by (simp add: occupancy_delete [OF c1 E] o1 timed_out)
  qed
  then show ?thesis by (auto simp: runTimer_def unchanged split: option.split)
qed

lemma occupancy_signal:
  assumes r: "service_reach ord P w" and E: "env_ok E" and f: "fresh_uuid w (ev_uuid E)"
  shows "occupancy_step (CallSignal m) (occupancy w) (occupancy (snd (HandleSignaling (mem_repository ord) P E m w)))"
proof -
  let ?w' = "snd (HandleSignaling (mem_repository ord) P E m w)"
  have c: "consistent (sv_repo w) w" by (rule service_reach_consistent [OF r])
  consider (join) "msg_Type m = ''join''" | (offer) "msg_Type m = ''offer''" | (leave) "msg_Type m = ''leave''"
    | (other) "msg_Type m \<notin> {''join'', ''offer'', ''leave''}" by blast
  then show ?thesis
  proof cases
    case join
    then have w': "?w' = snd (handleJoin (mem_repository ord) P E m w)"
      by (simp add: HandleSignaling_def split: prod.split)
    show ?thesis
      unfolding w' by (rule occupancy_join [OF r E f _ handleJoin_rooms(1,2)]) (simp add: join)
  next
    case offer
    then have "?w' = snd (handleOffer P m w)" by (simp add: HandleSignaling_def split: prod.split)
    then show ?thesis by (intro occupancy_step_same) (simp_all add: frame_simps)
  next
    case leave
    show ?thesis
    proof (cases "sv_sessions w (msg_SessionID m)")
      case None
      then show ?thesis using leave by (simp add: HandleSignaling_def unchanged)
    next
      case (Some sess)
      then have "?w' = snd (LeaveRoom (mem_repository ord) P E (se_RoomID sess) (se_UserID sess) w)"
        using leave by (simp add: HandleSignaling_def split: prod.split go_result.split)
      then show ?thesis
        using occupancy_leave [OF c, of "CallSignal m" "se_RoomID sess" "se_UserID sess" ord P E] leave by simp
    qed
  next
    case other
    then show ?thesis by (intro occupancy_step_same) (simp_all add: HandleSignaling_def)
  qed
qed

lemma perform_occupancy:
  assumes r: "service_reach ord P w" and o: "ord_ok ord" and E: "env_ok E" and f: "fresh_uuid w (ev_uuid E)"
  shows "occupancy_step k (occupancy w) (occupancy (perform (mem_repository ord) P E k w))"
proof -
  have c: "consistent (sv_repo w) w" by (rule service_reach_consistent [OF r])
  show ?thesis
  proof (cases k)
    case (CallCreate s t)
    then show ?thesis using occupancy_create [OF r o f] by simp
  next
    case (CallDelete i)
    then show ?thesis using deleted [of i "occupancy w"] by (simp add: occupancy_delete [OF c E])
  next
    case (CallJoin i u lang)
    have "occupancy_step k (occupancy w) (occupancy (snd (JoinRoom (mem_repository ord) P E i u lang w)))"
      by (rule occupancy_join [OF r E f _ refl refl]) (simp add: CallJoin)
    then show ?thesis by (simp add: CallJoin)
  next
    case (CallLeave i u)
    then show ?thesis using occupancy_leave [OF c, of k i u ord P E] by simp
  next
    case (CallSignal m)
    then show ?thesis using occupancy_signal [OF r E f] by simp
  next
    case (CallDrop sid)
    then show ?thesis by (intro occupancy_step_same) (auto simp: OnDisconnect_def split: option.split)
  next
    case (CallTimer sid)
    then show ?thesis using occupancy_timer [OF c E] by simp
  next
    case CallSweep
    from occupancy_sweepLoop [OF c E]
    have "occupancy_step CallSweep (occupancy w) (occupancy (sweepLoop (mem_repository ord) P E ps w))" for ps
      by (metis swept)
    then show ?thesis using CallSweep by (auto simp: sweepExpiredRooms_def unchanged split: sum.split)
  next
    case (CallTouch i)
    show ?thesis
    proof (cases "sv_repo w i")
      case (Some p)
      then have "occupancy (perform (mem_repository ord) P E k w)
          = (occupancy w)(i \<mapsto> rm_Participants ((sv_heap w p)\<lparr>rm_LastActivity := Some (ev_now E)\<rparr>))"
        by (intro occupancy_write [OF c Some])
           (simp_all add: CallTouch svc_UpdateLastActivity_def mem_UpdateLastActivity_def)
      then show ?thesis using occupancy_at [of w, OF Some] by (simp add: fun_upd_idem unchanged)
    next
      case None
      then show ?thesis
        by (intro occupancy_step_same) (simp_all add: CallTouch svc_UpdateLastActivity_def mem_UpdateLastActivity_def)
    qed
  next
    case (CallHalf a)
    then show ?thesis by (intro occupancy_step_same) (simp_all add: applyAction_rooms)
  qed (auto intro!: occupancy_step_same simp: frame_simps localCandidate_def)
qed

lemma service_reach_occupancy: "service_reach ord P w \<Longrightarrow> ord_ok ord \<Longrightarrow> occupancy_reach (occupancy w)"
proof (induction rule: service_reach.induct)
  case (boot cfg peer w)
  then have "occupancy w = Map.empty"
    by (auto simp: NewService_def NewInMemoryRoomRepository_def occupancy_def fun_eq_iff split: if_splits)
  then show ?case by (simp add: start)
next
  case (call w E c)
  then show ?case by (blast intro: step perform_occupancy)
qed

text \<open>A lost connection alone never takes a user out of a room: that needs the timer.\<close>

lemma drop_keeps_the_rooms:
  assumes "service_reach ord P w" and "ord_ok ord" and "env_ok E" and "fresh_uuid w (ev_uuid E)"
  shows "occupancy (OnDisconnect E sid w) = occupancy w"
  using perform_occupancy [OF assms, of "CallDrop sid"] by (auto elim: occupancy_step_dropE)

subsection \<open>The refinement\<close>

text \<open>
  C6: the service refines the contract of its rooms: in every reachable state, every call (of the HTTP
  server, the hub, a pipeline, a timer or the sweep), on every branch including the failing ones, is a
  step of the contract on the users of the stored rooms, and the users of the stored rooms are always
  a state the contract can reach.
\<close>

theorem service_refines_the_room_contract:
  assumes "service_reach ord P w" and "ord_ok ord" and "env_ok E" and "fresh_uuid w (ev_uuid E)"
  shows "occupancy_step k (occupancy w) (occupancy (perform (mem_repository ord) P E k w))
    \<and> occupancy_reach (occupancy w)"
  using perform_occupancy [OF assms] service_reach_occupancy [OF assms(1,2)] by simp

theorem service_refines_the_room_contract_witness:
  "occupancy_step (CallDelete ''r'') (occupancy run3)
     (occupancy (perform example_repo quiet_peer (example_env 3 ''c'') (CallDelete ''r'') run3))
   \<and> occupancy_reach (occupancy run3)"
  by (rule service_refines_the_room_contract [OF reach3 ord_ok_sorted example_env_ok]) (rule run3_fresh; simp)

subsection \<open>Well-formed states\<close>

text \<open>
  C19: every state that whole calls of the service, run one after the other, reach from the start is well formed.  A key of the lookup map points to an open
  session that has this key and its own map key as ID, and every open session is found under its key;
  the user of a session is in a stored room unless the user ID is empty; a stored room is the object
  with its ID, shared with no other, allocated, open, of capacity two and within it.  (Calls that overlap can
  break this: theory \<open>Races\<close>.)
\<close>

theorem reachable_states_are_well_formed:
  assumes "service_reach ord P w"
  shows "(sv_lookup w k = Some sid \<longleftrightarrow>
      (\<exists>s. sv_sessions w sid = Some s \<and> se_ID s = sid \<and> k = lookupKey (se_RoomID s) (se_UserID s)))
    \<and> (sv_sessions w sid = Some s \<longrightarrow> se_UserID s \<noteq> [] \<longrightarrow>
        (\<exists>p. sv_repo w (se_RoomID s) = Some p \<and> se_UserID s \<in> rm_Participants (sv_heap w p)))
    \<and> (sv_repo w i = Some p \<longrightarrow> rm_ID (sv_heap w p) = i \<and> p < sv_next w \<and> (sv_repo w j = Some p \<longrightarrow> i = j)
        \<and> rm_Active (sv_heap w p) \<and> rm_Capacity (sv_heap w p) = 2 \<and> card (rm_Participants (sv_heap w p)) \<le> 2)"
proof -
  have c: "consistent (sv_repo w) w" by (rule service_reach_consistent [OF assms])
  note ix = sessions_indexedD [OF consistentD(3) [OF c]] and rs = rooms_soundD [OF consistentD(4) [OF c]]
  have "sv_lookup w k = Some sid \<longleftrightarrow>
      (\<exists>s. sv_sessions w sid = Some s \<and> se_ID s = sid \<and> k = lookupKey (se_RoomID s) (se_UserID s))"
    using registeredE [OF consistentD(1) [OF c], of k sid] ix(2) by metis
  moreover have "\<exists>p. sv_repo w (se_RoomID s) = Some p \<and> se_UserID s \<in> rm_Participants (sv_heap w p)"
    if s: "sv_sessions w sid = Some s" "se_UserID s \<noteq> []"
  proof -
    obtain p where p: "sv_repo w (se_RoomID s) = Some p"
      using consistentD(6) [OF c] s by (auto simp: hosted_def)
    then show ?thesis using members_matchD [OF consistentD(5) [OF c] p] ix(2) [OF s(1)] by auto
  qed
  moreover have "rm_ID (sv_heap w p) = i \<and> p < sv_next w \<and> (sv_repo w j = Some p \<longrightarrow> i = j)
      \<and> rm_Active (sv_heap w p) \<and> rm_Capacity (sv_heap w p) = 2 \<and> card (rm_Participants (sv_heap w p)) \<le> 2"
    if p: "sv_repo w i = Some p"
    using rs [OF p] rooms_sound_inj [OF consistentD(4) [OF c] p, of j] by (auto simp: room_ok_def defaultCapacity_def)
  ultimately show ?thesis by blast
qed

theorem reachable_states_are_well_formed_witness:
  "rm_ID (sv_heap run3 0) = ''r'' \<and> rm_Capacity (sv_heap run3 0) = 2"
  using reachable_states_are_well_formed [OF reach3, of _ _ _ "''r''" 0] by (simp add: run3_sel)

end
