(* ===== verification/Interleaving.thy ===== *)
theory Interleaving
  imports Service_Properties
begin

section \<open>The calls of the service, access by access: app/roomsvc/service.go\<close>

text \<open>
  The hub calls the service from one goroutine per client and the HTTP server from one per request, and
  no lock spans a whole call: the registry, the timers, the repository and each room lock for single
  accesses.  Here \<open>CreateRoom\<close>, \<open>JoinRoom\<close>, \<open>LeaveRoom\<close>, \<open>DeleteRoom\<close> and
  the function of the grace timers are cut at these accesses.  Run without
  interruption the pieces are the calls of \<open>Service\<close>; interleaved in any way they keep every room within
  its capacity (theory \<open>Interleaving_Rooms\<close>) and the registry in order (\<open>Interleaving_Registry\<close>); the rest of what whole calls
  keep, they can break (theory \<open>Races\<close>).  The environment of a
  call (its clock, UUID and random bytes) is fixed when it starts.
\<close>

datatype join_pc =
    JoinStart
  | JoinCheck room_ptr
  | JoinTimers room_ptr bool
  | JoinLookup room_ptr
  | JoinRetry room_ptr
  | JoinCreate room_ptr bool
  | JoinSave room_ptr bool
  | JoinRegister room_ptr
  | JoinTouch room_ptr
  | JoinResave room_ptr
  | JoinFull room_ptr
  | JoinDone "gerror + string"

datatype leave_pc =
    LeaveStart
  | LeaveDisconnect string session
  | LeaveClose string session
  | LeaveFind string session
  | LeaveMember string session room_ptr
  | LeaveSave string session room_ptr
  | LeaveForget string session
  | LeaveDone "gerror option go_result"

datatype create_pc =
    CreateStart
  | CreatePick room_ptr nat reader
  | CreateSave room_ptr
  | CreateDone "gerror + room_ptr"

datatype delete_pc = DeleteStart | DeleteClose room_ptr | DeleteSessions | DeleteSave | DeleteDone "gerror option"

datatype timer_pc = TimerForget | TimerDelete delete_pc | TimerDone

fun join_step ::
  "'r room_repository \<Rightarrow> 'p webrtc_peer \<Rightarrow> env \<Rightarrow> string \<Rightarrow> string \<Rightarrow> string \<Rightarrow> join_pc \<Rightarrow> ('r, 'p) service
     \<Rightarrow> join_pc \<times> ('r, 'p) service" where
  "join_step R P E roomID userID lang JoinStart w =
     (if lang = [] then (JoinDone (Inl (Wrapped ''roomsvc.JoinRoom'' (Sentinel ErrMissingLang))), w)
      else case FindByID R roomID (sv_heap w) (sv_repo w) of
        Inl e \<Rightarrow> (JoinDone (Inl (Wrapped ''roomsvc.JoinRoom'' e)), w)
      | Inr p \<Rightarrow>
          if lang \<noteq> rm_SourceLang (sv_heap w p) \<and> lang \<noteq> rm_TargetLang (sv_heap w p)
          then (JoinDone (Inl (Wrapped ''roomsvc.JoinRoom'' (Sentinel ErrLangNotSupported))), w)
          else (JoinCheck p, w))"
| "join_step R P E roomID userID lang (JoinCheck p) w =
     (case Join (sv_heap w p) userID of
        Inr r' \<Rightarrow> (JoinTimers p False, w\<lparr>sv_heap := (sv_heap w)(p := r')\<rparr>)
      | Inl e \<Rightarrow> if errors_Is e ErrAlreadyInRoom then (JoinTimers p True, w)
                 else (JoinDone (Inl (Wrapped ''roomsvc.JoinRoom'' e)), w))"
| "join_step R P E roomID userID lang (JoinTimers p isReconnect) w =
     (if isReconnect then JoinLookup p else JoinCreate p False, cancelGraceTimersForRoom E roomID w)"
| "join_step R P E roomID userID lang (JoinLookup p) w =
     (case sv_lookup w (lookupKey roomID userID) of
        Some existingSessID \<Rightarrow> (JoinDone (Inr existingSessID), w)
      | None \<Rightarrow> (JoinRetry p, w))"
| "join_step R P E roomID userID lang (JoinRetry p) w =
     (JoinCreate p True, case Join (sv_heap w p) userID of
        Inl _ \<Rightarrow> w | Inr r' \<Rightarrow> w\<lparr>sv_heap := (sv_heap w)(p := r')\<rparr>)"
| "join_step R P E roomID userID lang (JoinCreate p isReconnect) w =
     (case CreateSession P (ev_uuid E) (sv_peer w) of
        (Some e, peer') \<Rightarrow>
          (JoinDone (Inl (Wrapped ''roomsvc.JoinRoom: creating peer session'' e)),
           w\<lparr>sv_peer := peer', sv_heap := undoJoin isReconnect p userID (sv_heap w)\<rparr>)
      | (None, peer') \<Rightarrow> (JoinSave p isReconnect, w\<lparr>sv_peer := peer'\<rparr>))"
| "join_step R P E roomID userID lang (JoinSave p isReconnect) w =
     (case Save R p (sv_heap w) (sv_repo w) of
        (Some e, repo') \<Rightarrow>
          (JoinDone (Inl (Wrapped ''roomsvc.JoinRoom: saving room'' e)),
           w\<lparr>sv_repo := repo', sv_heap := undoJoin isReconnect p userID (sv_heap w),
             sv_peer := snd (CloseSession P (ev_uuid E) (sv_peer w))\<rparr>)
      | (None, repo') \<Rightarrow> (JoinRegister p, w\<lparr>sv_repo := repo'\<rparr>))"
| "join_step R P E roomID userID lang (JoinRegister p) w =
     (JoinTouch p, w\<lparr>sv_sessions := (sv_sessions w)(ev_uuid E \<mapsto> NewSession (ev_uuid E) roomID userID lang (ev_now E)),
                     sv_lookup := (sv_lookup w)(lookupKey roomID userID \<mapsto> ev_uuid E)\<rparr>)"
| "join_step R P E roomID userID lang (JoinTouch p) w =
     (JoinResave p, w\<lparr>sv_heap := (sv_heap w)(p := TouchActivity (sv_heap w p) (ev_now E))\<rparr>)"
| "join_step R P E roomID userID lang (JoinResave p) w =
     (JoinFull p, w\<lparr>sv_repo := snd (Save R p (sv_heap w) (sv_repo w))\<rparr>)"
| "join_step R P E roomID userID lang (JoinFull p) w =
     (JoinDone (Inr (ev_uuid E)),
      if IsFull (sv_heap w p) then
        (case List.find (\<lambda>s. se_ID s \<noteq> ev_uuid E) (sessionsInRoom E roomID (sv_sessions w)) of
           None \<Rightarrow> w
         | Some sessA \<Rightarrow> w\<lparr>sv_spawned := sv_spawned w @
             [(p, sessA, NewSession (ev_uuid E) roomID userID lang (ev_now E))]\<rparr>)
      else w)"
| "join_step R P E roomID userID lang (JoinDone r) w = (JoinDone r, w)"

text \<open>\<open>sess\<close> is a pointer: disconnecting it is seen in the registry while the session is still there.\<close>

fun leave_step ::
  "'r room_repository \<Rightarrow> 'p webrtc_peer \<Rightarrow> env \<Rightarrow> string \<Rightarrow> string \<Rightarrow> leave_pc \<Rightarrow> ('r, 'p) service
     \<Rightarrow> leave_pc \<times> ('r, 'p) service" where
  "leave_step R P E roomID userID LeaveStart w =
     (case sv_lookup w (lookupKey roomID userID) of
        None \<Rightarrow> (LeaveDone (Return (Some (Wrapped ''roomsvc.LeaveRoom'' (Sentinel ErrSessionNotFound)))), w)
      | Some sessID \<Rightarrow> (case sv_sessions w sessID of
            None \<Rightarrow> (LeaveDone Panic, w)
          | Some sess \<Rightarrow> (LeaveDisconnect sessID sess, w)))"
| "leave_step R P E roomID userID (LeaveDisconnect sessID sess) w =
     (LeaveClose sessID sess, case sv_sessions w sessID of
        None \<Rightarrow> w | Some s \<Rightarrow> w\<lparr>sv_sessions := (sv_sessions w)(sessID \<mapsto> Disconnect s)\<rparr>)"
| "leave_step R P E roomID userID (LeaveClose sessID sess) w =
     (LeaveFind sessID sess, w\<lparr>sv_peer := snd (CloseSession P sessID (sv_peer w))\<rparr>)"
| "leave_step R P E roomID userID (LeaveFind sessID sess) w =
     (case FindByID R roomID (sv_heap w) (sv_repo w) of
        Inl e \<Rightarrow> (LeaveDone (Return (Some (Wrapped ''roomsvc.LeaveRoom'' e))), w)
      | Inr p \<Rightarrow> (LeaveMember sessID sess p, w))"
| "leave_step R P E roomID userID (LeaveMember sessID sess p) w =
     (case Leave (sv_heap w p) userID of
        Inl e \<Rightarrow> if errors_Is e ErrNotInRoom then (LeaveSave sessID sess p, w)
                 else (LeaveDone (Return (Some (Wrapped ''roomsvc.LeaveRoom'' e))), w)
      | Inr r \<Rightarrow> (LeaveSave sessID sess p, w\<lparr>sv_heap := (sv_heap w)(p := r)\<rparr>))"
| "leave_step R P E roomID userID (LeaveSave sessID sess p) w =
     (case Save R p (sv_heap w) (sv_repo w) of
        (Some e, repo') \<Rightarrow>
          (LeaveDone (Return (Some (Wrapped ''roomsvc.LeaveRoom: saving room'' e))), w\<lparr>sv_repo := repo'\<rparr>)
      | (None, repo') \<Rightarrow> (LeaveForget sessID sess, w\<lparr>sv_repo := repo'\<rparr>))"
| "leave_step R P E roomID userID (LeaveForget sessID sess) w =
     (LeaveDone (Return None),
      let w' = stopPipeline roomID (w\<lparr>sv_sessions := (sv_sessions w)(sessID := None),
                                      sv_lookup := (sv_lookup w)(lookupKey roomID userID := None)\<rparr>)
      in w'\<lparr>sv_events := sv_events w' @
             [SessionEnd sessID roomID (se_UserID sess) (duration_sec E sess) ''voluntary'']\<rparr>)"
| "leave_step R P E roomID userID (LeaveDone r) w = (LeaveDone r, w)"

fun delete_step ::
  "'r room_repository \<Rightarrow> 'p webrtc_peer \<Rightarrow> env \<Rightarrow> string \<Rightarrow> delete_pc \<Rightarrow> ('r, 'p) service
     \<Rightarrow> delete_pc \<times> ('r, 'p) service" where
  "delete_step R P E roomID DeleteStart w =
     (case FindByID R roomID (sv_heap w) (sv_repo w) of
        Inl e \<Rightarrow> (DeleteDone (Some (Wrapped ''roomsvc.DeleteRoom'' e)), w)
      | Inr p \<Rightarrow> (DeleteClose p, w))"
| "delete_step R P E roomID (DeleteClose p) w =
     (DeleteSessions, w\<lparr>sv_heap := (sv_heap w)(p := Close (sv_heap w p))\<rparr>)"
| "delete_step R P E roomID DeleteSessions w =
     (DeleteSave, stopPipeline roomID (fold (dropLookupKey P (roomID @ '':'')) (ev_ord_lookup E (sv_lookup w)) w))"
| "delete_step R P E roomID DeleteSave w =
     (case Delete R roomID (sv_repo w) of
        (Some e, repo') \<Rightarrow> (DeleteDone (Some (Wrapped ''roomsvc.DeleteRoom'' e)), w\<lparr>sv_repo := repo'\<rparr>)
      | (None, repo') \<Rightarrow> (DeleteDone None, w\<lparr>sv_repo := repo'\<rparr>))"
| "delete_step R P E roomID (DeleteDone r) w = (DeleteDone r, w)"

text \<open>The new room is nobody else's before it is saved, so giving it its code is no access of its own.\<close>

fun create_step ::
  "'r room_repository \<Rightarrow> env \<Rightarrow> string \<Rightarrow> string \<Rightarrow> create_pc \<Rightarrow> ('r, 'p) service
     \<Rightarrow> create_pc \<times> ('r, 'p) service" where
  "create_step R E src tgt CreateStart w =
     (case NewRoom (ev_uuid E) src tgt (ev_now E) of
        Inl e \<Rightarrow> (CreateDone (Inl (Wrapped ''roomsvc.CreateRoom'' e)), w)
      | Inr r \<Rightarrow> (CreatePick (sv_next w) (nat (MaxShortCodeRetries (sv_cfg w))) (ev_rand E),
                  w\<lparr>sv_heap := (sv_heap w)(sv_next w := r), sv_next := sv_next w + 1\<rparr>))"
| "create_step R E src tgt (CreatePick p 0 rd) w =
     (CreateDone (Inl (Wrapped ''roomsvc.CreateRoom'' (Sentinel ErrShortCodeExhausted))), w)"
| "create_step R E src tgt (CreatePick p (Suc n) rd) w =
     (case GenerateShortCode rd of
        (Inl e, _) \<Rightarrow> (CreateDone (Inl (Wrapped ''roomsvc.CreateRoom: generating short code'' e)), w)
      | (Inr code, rd') \<Rightarrow>
          (case FindByShortCode R code (sv_heap w) (sv_repo w) of
             Inl e \<Rightarrow>
               if errors_Is e ErrRoomNotFound
               then (CreateSave p, w\<lparr>sv_heap := (sv_heap w)(p := (sv_heap w p)\<lparr>rm_ShortCode := code\<rparr>)\<rparr>)
               else (CreateDone (Inl (Wrapped ''roomsvc.CreateRoom: checking short code'' e)), w)
           | Inr _ \<Rightarrow> (CreatePick p n rd', w)))"
| "create_step R E src tgt (CreateSave p) w =
     (case Save R p (sv_heap w) (sv_repo w) of
        (Some e, repo') \<Rightarrow>
          (CreateDone (Inl (Wrapped ''roomsvc.CreateRoom: saving room'' e)), w\<lparr>sv_repo := repo'\<rparr>)
      | (None, repo') \<Rightarrow> (CreateDone (Inr p), w\<lparr>sv_repo := repo'\<rparr>))"
| "create_step R E src tgt (CreateDone r) w = (CreateDone r, w)"

text \<open>
  The function of a grace timer, from the moment it is started: cancelling the timer does not stop it any
  more.  \<open>t\<close> are its captured variables.
\<close>

fun timer_step ::
  "'r room_repository \<Rightarrow> 'p webrtc_peer \<Rightarrow> env \<Rightarrow> string \<Rightarrow> grace_timer \<Rightarrow> timer_pc \<Rightarrow> ('r, 'p) service
     \<Rightarrow> timer_pc \<times> ('r, 'p) service" where
  "timer_step R P E sessionID t TimerForget w =
     (TimerDelete DeleteStart,
      w\<lparr>sv_graceTimers := (sv_graceTimers w)(sessionID := None),
        sv_events := sv_events w @ [SessionEnd sessionID (gt_roomID t) (se_UserID (gt_sess t))
                       (duration_sec E (gt_sess t)) ''timeout'']\<rparr>)"
| "timer_step R P E sessionID t (TimerDelete (DeleteDone r)) w =
     (TimerDone, NotifySession sessionID ''room-closed'' [(''reason'', ''peer-timeout'')] w)"
| "timer_step R P E sessionID t (TimerDelete pc) w =
     (case delete_step R P E (gt_roomID t) pc w of (pc', w') \<Rightarrow> (TimerDelete pc', w'))"
| "timer_step R P E sessionID t TimerDone w = (TimerDone, w)"

text \<open>Calls in progress, and a schedule of them: whose turn it is, one access at a time.\<close>

datatype pending_call =
    JoinCall env string string string join_pc
  | LeaveCall env string string leave_pc
  | DeleteCall env string delete_pc
  | CreateCall env string string create_pc
  | TimerCall env string grace_timer timer_pc

fun call_step ::
  "'r room_repository \<Rightarrow> 'p webrtc_peer \<Rightarrow> pending_call \<Rightarrow> ('r, 'p) service \<Rightarrow> pending_call \<times> ('r, 'p) service" where
  "call_step R P (JoinCall E i u lang pc) w =
     (case join_step R P E i u lang pc w of (pc', w') \<Rightarrow> (JoinCall E i u lang pc', w'))"
| "call_step R P (LeaveCall E i u pc) w =
     (case leave_step R P E i u pc w of (pc', w') \<Rightarrow> (LeaveCall E i u pc', w'))"
| "call_step R P (DeleteCall E i pc) w =
     (case delete_step R P E i pc w of (pc', w') \<Rightarrow> (DeleteCall E i pc', w'))"
| "call_step R P (CreateCall E src tgt pc) w =
     (case create_step R E src tgt pc w of (pc', w') \<Rightarrow> (CreateCall E src tgt pc', w'))"
| "call_step R P (TimerCall E sid t pc) w =
     (case timer_step R P E sid t pc w of (pc', w') \<Rightarrow> (TimerCall E sid t pc', w'))"

fun interleave ::
  "'r room_repository \<Rightarrow> 'p webrtc_peer \<Rightarrow> nat list \<Rightarrow> pending_call list \<times> ('r, 'p) service
     \<Rightarrow> pending_call list \<times> ('r, 'p) service" where
  "interleave R P [] s = s"
| "interleave R P (n # ns) (cs, w) =
     (if n < length cs then
        (case call_step R P (cs ! n) w of (c, w') \<Rightarrow> interleave R P ns (cs[n := c], w'))
      else interleave R P ns (cs, w))"

subsection \<open>Without interruption\<close>

lemma interleave_join_done:
  "interleave R P (replicate n 0) ([JoinCall E i u lang (JoinDone r)], w) = ([JoinCall E i u lang (JoinDone r)], w)"
  by (induction n) simp_all

lemma interleave_leave_done:
  "interleave R P (replicate n 0) ([LeaveCall E i u (LeaveDone r)], w) = ([LeaveCall E i u (LeaveDone r)], w)"
  by (induction n) simp_all

lemma interleave_delete_done:
  "interleave R P (replicate n 0) ([DeleteCall E i (DeleteDone r)], w) = ([DeleteCall E i (DeleteDone r)], w)"
  by (induction n) simp_all

lemma interleave_create_done:
  "interleave R P (replicate n 0) ([CreateCall E a b (CreateDone r)], w) = ([CreateCall E a b (CreateDone r)], w)"
  by (induction n) simp_all

lemma interleave_timer_done:
  "interleave R P (replicate n 0) (TimerCall E i t TimerDone # cs, w) = (TimerCall E i t TimerDone # cs, w)"
  by (induction n) simp_all

lemma interleave_open:
  "interleave R P (replicate (6 + n) 0) ([JoinCall E i u lang (JoinCreate p b)], w) =
     (case openSession R P E p b i u lang w of (x, w') \<Rightarrow> ([JoinCall E i u lang (JoinDone x)], w'))"
  by (simp add: eval_nat_numeral openSession_def Let_def NewSession_def interleave_join_done
      split: prod.split option.split)

lemma interleave_join:
  "interleave R P (replicate (11 + n) 0) ([JoinCall E i u lang JoinStart], w) =
     (case JoinRoom R P E i u lang w of (x, w') \<Rightarrow> ([JoinCall E i u lang (JoinDone x)], w'))"
proof -
  have r: "replicate (11 + n) 0 = 0 # 0 # 0 # replicate (6 + (2 + n)) (0 :: nat)"
    "replicate (6 + (2 + n)) 0 = 0 # 0 # replicate (6 + n) (0 :: nat)"
    by (simp_all add: eval_nat_numeral)
  consider (stop) "\<And>p. FindByID R i (sv_heap w) (sv_repo w) \<noteq> Inr p \<or> lang = []
        \<or> (lang \<noteq> rm_SourceLang (sv_heap w p) \<and> lang \<noteq> rm_TargetLang (sv_heap w p))"
    | (go) p where "FindByID R i (sv_heap w) (sv_repo w) = Inr p" and "lang \<noteq> []"
        and "lang = rm_SourceLang (sv_heap w p) \<or> lang = rm_TargetLang (sv_heap w p)"
    by blast
  then show ?thesis
  proof cases
    case stop
    have r': "replicate (11 + n) 0 = 0 # replicate (10 + n) (0 :: nat)" by (simp add: eval_nat_numeral)
    show ?thesis
      unfolding r' using stop
      by (cases "FindByID R i (sv_heap w) (sv_repo w)")
         (auto simp: JoinRoom_def interleave_join_done simp del: replicate_Suc replicate.simps)
  next
    case (go p)
    note open7 = interleave_open [of R P "2 + n" E i u lang p False, simplified]
    have l: "(lang \<noteq> rm_SourceLang (sv_heap w p) \<and> lang \<noteq> rm_TargetLang (sv_heap w p)) = False"
      using go(3) by blast
    show ?thesis
    proof (cases "Join (sv_heap w p) u")
      case (Inr r')
      then have "r' = (sv_heap w p)\<lparr>rm_Participants := insert u (rm_Participants (sv_heap w p))\<rparr>"
        by (simp add: Join_Inr_iff)
      then show ?thesis
        using go(1,2) Inr unfolding r(1) by (simp add: l JoinRoom_def open7 del: replicate_Suc replicate.simps)
    next
      case (Inl e)
      let ?w = "cancelGraceTimersForRoom E i w"
      show ?thesis
      proof (cases "errors_Is e ErrAlreadyInRoom \<and> sv_lookup ?w (lookupKey i u) = None")
        case True
        then show ?thesis
          using go(1,2) Inl unfolding r(1) unfolding r(2)
          by (simp add: l JoinRoom_def Let_def interleave_open del: replicate_Suc replicate.simps)
      next
        case False
        then show ?thesis
          using go(1,2) Inl unfolding r(1) unfolding r(2)
          by (auto simp: l JoinRoom_def Let_def interleave_join_done simp del: replicate_Suc replicate.simps
              split: option.split)
      qed
    qed
  qed
qed

lemma interleave_leave:
  "interleave R P (replicate (7 + n) 0) ([LeaveCall E i u LeaveStart], w) =
     (case LeaveRoom R P E i u w of (x, w') \<Rightarrow> ([LeaveCall E i u (LeaveDone x)], w'))"
  by (simp add: eval_nat_numeral LeaveRoom_def Let_def interleave_leave_done
      split: option.split prod.split sum.split)

lemma interleave_delete:
  "interleave R P (replicate (4 + n) 0) ([DeleteCall E i DeleteStart], w) =
     (case DeleteRoom R P E i w of (x, w') \<Rightarrow> ([DeleteCall E i (DeleteDone x)], w'))"
  by (simp add: eval_nat_numeral DeleteRoom_def Let_def interleave_delete_done split: sum.split prod.split option.split)

lemma interleave_timer:
  "interleave R P (replicate (6 + n) 0) (TimerCall E sid t TimerForget # cs, w) =
     (TimerCall E sid t TimerDone # cs, graceTimerFires R P E sid t w)"
  by (simp add: eval_nat_numeral graceTimerFires_def DeleteRoom_def Let_def interleave_timer_done
      split: sum.split prod.split option.split)

text \<open>The search for a code, with as many accesses as it has attempts, then the save.\<close>

lemma interleave_pick:
  "interleave R P (replicate (k + 2 + n) 0) ([CreateCall E a b (CreatePick p k rd)], w) =
     (case pickShortCode R (sv_heap w) (sv_repo w) k rd of
        Inl e \<Rightarrow> ([CreateCall E a b (CreateDone (Inl e))], w)
      | Inr None \<Rightarrow> ([CreateCall E a b (CreateDone (Inl (Wrapped ''roomsvc.CreateRoom'' (Sentinel ErrShortCodeExhausted))))], w)
      | Inr (Some code) \<Rightarrow>
          (let w2 = w\<lparr>sv_heap := (sv_heap w)(p := (sv_heap w p)\<lparr>rm_ShortCode := code\<rparr>)\<rparr>
           in case Save R p (sv_heap w2) (sv_repo w2) of
                (Some e, repo') \<Rightarrow> ([CreateCall E a b (CreateDone (Inl (Wrapped ''roomsvc.CreateRoom: saving room'' e)))],
                    w2\<lparr>sv_repo := repo'\<rparr>)
              | (None, repo') \<Rightarrow> ([CreateCall E a b (CreateDone (Inr p))], w2\<lparr>sv_repo := repo'\<rparr>)))"
proof (induction k arbitrary: rd n)
  case 0
  then show ?case by (simp add: eval_nat_numeral interleave_create_done)
next
  case (Suc k)
  obtain g rd' where g: "GenerateShortCode rd = (g, rd')" by fastforce
  have r: "replicate (k + 2 + n) 0 = 0 # replicate (k + 1 + n) (0 :: nat)" by simp
  show ?case
  proof (cases g)
    case (Inl e)
    then show ?thesis using g by (simp add: interleave_create_done)
  next
    case (Inr code)
    show ?thesis
    proof (cases "FindByShortCode R code (sv_heap w) (sv_repo w)")
      case (Inl e)
      then show ?thesis
        using g \<open>g = Inr code\<close> by (auto simp: Let_def interleave_create_done split: prod.split option.split)
    next
      case (Inr q)
      then show ?thesis using g \<open>g = Inr code\<close> Suc.IH [of n rd'] by simp
    qed
  qed
qed

lemma interleave_create:
  "interleave R P (replicate (nat (MaxShortCodeRetries (sv_cfg w)) + 3 + n) 0) ([CreateCall E a b CreateStart], w) =
     (case CreateRoom R E a b w of (x, w') \<Rightarrow> ([CreateCall E a b (CreateDone x)], w'))"
proof (cases "NewRoom (ev_uuid E) a b (ev_now E)")
  case (Inl e)
  then show ?thesis by (simp add: eval_nat_numeral CreateRoom_def interleave_create_done)
next
  case (Inr r)
  let ?k = "nat (MaxShortCodeRetries (sv_cfg w))"
  have l: "replicate (?k + 3 + n) 0 = 0 # replicate (?k + 2 + n) (0 :: nat)" by (simp add: eval_nat_numeral)
  have step: "interleave R P (0 # ns) ([CreateCall E a b CreateStart], w) = interleave R P ns
      ([CreateCall E a b (CreatePick (sv_next w) ?k (ev_rand E))], w\<lparr>sv_heap := (sv_heap w)(sv_next w := r), sv_next := sv_next w + 1\<rparr>)"
    for ns by (simp add: Inr)
  show ?thesis
    unfolding l step interleave_pick
    by (simp add: Inr CreateRoom_def Let_def split: sum.split option.split prod.split)
qed

text \<open>
  With nobody in between, the pieces of \<open>CreateRoom\<close>, \<open>JoinRoom\<close>, \<open>LeaveRoom\<close>, \<open>DeleteRoom\<close> and the
  function of the grace timers make the whole calls, for every repository and peer, on every branch, with the same answer and the same state.
\<close>

lemma pieces_make_the_calls:
  "interleave R P (replicate (11 + n) 0) ([JoinCall E i u lang JoinStart], w) =
     (case JoinRoom R P E i u lang w of (x, w') \<Rightarrow> ([JoinCall E i u lang (JoinDone x)], w'))
   \<and> interleave R P (replicate (7 + n) 0) ([LeaveCall E i u LeaveStart], w) =
     (case LeaveRoom R P E i u w of (x, w') \<Rightarrow> ([LeaveCall E i u (LeaveDone x)], w'))
   \<and> interleave R P (replicate (4 + n) 0) ([DeleteCall E i DeleteStart], w) =
     (case DeleteRoom R P E i w of (x, w') \<Rightarrow> ([DeleteCall E i (DeleteDone x)], w'))
   \<and> interleave R P (replicate (nat (MaxShortCodeRetries (sv_cfg w)) + 3 + n) 0) ([CreateCall E a b CreateStart], w) =
     (case CreateRoom R E a b w of (x, w') \<Rightarrow> ([CreateCall E a b (CreateDone x)], w'))
   \<and> interleave R P (replicate (6 + n) 0) ([TimerCall E sid t TimerForget], w) =
     ([TimerCall E sid t TimerDone], graceTimerFires R P E sid t w)"
  by (rule conjI interleave_join interleave_leave interleave_delete interleave_create interleave_timer)+

subsection \<open>With interruption\<close>

text \<open>What one goroutine does to a room between two accesses is one operation of the room, or none.\<close>

definition rooms_evolve :: "room_heap \<Rightarrow> room_heap \<Rightarrow> bool" where
  "rooms_evolve h h' \<longleftrightarrow> (\<forall>q. \<exists>ops. h' q = room_run (h q) ops)"

lemma rooms_evolve_refl [simp, intro!]: "rooms_evolve h h"
  unfolding rooms_evolve_def by (metis foldl_Nil)

lemma rooms_evolve_trans: "rooms_evolve h h' \<Longrightarrow> rooms_evolve h' h'' \<Longrightarrow> rooms_evolve h h''"
  unfolding rooms_evolve_def by (metis foldl_append)

lemma rooms_evolve_op: "r' = room_step (h p) opn \<Longrightarrow> rooms_evolve h (h(p := r'))"
  unfolding rooms_evolve_def by (metis foldl_Cons foldl_Nil fun_upd_apply)

lemma rooms_evolve_Join: "Join (h p) u = Inr r' \<Longrightarrow> rooms_evolve h (h(p := r'))"
  by (rule rooms_evolve_op [of _ _ _ "OpJoin u"]) simp

lemma rooms_evolve_Leave: "Leave (h p) u = Inr r' \<Longrightarrow> rooms_evolve h (h(p := r'))"
  by (rule rooms_evolve_op [of _ _ _ "OpLeave u"]) simp

lemma rooms_evolve_Close: "rooms_evolve h (h(p := Close (h p)))"
  by (rule rooms_evolve_op [of _ _ _ OpClose]) simp

lemma rooms_evolve_Touch: "rooms_evolve h (h(p := TouchActivity (h p) t))"
  by (rule rooms_evolve_op [of _ _ _ "OpTouch t"]) simp

lemma rooms_evolve_undo: "rooms_evolve h (undoJoin b p u h)"
  by (auto simp: undoJoin_def rooms_evolve_Leave split: sum.split)

lemmas rooms_evolve_intros =
  rooms_evolve_Join rooms_evolve_Leave rooms_evolve_Close rooms_evolve_Touch rooms_evolve_undo

lemma join_step_rooms: "rooms_evolve (sv_heap w) (sv_heap (snd (join_step R P E i u lang pc w)))"
  by (cases pc) (auto simp: frame_simps rooms_evolve_intros split: sum.split option.split prod.split)

lemma leave_step_rooms: "rooms_evolve (sv_heap w) (sv_heap (snd (leave_step R P E i u pc w)))"
  by (cases pc) (auto simp: frame_simps Let_def rooms_evolve_intros split: sum.split option.split prod.split)

lemma delete_step_rooms: "rooms_evolve (sv_heap w) (sv_heap (snd (delete_step R P E i pc w)))"
  by (cases pc) (auto simp: frame_simps rooms_evolve_intros split: sum.split option.split prod.split)

lemma steps_next:
  shows "sv_next (snd (join_step R P E i u lang jpc w)) = sv_next w"
    and "sv_next (snd (leave_step R P E i u lpc w)) = sv_next w"
    and "sv_next (snd (delete_step R P E i dpc w)) = sv_next w"
proof -
  show "sv_next (snd (join_step R P E i u lang jpc w)) = sv_next w"
    by (cases jpc) (simp_all add: frame_simps split: sum.split option.split prod.split)
  show "sv_next (snd (leave_step R P E i u lpc w)) = sv_next w"
    by (cases lpc) (simp_all add: frame_simps Let_def split: sum.split option.split prod.split)
  show "sv_next (snd (delete_step R P E i dpc w)) = sv_next w"
    by (cases dpc) (simp_all add: frame_simps split: sum.split option.split prod.split)
qed

lemma timer_step_rooms:
  "rooms_evolve (sv_heap w) (sv_heap (snd (timer_step R P E sid t pc w))) \<and> sv_next (snd (timer_step R P E sid t pc w)) = sv_next w"
proof (cases pc)
  case (TimerDelete dpc)
  then show ?thesis
    using delete_step_rooms [of w R P E "gt_roomID t" dpc] steps_next(3) [of R P E "gt_roomID t" dpc w]
    by (cases dpc) (auto simp: frame_simps split: prod.split)
qed simp_all

text \<open>A creation in progress has a room of its own; on the rooms others know it does nothing.\<close>

fun creating :: "pending_call \<Rightarrow> room_ptr option" where
  "creating (CreateCall E a b (CreatePick p n rd)) = Some p"
| "creating (CreateCall E a b (CreateSave p)) = Some p"
| "creating _ = None"

definition room_evolves :: "room_ptr \<Rightarrow> ('r, 'p) service \<Rightarrow> ('r, 'p) service \<Rightarrow> bool" where
  "room_evolves p w w' \<longleftrightarrow> p < sv_next w' \<and> (\<exists>ops. sv_heap w' p = room_run (sv_heap w p) ops)"

lemma room_evolvesI: "rooms_evolve (sv_heap w) (sv_heap w') \<Longrightarrow> sv_next w' = sv_next w \<Longrightarrow> p < sv_next w \<Longrightarrow> room_evolves p w w'"
  by (simp add: rooms_evolve_def room_evolves_def)

lemma room_evolves_trans: "room_evolves p w w' \<Longrightarrow> room_evolves p w' w'' \<Longrightarrow> room_evolves p w w''"
  unfolding room_evolves_def by (metis foldl_append)

lemma create_step_room:
  assumes "create_step R E a b pc w = (pc', w')" and "p < sv_next w" and "creating (CreateCall E a b pc) \<noteq> Some p"
  shows "room_evolves p w w' \<and> creating (CreateCall E a b pc') \<noteq> Some p"
proof -
  have "p < sv_next w' \<and> sv_heap w' p = sv_heap w p \<and> creating (CreateCall E a b pc') \<noteq> Some p"
    using assms by (induction R E a b pc w rule: create_step.induct) (auto split: sum.splits prod.splits option.splits if_splits)
  then show ?thesis unfolding room_evolves_def by (metis foldl_Nil)
qed

lemma call_step_room:
  assumes "call_step R P c w = (c', w')" and "p < sv_next w" and "creating c \<noteq> Some p"
  shows "room_evolves p w w' \<and> creating c' \<noteq> Some p"
proof (cases c)
  case (JoinCall E i u lang pc)
  then show ?thesis
    using assms join_step_rooms [of w R P E i u lang pc] steps_next(1) [of R P E i u lang pc w]
    by (auto intro: room_evolvesI split: prod.splits)
next
  case (LeaveCall E i u pc)
  then show ?thesis
    using assms leave_step_rooms [of w R P E i u pc] steps_next(2) [of R P E i u pc w]
    by (auto intro: room_evolvesI split: prod.splits)
next
  case (DeleteCall E i pc)
  then show ?thesis
    using assms delete_step_rooms [of w R P E i pc] steps_next(3) [of R P E i pc w]
    by (auto intro: room_evolvesI split: prod.splits)
next
  case (CreateCall E a b pc)
  then show ?thesis using assms create_step_room [of R E a b pc w _ w' p] by (auto split: prod.splits)
next
  case (TimerCall E sid t pc)
  then show ?thesis
    using assms timer_step_rooms [of w R P E sid t pc] by (auto intro: room_evolvesI split: prod.splits)
qed

lemma interleave_room:
  assumes "interleave R P ns (cs, w) = (cs', w')" and "p < sv_next w" and "\<forall>c \<in> set cs. creating c \<noteq> Some p"
  shows "room_evolves p w w' \<and> (\<forall>c \<in> set cs'. creating c \<noteq> Some p)"
  using assms
proof (induction ns arbitrary: cs w)
  case Nil
  then show ?case by (auto intro: room_evolvesI)
next
  case (Cons n ns)
  obtain c w1 where c: "call_step R P (cs ! n) w = (c, w1)" by fastforce
  show ?case
  proof (cases "n < length cs")
    case True
    have n: "room_evolves p w w1 \<and> creating c \<noteq> Some p" by (rule call_step_room [OF c]) (use Cons.prems True in auto)
    moreover have "\<forall>c \<in> set (cs[n := c]). creating c \<noteq> Some p"
      using n Cons.prems(3) set_update_subset_insert [of cs n c] by auto
    moreover have "p < sv_next w1" using n by (simp add: room_evolves_def)
    ultimately show ?thesis
      using Cons.IH [of "cs[n := c]" w1] Cons.prems(1) c True by (auto intro: room_evolves_trans)
  qed (use Cons in simp)
qed

end
