(* ===== verification/Races.thy ===== *)
theory Races
  imports Interleaving
begin

section \<open>What concurrent calls of the service break: app/roomsvc/service.go\<close>

text \<open>
  Schedules of the accesses of \<open>Interleaving\<close> after which a state no sequence of whole calls reaches is
  left: a room deleted while a user joins or leaves is stored again, closed; two requests of one user
  open two sessions; two users who join at once start two pipelines, of which only one can be stopped.
  Each starts from an arbitrary reachable state, over any peer that opens connections.
\<close>

lemma interleave_append: "interleave R P (ns @ ms) s = interleave R P ms (interleave R P ns s)"
  by (induction R P ns s rule: interleave.induct) (simp_all split: prod.split)

lemma created:
  assumes "\<forall>sid x. fst (CreateSession P sid x) = None"
  shows "\<exists>f. \<forall>sid x. CreateSession P sid x = (None, f sid x)"
  using assms by (intro exI [of _ "\<lambda>sid x. snd (CreateSession P sid x)"]) (auto simp: prod_eq_iff)

text \<open>
  A deletion between the entry of a user into the room and the save of the room: the save puts the
  deleted, closed room back into the repository, and the user's session is registered in it.
\<close>

theorem deleted_room_comes_back:
  assumes "service_reach ord P w" and "env_ok E'" and "fresh_uuid w (ev_uuid E)"
    and "sv_repo w i = Some p" and "lang \<noteq> []"
    and "lang = rm_SourceLang (sv_heap w p) \<or> lang = rm_TargetLang (sv_heap w p)"
    and "sv_lookup w (lookupKey i u) = None" and "card (room_sessions w i) < 2"
    and "\<forall>x. fst (CreateSession P (ev_uuid E) x) = None"
    and "interleave (mem_repository ord) P (replicate 3 0 @ replicate 4 1 @ replicate 6 0)
      ([JoinCall E i u lang JoinStart, DeleteCall E' i DeleteStart], w) = (cs, w')"
  shows "cs = [JoinCall E i u lang (JoinDone (Inr (ev_uuid E))), DeleteCall E' i (DeleteDone None)]
    \<and> sv_repo w' i = Some p \<and> \<not> rm_Active (sv_heap w' p) \<and> rm_Participants (sv_heap w' p) = {}
    \<and> sv_sessions w' (ev_uuid E) = Some (NewSession (ev_uuid E) i u lang (ev_now E))"
proof -
  have c: "consistent (sv_repo w) w" by (rule service_reach_consistent [OF assms(1)])
  let ?R = "mem_repository ord"
  define w1 where "w1 = cancelGraceTimersForRoom E i (w\<lparr>sv_heap := (sv_heap w)(p :=
      (sv_heap w p)\<lparr>rm_Participants := insert u (rm_Participants (sv_heap w p))\<rparr>)\<rparr>)"
  have j: "Join (sv_heap w p) u = Inr ((sv_heap w p)\<lparr>rm_Participants := insert u (rm_Participants (sv_heap w p))\<rparr>)"
    using join_mem [OF c assms(4), of u] assms(7,8) by simp
  have one: "interleave ?R P (replicate 3 0) ([JoinCall E i u lang JoinStart, DeleteCall E' i DeleteStart], w)
      = ([JoinCall E i u lang (JoinCreate p False), DeleteCall E' i DeleteStart], w1)"
    using assms(4-6) j by (simp add: eval_nat_numeral mem_FindByID_def w1_def)
  define w2 where "w2 = stopPipeline i (fold (dropLookupKey P (i @ '':'')) (ev_ord_lookup E' (sv_lookup w1))
      (w1\<lparr>sv_heap := (sv_heap w1)(p := Close (sv_heap w1 p))\<rparr>))"
  have two: "interleave ?R P (replicate 4 1) ([JoinCall E i u lang (JoinCreate p False), DeleteCall E' i DeleteStart], w1)
      = ([JoinCall E i u lang (JoinCreate p False), DeleteCall E' i (DeleteDone None)], w2\<lparr>sv_repo := (sv_repo w2)(i := None)\<rparr>)"
    using assms(4) by (simp add: eval_nat_numeral mem_FindByID_def mem_Delete_def w2_def w1_def frame_simps)
  have h: "sv_heap w2 = (sv_heap w1)(p := Close (sv_heap w1 p))" by (simp add: w2_def frame_simps)
  then have closed: "rm_ID (sv_heap w2 p) = i" "\<not> rm_Active (sv_heap w2 p)" "rm_Participants (sv_heap w2 p) = {}"
      "rm_Capacity (sv_heap w2 p) = 2"
    using rooms_soundD [OF consistentD(4) [OF c] assms(4)]
    by (simp_all add: w1_def frame_simps Close_def defaultCapacity_def)
  obtain x where x: "CreateSession P (ev_uuid E) (sv_peer w2) = (None, x)"
    using assms(9) by (metis prod.collapse)
  show ?thesis
    using assms(10) unfolding interleave_append one two
    by (auto simp: eval_nat_numeral x mem_Save_def TouchActivity_def IsFull_def closed)
qed

definition swept_away :: "pending_call list \<times> (mem_repo, unit) service" where
  "swept_away = interleave example_repo quiet_peer (replicate 3 0 @ replicate 4 1 @ replicate 6 0)
     ([JoinCall (example_env (2 * second) ''b'') ''r'' ''bob'' ''es'' JoinStart,
       DeleteCall (example_env (2 * second) ''d'') ''r'' DeleteStart], run2)"

theorem deleted_room_comes_back_witness:
  "sv_repo (snd swept_away) ''r'' = Some 0 \<and> \<not> rm_Active (sv_heap (snd swept_away) 0)"
proof -
  obtain cs w' where s: "swept_away = (cs, w')" by fastforce
  have f: "fresh_uuid run2 (ev_uuid (example_env (2 * second) ''b''))"
    by (simp add: fresh_eval run2_sel ran_sessions del: fun_upd_apply) simp
  have p: "sv_repo run2 ''r'' = Some 0" by (simp add: run2_sel)
  have l: "''es'' = rm_SourceLang (sv_heap run2 0) \<or> ''es'' = rm_TargetLang (sv_heap run2 0)" by (simp add: run2_sel)
  have n: "sv_lookup run2 (lookupKey ''r'' ''bob'') = None" by (simp add: run2_sel lookupKey_def)
  have k: "card (room_sessions run2 ''r'') < 2" by (simp add: example_sessions)
  have q: "\<forall>x. fst (CreateSession quiet_peer (ev_uuid (example_env (2 * second) ''b'')) x) = None"
    by (simp add: quiet_peer_def)
  from deleted_room_comes_back [OF reach2 example_env_ok f p _ l n k q s [unfolded swept_away_def]]
  show ?thesis by (simp add: s)
qed

text \<open>
  The same when a user leaves: \<open>LeaveRoom\<close> has found the room, the room is deleted, \<open>LeaveRoom\<close> takes the
  answer that the user is no participant as fine and saves the closed room.
\<close>

theorem left_room_comes_back:
  assumes "service_reach ord P w" and "env_ok E'" and "sv_repo w i = Some p" and "s \<in> room_sessions w i"
    and "interleave (mem_repository ord) P (replicate 4 0 @ replicate 4 1 @ replicate 3 0)
      ([LeaveCall E i (se_UserID s) LeaveStart, DeleteCall E' i DeleteStart], w) = (cs, w')"
  shows "cs = [LeaveCall E i (se_UserID s) (LeaveDone (Return None)), DeleteCall E' i (DeleteDone None)]
    \<and> sv_repo w' i = Some p \<and> \<not> rm_Active (sv_heap w' p)"
proof -
  let ?R = "mem_repository ord"
  have c: "consistent (sv_repo w) w" by (rule service_reach_consistent [OF assms(1)])
  have l: "sv_lookup w (lookupKey i (se_UserID s)) = Some (se_ID s)" and s: "sv_sessions w (se_ID s) = Some s"
    using room_session_key [OF c assms(4)] assms(4) room_sessions_iff [OF c] by auto
  define w1 where "w1 = w\<lparr>sv_sessions := (sv_sessions w)(se_ID s \<mapsto> Disconnect s),
      sv_peer := snd (CloseSession P (se_ID s) (sv_peer w))\<rparr>"
  have one: "interleave ?R P (replicate 4 0) ([LeaveCall E i (se_UserID s) LeaveStart, DeleteCall E' i DeleteStart], w)
      = ([LeaveCall E i (se_UserID s) (LeaveMember (se_ID s) s p), DeleteCall E' i DeleteStart], w1)"
    using assms(3) by (simp add: eval_nat_numeral l s mem_FindByID_def w1_def)
  define w2 where "w2 = stopPipeline i (fold (dropLookupKey P (i @ '':'')) (ev_ord_lookup E' (sv_lookup w1))
      (w1\<lparr>sv_heap := (sv_heap w1)(p := Close (sv_heap w1 p))\<rparr>))"
  have two: "interleave ?R P (replicate 4 1)
        ([LeaveCall E i (se_UserID s) (LeaveMember (se_ID s) s p), DeleteCall E' i DeleteStart], w1)
      = ([LeaveCall E i (se_UserID s) (LeaveMember (se_ID s) s p), DeleteCall E' i (DeleteDone None)],
         w2\<lparr>sv_repo := (sv_repo w2)(i := None)\<rparr>)"
    using assms(3) by (simp add: eval_nat_numeral mem_FindByID_def mem_Delete_def w2_def w1_def frame_simps)
  have h: "sv_heap w2 = (sv_heap w1)(p := Close (sv_heap w1 p))" by (simp add: w2_def frame_simps)
  then have closed: "rm_ID (sv_heap w2 p) = i" "\<not> rm_Active (sv_heap w2 p)" "rm_Participants (sv_heap w2 p) = {}"
    using rooms_soundD [OF consistentD(4) [OF c] assms(3)] by (simp_all add: w1_def Close_def)
  show ?thesis
    using assms(5) unfolding interleave_append one two
    by (auto simp: eval_nat_numeral Leave_def closed mem_Save_def Let_def frame_simps)
qed

definition left_behind :: "pending_call list \<times> (mem_repo, unit) service" where
  "left_behind = interleave example_repo quiet_peer (replicate 4 0 @ replicate 4 1 @ replicate 3 0)
     ([LeaveCall (example_env (2 * second) ''b'') ''r'' (se_UserID alice) LeaveStart,
       DeleteCall (example_env (2 * second) ''d'') ''r'' DeleteStart], run2)"

theorem left_room_comes_back_witness:
  "sv_repo (snd left_behind) ''r'' = Some 0 \<and> \<not> rm_Active (sv_heap (snd left_behind) 0)"
proof -
  obtain cs w' where s: "left_behind = (cs, w')" by fastforce
  have p: "sv_repo run2 ''r'' = Some 0" by (simp add: run2_sel)
  have a: "alice \<in> room_sessions run2 ''r''" by (simp add: example_sessions)
  from left_room_comes_back [OF reach2 example_env_ok p a s [unfolded left_behind_def]] show ?thesis by (simp add: s)
qed

text \<open>
  One user, two requests: the second finds the user in the room but no session registered yet, and opens
  one of its own.  Both are answered with a session; the registry holds both, the lookup only the one
  registered last, so the other cannot be left.
\<close>

theorem one_user_two_sessions:
  assumes "service_reach ord P w" and "fresh_uuid w (ev_uuid E)" and "fresh_uuid w (ev_uuid E')"
    and "ev_uuid E \<noteq> ev_uuid E'" and "sv_repo w i = Some p" and "lang \<noteq> []"
    and "lang = rm_SourceLang (sv_heap w p) \<or> lang = rm_TargetLang (sv_heap w p)"
    and "sv_lookup w (lookupKey i u) = None" and "card (room_sessions w i) < 2"
    and "\<forall>sid x. fst (CreateSession P sid x) = None"
    and "interleave (mem_repository ord) P (replicate 3 0 @ replicate 11 1 @ replicate 6 0)
      ([JoinCall E i u lang JoinStart, JoinCall E' i u lang JoinStart], w) = (cs, w')"
  shows "cs = [JoinCall E i u lang (JoinDone (Inr (ev_uuid E))), JoinCall E' i u lang (JoinDone (Inr (ev_uuid E')))]
    \<and> sv_sessions w' (ev_uuid E) = Some (NewSession (ev_uuid E) i u lang (ev_now E))
    \<and> sv_sessions w' (ev_uuid E') = Some (NewSession (ev_uuid E') i u lang (ev_now E'))
    \<and> sv_lookup w' (lookupKey i u) = Some (ev_uuid E)"
proof -
  let ?R = "mem_repository ord"
  have c: "consistent (sv_repo w) w" by (rule service_reach_consistent [OF assms(1)])
  obtain f where f: "\<And>sid x. CreateSession P sid x = (None, f sid x)"
    using created [OF assms(10)] by blast
  define w1 where "w1 = cancelGraceTimersForRoom E i (w\<lparr>sv_heap := (sv_heap w)(p :=
      (sv_heap w p)\<lparr>rm_Participants := insert u (rm_Participants (sv_heap w p))\<rparr>)\<rparr>)"
  have j: "Join (sv_heap w p) u = Inr ((sv_heap w p)\<lparr>rm_Participants := insert u (rm_Participants (sv_heap w p))\<rparr>)"
    using join_mem [OF c assms(5), of u] assms(8,9) by simp
  have one: "interleave ?R P (replicate 3 0) ([JoinCall E i u lang JoinStart, JoinCall E' i u lang JoinStart], w)
      = ([JoinCall E i u lang (JoinCreate p False), JoinCall E' i u lang JoinStart], w1)"
    using assms(5-7) j by (simp add: eval_nat_numeral mem_FindByID_def w1_def)
  have w1: "sv_repo w1 = sv_repo w" "sv_lookup w1 = sv_lookup w"
      "lang = rm_SourceLang (sv_heap w1 p) \<or> lang = rm_TargetLang (sv_heap w1 p)"
      "Join (sv_heap w1 p) u = Inl (Sentinel ErrAlreadyInRoom)"
    using assms(7) rooms_soundD(5) [OF consistentD(4) [OF c] assms(5)] by (auto simp: w1_def frame_simps Join_def)
  obtain w2 where two: "interleave ?R P (replicate 11 1)
        ([JoinCall E i u lang (JoinCreate p False), JoinCall E' i u lang JoinStart], w1)
      = ([JoinCall E i u lang (JoinCreate p False), JoinCall E' i u lang (JoinDone (Inr (ev_uuid E')))], w2)"
    and w2: "sv_sessions w2 (ev_uuid E') = Some (NewSession (ev_uuid E') i u lang (ev_now E'))"
    using w1(3) by (auto simp: eval_nat_numeral w1 mem_FindByID_def assms(5,6,8) frame_simps f mem_Save_def
        split: option.split)
  show ?thesis
    using assms(4,11) unfolding interleave_append one two
    by (auto simp: eval_nat_numeral f mem_Save_def w2 split: option.splits)
qed

definition asked_twice :: "pending_call list \<times> (mem_repo, unit) service" where
  "asked_twice = interleave example_repo quiet_peer (replicate 3 0 @ replicate 11 1 @ replicate 6 0)
     ([JoinCall (example_env (2 * second) ''b'') ''r'' ''bob'' ''es'' JoinStart,
       JoinCall (example_env (3 * second) ''c'') ''r'' ''bob'' ''es'' JoinStart], run2)"

lemma fresh_run2: "x \<in> {''b'', ''c''} \<Longrightarrow> fresh_uuid run2 (ev_uuid (example_env t x))"
  by (auto simp: fresh_eval run2_sel ran_sessions simp del: fun_upd_apply) simp_all

theorem one_user_two_sessions_witness:
  "sv_sessions (snd asked_twice) ''b'' = Some (NewSession ''b'' ''r'' ''bob'' ''es'' (2 * second))
   \<and> sv_sessions (snd asked_twice) ''c'' = Some (NewSession ''c'' ''r'' ''bob'' ''es'' (3 * second))"
proof -
  obtain cs w' where s: "asked_twice = (cs, w')" by fastforce
  have p: "sv_repo run2 ''r'' = Some 0" by (simp add: run2_sel)
  have n: "sv_lookup run2 (lookupKey ''r'' ''bob'') = None" by (simp add: run2_sel lookupKey_def)
  have k: "card (room_sessions run2 ''r'') < 2" by (simp add: example_sessions)
  from one_user_two_sessions [OF reach2 fresh_run2 fresh_run2 _ p _ _ n k _ s [unfolded asked_twice_def]]
  show ?thesis by (simp add: s run2_sel quiet_peer_def) (simp add: example_env_def)
qed

text \<open>Two pipelines waiting at the same place of the queue start, one after the other.\<close>

abbreviation run_both :: "nat \<Rightarrow> ('r, 'p) service \<Rightarrow> ('r, 'p) service" where
  "run_both n w \<equiv> runSpawned n (runSpawned n w)"

lemma run_both_same_room:
  assumes "sv_spawned w = xs @ [(p, t, s), (p, s, t)]"
  shows "sv_pipelines (run_both (length xs) w) (rm_ID (sv_heap w p))
      = Some \<lparr>pl_roomID = rm_ID (sv_heap w p), pl_sessA = s, pl_sessB = t\<rparr>
    \<and> sv_cancelled (run_both (length xs) w) = sv_cancelled w"
  using assms by (simp add: runSpawned_def startPipeline_def Let_def nth_append)

text \<open>
  Two users into an empty room, both registered before either looks whether the room is full: each starts
  a pipeline.  When both have started only the second is in the registry; nothing has cancelled the
  first and nothing can.
\<close>

theorem two_joins_two_pipelines:
  assumes "service_reach ord P w" and "env_ok E" and "env_ok E'"
    and "fresh_uuid w (ev_uuid E)" and "fresh_uuid w (ev_uuid E')"
    and "ev_uuid E \<noteq> ev_uuid E'" and "u \<noteq> v" and "sv_repo w i = Some p" and "lang \<noteq> []"
    and "lang = rm_SourceLang (sv_heap w p) \<or> lang = rm_TargetLang (sv_heap w p)"
    and "room_sessions w i = {}"  and "\<forall>sid x. fst (CreateSession P sid x) = None"
    and "interleave (mem_repository ord) P (replicate 3 0 @ replicate 3 1 @ replicate 3 0 @ replicate 3 1
        @ replicate 3 0 @ replicate 3 1)
      ([JoinCall E i u lang JoinStart, JoinCall E' i v lang JoinStart], w) = (cs, w')"
  shows "\<exists>s t. sv_spawned w' = sv_spawned w @ [(p, t, s), (p, s, t)] \<and> s \<noteq> t
    \<and> sv_sessions w' (ev_uuid E) = Some s \<and> sv_sessions w' (ev_uuid E') = Some t
    \<and> sv_pipelines (run_both (length (sv_spawned w)) w') i = Some \<lparr>pl_roomID = i, pl_sessA = s, pl_sessB = t\<rparr>
    \<and> sv_cancelled (run_both (length (sv_spawned w)) w') = sv_cancelled w'"
proof -
  let ?R = "mem_repository ord"
  have c: "consistent (sv_repo w) w" by (rule service_reach_consistent [OF assms(1)])
  note rs = rooms_soundD [OF consistentD(4) [OF c] assms(8)]
  obtain f where f: "\<And>sid x. CreateSession P sid x = (None, f sid x)"
    using created [OF assms(12)] by blast
  have m: "rm_Participants (sv_heap w p) = {}" by (simp add: members_are_users [OF c assms(8)] assms(11))
  let ?s = "NewSession (ev_uuid E) i u lang (ev_now E)" and ?t = "NewSession (ev_uuid E') i v lang (ev_now E')"
  let ?S = "(sv_sessions w)(ev_uuid E \<mapsto> ?s, ev_uuid E' \<mapsto> ?t)"
  have in_room: "set (sessionsInRoom F i ?S) = {?s, ?t}" if "env_ok F" for F
    using sessions_listed [OF that, of ?S i] assms(4-6,11) sessions_finite [OF c]
    by (simp add: ran_map_upd fresh_uuid_def room_sessions_def) auto
  have first: "List.find (\<lambda>x. se_ID x \<noteq> ev_uuid E) (sessionsInRoom E i ?S) = Some ?t"
    using find_other [of _ ?s "{?t}" ?t] in_room [OF assms(2)] assms(6) by simp
  have second: "List.find (\<lambda>x. se_ID x \<noteq> ev_uuid E') (sessionsInRoom E' i ?S) = Some ?s"
    using find_other [of _ ?t "{?s}" ?s] in_room [OF assms(3)] assms(6) by (simp add: insert_commute)
  let ?JE = "JoinCall E i u lang" and ?JE' = "JoinCall E' i v lang"
  have j: "Join (sv_heap w p) u = Inr ((sv_heap w p)\<lparr>rm_Participants := {u}\<rparr>)"
    using rs(5,6) by (simp add: Join_def m defaultCapacity_def)
  define w1 where "w1 = cancelGraceTimersForRoom E i (w\<lparr>sv_heap := (sv_heap w)(p :=
      (sv_heap w p)\<lparr>rm_Participants := {u}\<rparr>)\<rparr>)"
  have one: "interleave ?R P (replicate 3 0) ([?JE JoinStart, ?JE' JoinStart], w)
      = ([?JE (JoinCreate p False), ?JE' JoinStart], w1)"
    using assms(8-10) j by (simp add: eval_nat_numeral mem_FindByID_def w1_def)
  have w1: "sv_repo w1 = sv_repo w" "sv_sessions w1 = sv_sessions w" "sv_spawned w1 = sv_spawned w"
      "lang = rm_SourceLang (sv_heap w1 p) \<or> lang = rm_TargetLang (sv_heap w1 p)"
      "Join (sv_heap w1 p) v = Inr ((sv_heap w p)\<lparr>rm_Participants := {v, u}\<rparr>)"
    using assms(7,10) rs(5,6) by (auto simp: w1_def frame_simps Join_def defaultCapacity_def)
  define w2 where "w2 = cancelGraceTimersForRoom E' i (w1\<lparr>sv_heap := (sv_heap w1)(p :=
      (sv_heap w p)\<lparr>rm_Participants := {v, u}\<rparr>)\<rparr>)"
  have two: "interleave ?R P (replicate 3 1) ([?JE (JoinCreate p False), ?JE' JoinStart], w1)
      = ([?JE (JoinCreate p False), ?JE' (JoinCreate p False)], w2)"
    using assms(8,9) w1 by (simp add: eval_nat_numeral mem_FindByID_def w2_def)
  have w2: "sv_sessions w2 = sv_sessions w" "sv_spawned w2 = sv_spawned w"
      "sv_heap w2 p = (sv_heap w p)\<lparr>rm_Participants := {v, u}\<rparr>"
    by (simp_all add: w2_def w1 frame_simps)
  obtain w4 where four: "interleave ?R P (replicate 3 1) (interleave ?R P (replicate 3 0)
        ([?JE (JoinCreate p False), ?JE' (JoinCreate p False)], w2)) = ([?JE (JoinTouch p), ?JE' (JoinTouch p)], w4)"
    and w4: "sv_sessions w4 = ?S" "sv_spawned w4 = sv_spawned w"
      "sv_heap w4 p = (sv_heap w p)\<lparr>rm_Participants := {v, u}\<rparr>"
    by (simp add: eval_nat_numeral f mem_Save_def w2)
  have full: "IsFull ((sv_heap w p)\<lparr>rm_Participants := {v, u}, rm_LastActivity := x\<rparr>)" for x
    using assms(7) rs(6) by (simp add: IsFull_def defaultCapacity_def)
  have "sv_spawned w' = sv_spawned w @ [(p, ?t, ?s), (p, ?s, ?t)]
      \<and> sv_sessions w' (ev_uuid E) = Some ?s \<and> sv_sessions w' (ev_uuid E') = Some ?t
      \<and> rm_ID (sv_heap w' p) = i"
    using assms(13,6) rs(1) unfolding interleave_append one two four
    by (auto simp: eval_nat_numeral mem_Save_def TouchActivity_def w4 first second full)
  moreover have "?s \<noteq> ?t" using assms(6) by (simp add: NewSession_def)
  ultimately show ?thesis using run_both_same_room [of w' "sv_spawned w" p ?t ?s] by auto
qed

definition met_at_the_door :: "pending_call list \<times> (mem_repo, unit) service" where
  "met_at_the_door = interleave example_repo quiet_peer
     (replicate 3 0 @ replicate 3 1 @ replicate 3 0 @ replicate 3 1 @ replicate 3 0 @ replicate 3 1)
     ([JoinCall (example_env (2 * second) ''b'') ''r'' ''bob'' ''es'' JoinStart,
       JoinCall (example_env (2 * second) ''c'') ''r'' ''carol'' ''es'' JoinStart], run1)"

theorem two_joins_two_pipelines_witness: "length (sv_spawned (snd met_at_the_door)) = 2"
proof -
  obtain cs w' where s: "met_at_the_door = (cs, w')" by fastforce
  have p: "sv_repo run1 ''r'' = Some 0" by (simp add: run_eqs)
  have f: "fresh_uuid run1 (ev_uuid (example_env t x))" if "x \<in> {''b'', ''c''}" for t x
    using that by (auto simp: fresh_eval run_eqs)
  have e: "room_sessions run1 ''r'' = {}" by (simp add: room_sessions_def run_eqs)
  have l: "''es'' = rm_SourceLang (sv_heap run1 0) \<or> ''es'' = rm_TargetLang (sv_heap run1 0)" by (simp add: run_eqs)
  from two_joins_two_pipelines [OF reach1 example_env_ok example_env_ok f f _ _ p _ l e _
      s [unfolded met_at_the_door_def]]
  show ?thesis by (auto simp: s run_eqs quiet_peer_def example_env_def)
qed

text \<open>
  Two creations that draw the same code, which no stored room has: both look it up before either room is saved,
  so both rooms are stored with it, and a search for the code finds at most one of them.
\<close>

lemma code_free:
  assumes "enumerates ord r" and "ToUpper code = code" and "\<forall>p \<in> ran r. rm_ShortCode (h p) \<noteq> code"
  shows "\<exists>e. mem_FindByShortCode ord code h r = Inl e \<and> errors_Is e ErrRoomNotFound"
proof (cases "mem_FindByShortCode ord code h r")
  case (Inl e)
  then show ?thesis using mem_FindByShortCode_Inl [OF assms(1) Inl] by blast
next
  case (Inr p)
  then show ?thesis using mem_FindByShortCode_Inr [OF assms(1) Inr] assms(2,3) by auto
qed

theorem two_rooms_one_code:
  assumes "service_reach ord P w" and "ord_ok ord"
    and "fresh_uuid w (ev_uuid E)" and "fresh_uuid w (ev_uuid E')" and "ev_uuid E \<noteq> ev_uuid E'"
    and "0 < MaxShortCodeRetries (sv_cfg w)" and "length a = 2" and "length b = 2"
    and "GenerateShortCode (ev_rand E) = (Inr code, rd)" and "GenerateShortCode (ev_rand E') = (Inr code, rd')"
    and "\<forall>p \<in> ran (sv_repo w). rm_ShortCode (sv_heap w p) \<noteq> code"
    and "interleave (mem_repository ord) P [0, 0, 1, 1, 0, 1]
      ([CreateCall E a b CreateStart, CreateCall E' a b CreateStart], w) = (cs, w')"
  shows "\<exists>p q. cs = [CreateCall E a b (CreateDone (Inr p)), CreateCall E' a b (CreateDone (Inr q))] \<and> p \<noteq> q
    \<and> sv_repo w' = (sv_repo w)(ev_uuid E \<mapsto> p, ev_uuid E' \<mapsto> q)
    \<and> rm_ShortCode (sv_heap w' p) = code \<and> rm_ShortCode (sv_heap w' q) = code"
proof -
  let ?R = "mem_repository ord" and ?p = "sv_next w"
  have c: "consistent (sv_repo w) w" by (rule service_reach_consistent [OF assms(1)])
  have en: "enumerates (ord (sv_repo w)) (sv_repo w)"
    using service_reach_codes [OF assms(1,2)] assms(2) by (simp add: codes_ok_def ord_ok_def)
  have up: "ToUpper code = code" using GenerateShortCode_Inr [OF assms(9)] by (intro ToUpper_code) simp
  have new: "q \<noteq> ?p" "q \<noteq> Suc ?p" if "q \<in> ran (sv_repo w)" for q
    using rooms_soundD(2) [OF consistentD(4) [OF c]] that by (fastforce simp: ran_def)+
  obtain k where k: "nat (MaxShortCodeRetries (sv_cfg w)) = Suc k" using assms(6) by (cases "nat (MaxShortCodeRetries (sv_cfg w))") auto
  have free: "\<exists>e. FindByShortCode ?R code h (sv_repo w) = Inl e \<and> errors_Is e ErrRoomNotFound"
    if "\<And>q. q \<in> ran (sv_repo w) \<Longrightarrow> h q = sv_heap w q" for h
    using code_free [OF en up, of h] assms(11) that by simp
  obtain r r' where r: "NewRoom (ev_uuid E) a b (ev_now E) = Inr r" "rm_ID r = ev_uuid E"
      "NewRoom (ev_uuid E') a b (ev_now E') = Inr r'" "rm_ID r' = ev_uuid E'"
    using assms(7,8) by (simp add: NewRoom_def)
  let ?w1 = "w\<lparr>sv_heap := (sv_heap w)(?p := r\<lparr>rm_ShortCode := code\<rparr>), sv_next := Suc ?p\<rparr>"
  have 1: "interleave ?R P [0, 0] ([CreateCall E a b CreateStart, CreateCall E' a b CreateStart], w)
      = ([CreateCall E a b (CreateSave ?p), CreateCall E' a b CreateStart], ?w1)"
    using free [of "(sv_heap w)(?p := r)"] new by (auto simp: r k assms(9))
  have 2: "interleave ?R P [1, 1] ([CreateCall E a b (CreateSave ?p), CreateCall E' a b CreateStart], ?w1)
      = ([CreateCall E a b (CreateSave ?p), CreateCall E' a b (CreateSave (Suc ?p))],
         ?w1\<lparr>sv_heap := (sv_heap ?w1)(Suc ?p := r'\<lparr>rm_ShortCode := code\<rparr>), sv_next := Suc (Suc ?p)\<rparr>)"
    using free [of "(sv_heap ?w1)(Suc ?p := r')"] new by (auto simp: r k assms(10))
  have "interleave ?R P ([0, 0] @ [1, 1] @ [0, 1]) ([CreateCall E a b CreateStart, CreateCall E' a b CreateStart], w) = (cs, w')"
    using assms(12) by simp
  then show ?thesis
    unfolding interleave_append 1 2 by (auto simp: mem_Save_def r)
qed

definition same_draw :: "pending_call list \<times> (mem_repo, unit) service" where
  "same_draw = interleave example_repo quiet_peer [0, 0, 1, 1, 0, 1]
     ([CreateCall (example_env 0 ''q'') ''en'' ''es'' CreateStart, CreateCall (example_env 0 ''t'') ''en'' ''es'' CreateStart], run0)"

theorem two_rooms_one_code_witness:
  "\<exists>p q. sv_repo (snd same_draw) ''q'' = Some p \<and> sv_repo (snd same_draw) ''t'' = Some q
     \<and> rm_ShortCode (sv_heap (snd same_draw) p) = rm_ShortCode (sv_heap (snd same_draw) q)"
proof -
  obtain cs w' where s: "same_draw = (cs, w')" by fastforce
  have f: "fresh_uuid run0 (ev_uuid (example_env t x))" if "x \<in> {''q'', ''t''}" for t x
    using that by (auto simp: fresh_eval run0_eq)
  have g: "GenerateShortCode (ev_rand (example_env 0 x)) = (Inr ''AAAAAA'', zero_reader\<lparr>rd_bytes := []\<rparr>)" for x
    by (simp add: example_env_def zero_code)
  have 0: "0 < MaxShortCodeRetries (sv_cfg run0)" "sv_repo run0 = (\<lambda>_. None)"
    by (simp_all add: run0_eq DefaultServiceConfig_def)
  from two_rooms_one_code [OF reach0 ord_ok_sorted f f _ 0(1) _ _ g g _ s [unfolded same_draw_def]]
  show ?thesis by (auto simp: s 0(2) example_env_def)
qed

text \<open>
  A grace timer whose function has been started, and waits for the lock, when its user joins again: the join
  stops and forgets the timer and is answered with the session, but what \<open>Stop\<close> returns is not looked at,
  and the function then deletes the room and the session.
\<close>

theorem cancelled_timer_deletes_the_room:
  assumes "service_reach ord P w" and "env_ok E" and "env_ok E'" and "sv_repo w i = Some p" and "lang \<noteq> []"
    and "lang = rm_SourceLang (sv_heap w p) \<or> lang = rm_TargetLang (sv_heap w p)"
    and "s \<in> room_sessions w i" and "se_UserID s \<noteq> []"
    and "sv_graceTimers w (se_ID s) = Some t" and "gt_roomID t = i"
    and "interleave (mem_repository ord) P (replicate 4 1)
      ([TimerCall E' (se_ID s) t TimerForget, JoinCall E i (se_UserID s) lang JoinStart], w) = (cs, w')"
    and "interleave (mem_repository ord) P (replicate 6 0) (cs, w') = (cs', w'')"
  shows "cs = [TimerCall E' (se_ID s) t TimerForget, JoinCall E i (se_UserID s) lang (JoinDone (Inr (se_ID s)))]
    \<and> sv_graceTimers w' (se_ID s) = None
    \<and> sv_repo w'' i = None \<and> sv_sessions w'' (se_ID s) = None"
proof -
  let ?R = "mem_repository ord"
  have c: "consistent (sv_repo w) w" by (rule service_reach_consistent [OF assms(1)])
  have l: "(lang \<noteq> rm_SourceLang (sv_heap w p) \<and> lang \<noteq> rm_TargetLang (sv_heap w p)) = False" using assms(6) by blast
  have key: "sv_lookup w (lookupKey i (se_UserID s)) = Some (se_ID s)" using room_session_key [OF c assms(7)] .
  then have j: "Join (sv_heap w p) (se_UserID s) = Inl (Sentinel ErrAlreadyInRoom)"
    using join_mem [OF c assms(4), of "se_UserID s"] by simp
  have w': "cs = [TimerCall E' (se_ID s) t TimerForget, JoinCall E i (se_UserID s) lang (JoinDone (Inr (se_ID s)))]"
      "w' = cancelGraceTimersForRoom E i w"
    using assms(11) by (simp_all add: eval_nat_numeral mem_FindByID_def assms(4,5) l j key frame_simps)
  have "consistent (sv_repo w') w'" using c by (simp add: w'(2) cancelGraceTimersForRoom_def consistent_def)
  moreover have "w'' = graceTimerFires ?R P E' (se_ID s) t w'"
    using assms(12) interleave_timer [of ?R P 0 E' "se_ID s" t "[JoinCall E i (se_UserID s) lang (JoinDone (Inr (se_ID s)))]" w']
    by (simp add: w'(1))
  ultimately have gone: "sv_repo w'' i = None" "\<forall>s \<in> room_sessions w'' i. se_UserID s = []"
      "sv_sessions w'' \<subseteq>\<^sub>m sv_sessions w"
    using graceTimerFires_mem [of w' E' w'' ord P "se_ID s" t] assms(3,4,10) by (auto simp: w'(2) frame_simps)
  have "sv_sessions w'' (se_ID s) = None"
  proof (rule ccontr)
    assume "sv_sessions w'' (se_ID s) \<noteq> None"
    then have "sv_sessions w'' (se_ID s) = Some s"
      using gone(3) assms(7) room_sessions_iff [OF c] by (auto simp: map_le_def dom_def) 
    then have "s \<in> room_sessions w'' i" using assms(7) by (auto simp: room_sessions_def ran_def)
    then show False using gone(2) assms(8) by blast
  qed
  then show ?thesis using w'(1) gone(1) assms(2,7) by (simp add: w'(2) cancelGrace_timers [OF c])
qed

definition stopped_too_late :: "pending_call list \<times> (mem_repo, unit) service" where
  "stopped_too_late = interleave example_repo quiet_peer (replicate 4 1)
     ([TimerCall (example_env (33 * second) ''d'') (se_ID alice)
         \<lparr>gt_roomID = ''r'', gt_sess = alice, gt_deadline = 33 * second\<rparr> TimerForget,
       JoinCall (example_env (33 * second) ''e'') ''r'' (se_UserID alice) ''es'' JoinStart], dropped_run)"

theorem cancelled_timer_deletes_the_room_witness:
  "sv_graceTimers (snd stopped_too_late) ''a'' = None
   \<and> sv_repo (snd (interleave example_repo quiet_peer (replicate 6 0) stopped_too_late)) ''r'' = None"
proof -
  obtain cs w' where s: "stopped_too_late = (cs, w')" by fastforce
  obtain cs' w'' where s': "interleave example_repo quiet_peer (replicate 6 0) (cs, w') = (cs', w'')" by fastforce
  have a: "se_ID alice = ''a''" "se_UserID alice \<noteq> []" by (simp_all add: alice_def NewSession_def)
  have p: "sv_repo dropped_run ''r'' = Some 0" by (simp add: dropped_eq run3_sel)
  have l: "''es'' = rm_SourceLang (sv_heap dropped_run 0) \<or> ''es'' = rm_TargetLang (sv_heap dropped_run 0)"
    by (simp add: dropped_eq run3_sel)
  have m: "alice \<in> room_sessions dropped_run ''r''"
    by (auto simp: room_sessions_def ran_def dropped_eq run3_sel alice_def NewSession_def)
  have t: "sv_graceTimers dropped_run (se_ID alice)
      = Some \<lparr>gt_roomID = ''r'', gt_sess = alice, gt_deadline = 33 * second\<rparr>" by (simp add: dropped_eq a)
  from cancelled_timer_deletes_the_room [OF dropped_reach example_env_ok example_env_ok p _ l m a(2) t _
      s [unfolded stopped_too_late_def] s']
  have "sv_graceTimers w' ''a'' = None \<and> sv_repo w'' ''r'' = None" by (simp add: a)
  then show ?thesis unfolding s s' by simp
qed

end
