(* ===== verification/Hub.thy ===== *)
theory Hub
  imports Ports
begin

section \<open>The WebSocket hub: internal/adapters/signaling\<close>

text \<open>
  \<open>Hub\<close> and the part of \<open>Client\<close> it reads and writes.  A client is a shared object, so clients are
  addresses into a store; \<open>send\<close> is a buffered channel of eight messages that \<open>RunCtx\<close> closes when
  the client is unregistered.  Sending on a closed channel panics, also inside a select with a
  default, and a panic in any goroutine ends the process: \<open>hb_crashed\<close>.
\<close>

type_synonym client_ptr = nat

text \<open>What is queued for a client: a marshalled response or a marshalled string map.\<close>

datatype wire_msg = Response signaling_message | Fields "string \<rightharpoonup> string"

record client =
  cl_send :: "wire_msg list"
  cl_closed :: bool
  cl_roomID :: string
  cl_sessionID :: string

record hub =
  hb_store :: "client_ptr \<Rightarrow> client"
  hb_clients :: "client_ptr set"
  hb_sessionClients :: "string \<rightharpoonup> client_ptr"
  hb_roomClients :: "string \<rightharpoonup> client_ptr list"
  hb_crashed :: bool

definition sendBufferSize :: nat where
  "sendBufferSize = 8"

definition NewHub :: hub where
  "NewHub = \<lparr>hb_store = (\<lambda>_. \<lparr>cl_send = [], cl_closed = False, cl_roomID = [], cl_sessionID = []\<rparr>),
     hb_clients = {}, hb_sessionClients = (\<lambda>_. None), hb_roomClients = (\<lambda>_. None),
     hb_crashed = False\<rparr>"

definition setClient :: "client_ptr \<Rightarrow> client \<Rightarrow> hub \<Rightarrow> hub" where
  "setClient c cl h = h\<lparr>hb_store := (hb_store h)(c := cl)\<rparr>"

text \<open>Non-blocking send: \<open>select\<close> with a default.\<close>

definition trySendClient :: "client_ptr \<Rightarrow> wire_msg \<Rightarrow> hub \<Rightarrow> hub" where
  "trySendClient c m h =
     (let cl = hb_store h c in
      if cl_closed cl then h\<lparr>hb_crashed := True\<rparr>
      else if length (cl_send cl) < sendBufferSize
        then setClient c (cl\<lparr>cl_send := cl_send cl @ [m]\<rparr>) h
      else h)"

text \<open>Blocking send \<open>c.send <- b\<close>: \<open>None\<close> while the buffer is full.\<close>

definition sendClient :: "client_ptr \<Rightarrow> wire_msg \<Rightarrow> hub \<Rightarrow> hub option" where
  "sendClient c m h =
     (let cl = hb_store h c in
      if cl_closed cl then Some (h\<lparr>hb_crashed := True\<rparr>)
      else if length (cl_send cl) < sendBufferSize
        then Some (setClient c (cl\<lparr>cl_send := cl_send cl @ [m]\<rparr>) h)
      else None)"

subsection \<open>Registration\<close>

definition roomPeers :: "string \<Rightarrow> hub \<Rightarrow> client_ptr list" where
  "roomPeers roomID h = (case hb_roomClients h roomID of None \<Rightarrow> [] | Some cs \<Rightarrow> cs)"

text \<open>\<open>ServeWS\<close> creates the client object; \<open>RunCtx\<close> then handles the \<open>register\<close> event.\<close>

definition serveWS :: "client_ptr \<Rightarrow> string \<Rightarrow> hub \<Rightarrow> hub" where
  "serveWS c roomID h =
     setClient c \<lparr>cl_send = [], cl_closed = False, cl_roomID = roomID, cl_sessionID = []\<rparr> h"

definition registerClient :: "client_ptr \<Rightarrow> hub \<Rightarrow> hub" where
  "registerClient c h =
     (let h1 = h\<lparr>hb_clients := insert c (hb_clients h)\<rparr>; r = cl_roomID (hb_store h c) in
      if r \<noteq> [] then h1\<lparr>hb_roomClients := (hb_roomClients h1)(r \<mapsto> roomPeers r h1 @ [c])\<rparr> else h1)"

text \<open>The part of the \<open>unregister\<close> event under the mutex.\<close>

definition removeClient :: "client_ptr \<Rightarrow> hub \<Rightarrow> hub" where
  "removeClient c h =
     (let cl = hb_store h c;
          h1 = (if c \<in> hb_clients h
                then setClient c (cl\<lparr>cl_closed := True\<rparr>) (h\<lparr>hb_clients := hb_clients h - {c}\<rparr>) else h);
          h2 = (if cl_sessionID cl \<noteq> []
                then h1\<lparr>hb_sessionClients := (hb_sessionClients h1)(cl_sessionID cl := None)\<rparr> else h1);
          r = cl_roomID cl
      in if r \<noteq> [] then
           (let updated = filter (\<lambda>p. p \<noteq> c) (roomPeers r h2) in
            h2\<lparr>hb_roomClients := (hb_roomClients h2)(r := (if updated = [] then None else Some updated))\<rparr>)
         else h2)"

definition peerLeft :: "string \<Rightarrow> wire_msg" where
  "peerLeft sid = Fields [''type'' \<mapsto> ''peer-left'', ''session_id'' \<mapsto> sid]"

text \<open>
  The whole event: the state after it, and the session \<open>OnDisconnect\<close> is called with, if it is.
\<close>

definition unregisterClient :: "client_ptr \<Rightarrow> hub \<Rightarrow> string option \<times> hub" where
  "unregisterClient c h =
     (let sid = cl_sessionID (hb_store h c); r = cl_roomID (hb_store h c);
          h1 = removeClient c h;
          peers = (if sid \<noteq> [] \<and> r \<noteq> [] then filter (\<lambda>p. p \<noteq> c) (roomPeers r h1) else []);
          h2 = fold (\<lambda>p. trySendClient p (peerLeft sid)) peers h1
      in (if sid \<noteq> [] then Some sid else None, h2))"

definition ClientCount :: "hub \<Rightarrow> nat" where
  "ClientCount h = card (hb_clients h)"

subsection \<open>Notifications and dispatch\<close>

text \<open>
  The client is looked up under the mutex and the message is sent after the mutex is released, so the
  lookup and the send are separate steps of the interleaving; \<open>hub_NotifySession\<close> is the call that
  nothing interrupts.  The fields are written after \<open>"type"\<close>, so a field of that name would replace it.
\<close>

definition notifyLookup :: "string \<Rightarrow> hub \<Rightarrow> client_ptr option" where
  "notifyLookup sid h = hb_sessionClients h sid"

definition notifyMessage :: "string \<Rightarrow> (string \<times> string) list \<Rightarrow> wire_msg" where
  "notifyMessage typ flds = Fields ([''type'' \<mapsto> typ] ++ map_of flds)"

definition hub_NotifySession :: "string \<Rightarrow> string \<Rightarrow> (string \<times> string) list \<Rightarrow> hub \<Rightarrow> hub" where
  "hub_NotifySession sid typ flds h =
     (case notifyLookup sid h of
        None \<Rightarrow> h
      | Some c \<Rightarrow> trySendClient c (notifyMessage typ flds) h)"

text \<open>The binding \<open>dispatch\<close> makes after a successful join.\<close>

definition bindSession :: "client_ptr \<Rightarrow> string \<Rightarrow> hub \<Rightarrow> hub" where
  "bindSession c sid h =
     setClient c ((hb_store h c)\<lparr>cl_sessionID := sid\<rparr>)
       (h\<lparr>hb_sessionClients := (hb_sessionClients h)(sid \<mapsto> c)\<rparr>)"

definition errorResponse :: "string \<Rightarrow> wire_msg" where
  "errorResponse m = Response (empty_message\<lparr>msg_Type := ''error'', msg_Message := m\<rparr>)"

text \<open>
  \<open>dispatch\<close> from the point where the handler has returned: the result of \<open>json.Unmarshal\<close> was
  \<open>None\<close> when the data is no JSON message, else the handler's answer.  \<open>None\<close> as a result: the
  reply waits for room in the client's buffer.
\<close>

definition dispatchResult :: "client_ptr \<Rightarrow> (gerror + signaling_message) option \<Rightarrow> hub \<Rightarrow> hub option" where
  "dispatchResult c answer h =
     (case answer of
        None \<Rightarrow> sendClient c (errorResponse ''invalid JSON'') h
      | Some (Inl e) \<Rightarrow> sendClient c (errorResponse (error_text e)) h
      | Some (Inr resp) \<Rightarrow>
          (let h1 = (if msg_Type resp = ''joined'' \<and> msg_SessionID resp \<noteq> []
                     then bindSession c (msg_SessionID resp) h else h)
           in if msg_Type resp = [] then Some h1 else sendClient c (Response resp) h1))"

text \<open>\<open>writePump\<close> takes the next message off the channel.\<close>

definition writePumpTakes :: "client_ptr \<Rightarrow> hub \<Rightarrow> (wire_msg \<times> hub) option" where
  "writePumpTakes c h =
     (case cl_send (hb_store h c) of
        [] \<Rightarrow> None
      | m # ms \<Rightarrow> Some (m, setClient c ((hb_store h c)\<lparr>cl_send := ms\<rparr>) h))"

subsection \<open>Well-formed hubs\<close>

text \<open>
  Registered clients have open channels, the room lists hold registered clients of that room and
  each of them once, and a session is bound to a registered client that carries its ID.
\<close>

definition clients_open :: "hub \<Rightarrow> bool" where
  "clients_open h \<longleftrightarrow> finite (hb_clients h)
     \<and> (\<forall>c \<in> hb_clients h. \<not> cl_closed (hb_store h c) \<and> length (cl_send (hb_store h c)) \<le> sendBufferSize)"

definition rooms_listed :: "hub \<Rightarrow> bool" where
  "rooms_listed h \<longleftrightarrow> (\<forall>r cs. hb_roomClients h r = Some cs \<longrightarrow> r \<noteq> [] \<and> cs \<noteq> [] \<and> distinct cs
     \<and> (\<forall>c \<in> set cs. c \<in> hb_clients h \<and> cl_roomID (hb_store h c) = r))"

definition sessions_bound :: "hub \<Rightarrow> bool" where
  "sessions_bound h \<longleftrightarrow> (\<forall>sid c. hb_sessionClients h sid = Some c \<longrightarrow>
     c \<in> hb_clients h \<and> cl_sessionID (hb_store h c) = sid \<and> sid \<noteq> [])"

definition hub_ok :: "hub \<Rightarrow> bool" where
  "hub_ok h \<longleftrightarrow> clients_open h \<and> rooms_listed h \<and> sessions_bound h \<and> \<not> hb_crashed h"

text \<open>
  What happens to a hub.  A join binds a session to a connected client; \<open>rebind\<close> tells whether
  the client had already joined under another session, which the code does not prevent.
\<close>

datatype hub_event =
    Connect client_ptr string
  | Gone client_ptr
  | Joined client_ptr string
  | NotifyEv string string "(string \<times> string) list"
  | Replied client_ptr wire_msg
  | Written client_ptr

fun hub_step :: "hub \<Rightarrow> hub_event \<Rightarrow> hub" where
  "hub_step h (Connect c r) = registerClient c (serveWS c r h)"
| "hub_step h (Gone c) = snd (unregisterClient c h)"
| "hub_step h (Joined c sid) = bindSession c sid h"
| "hub_step h (NotifyEv sid t f) = hub_NotifySession sid t f h"
| "hub_step h (Replied c m) = (case sendClient c m h of None \<Rightarrow> h | Some h' \<Rightarrow> h')"
| "hub_step h (Written c) = (case writePumpTakes c h of None \<Rightarrow> h | Some (_, h') \<Rightarrow> h')"

text \<open>Connections are new objects; only connected clients disconnect, join or are answered.\<close>

fun hub_enabled :: "hub \<Rightarrow> hub_event \<Rightarrow> bool" where
  "hub_enabled h (Connect c r) = (c \<notin> hb_clients h \<and> (\<forall>sid. hb_sessionClients h sid \<noteq> Some c))"
| "hub_enabled h (Gone c) = (c \<in> hb_clients h)"
| "hub_enabled h (Joined c sid) = (c \<in> hb_clients h \<and> sid \<noteq> [])"
| "hub_enabled h (NotifyEv sid t f) = True"
| "hub_enabled h (Replied c m) = (c \<in> hb_clients h)"
| "hub_enabled h (Written c) = True"

text \<open>The discipline the mobile client follows: one session per connection.\<close>

fun single_join :: "hub \<Rightarrow> hub_event \<Rightarrow> bool" where
  "single_join h (Joined c sid) =
     (cl_sessionID (hb_store h c) = [] \<or> cl_sessionID (hb_store h c) = sid)"
| "single_join h _ = True"

inductive hub_reach :: "(hub \<Rightarrow> hub_event \<Rightarrow> bool) \<Rightarrow> hub \<Rightarrow> bool" for allowed where
  start: "hub_reach allowed NewHub"
| event: "hub_reach allowed h \<Longrightarrow> hub_enabled h ev \<Longrightarrow> allowed h ev \<Longrightarrow> hub_reach allowed (hub_step h ev)"


subsection \<open>The discipline keeps the hub well formed\<close>

lemmas hub_defs = setClient_def trySendClient_def registerClient_def serveWS_def bindSession_def
  hub_NotifySession_def notifyLookup_def writePumpTakes_def

lemma hub_okI:
  "clients_open h \<Longrightarrow> rooms_listed h \<Longrightarrow> sessions_bound h \<Longrightarrow> \<not> hb_crashed h \<Longrightarrow> hub_ok h"
  by (simp add: hub_ok_def)

lemma hub_okD:
  assumes "hub_ok h"
  shows "clients_open h" "rooms_listed h" "sessions_bound h" "\<not> hb_crashed h"
  using assms by (simp_all add: hub_ok_def)

lemma NewHub_ok: "hub_ok NewHub"
  by (simp add: hub_ok_def NewHub_def clients_open_def rooms_listed_def sessions_bound_def)

text \<open>A non-blocking send to a registered client changes that client's queue and nothing else.\<close>

lemma trySendClient_frame [frame_simps]:
  "hb_clients (trySendClient c m h) = hb_clients h"
  "hb_sessionClients (trySendClient c m h) = hb_sessionClients h"
  "hb_roomClients (trySendClient c m h) = hb_roomClients h"
  "cl_roomID (hb_store (trySendClient c m h) p) = cl_roomID (hb_store h p)"
  "cl_sessionID (hb_store (trySendClient c m h) p) = cl_sessionID (hb_store h p)"
  "cl_closed (hb_store (trySendClient c m h) p) = cl_closed (hb_store h p)"
  by (auto simp: trySendClient_def setClient_def Let_def)

lemma trySendClient_queue:
  "cl_send (hb_store (trySendClient c m h) p)
     = (if p = c \<and> \<not> cl_closed (hb_store h c) \<and> length (cl_send (hb_store h c)) < sendBufferSize
        then cl_send (hb_store h c) @ [m] else cl_send (hb_store h p))"
  by (auto simp: trySendClient_def setClient_def Let_def)

lemma trySendClient_crashed:
  "hb_crashed (trySendClient c m h) \<longleftrightarrow> hb_crashed h \<or> cl_closed (hb_store h c)"
  by (auto simp: trySendClient_def setClient_def Let_def)

lemma trySendClient_ok:
  assumes "hub_ok h" "c \<in> hb_clients h"
  shows "hub_ok (trySendClient c m h)"
proof (rule hub_okI)
  show "clients_open (trySendClient c m h)"
    using hub_okD(1) [OF assms(1)]
    by (auto simp: clients_open_def frame_simps trySendClient_queue split: if_splits)
  show "rooms_listed (trySendClient c m h)"
    using hub_okD(2) [OF assms(1)] by (simp add: rooms_listed_def frame_simps)
  show "sessions_bound (trySendClient c m h)"
    using hub_okD(3) [OF assms(1)] by (simp add: sessions_bound_def frame_simps)
  show "\<not> hb_crashed (trySendClient c m h)"
    using hub_okD(1,4) [OF assms(1)] assms(2) by (auto simp: trySendClient_crashed clients_open_def)
qed

lemma fold_trySend_ok:
  "hub_ok h \<Longrightarrow> set ps \<subseteq> hb_clients h \<Longrightarrow> hub_ok (fold (\<lambda>p. trySendClient p m) ps h)"
  by (induction ps arbitrary: h) (simp_all add: trySendClient_ok frame_simps)

lemma fold_trySend_frame [frame_simps]:
  "hb_clients (fold (\<lambda>p. trySendClient p m) ps h) = hb_clients h"
  "hb_sessionClients (fold (\<lambda>p. trySendClient p m) ps h) = hb_sessionClients h"
  "hb_roomClients (fold (\<lambda>p. trySendClient p m) ps h) = hb_roomClients h"
  "cl_closed (hb_store (fold (\<lambda>p. trySendClient p m) ps h) q) = cl_closed (hb_store h q)"
  by (induction ps arbitrary: h) (simp_all add: frame_simps)

lemma fold_trySend_queue:
  "distinct ps \<Longrightarrow> cl_send (hb_store (fold (\<lambda>p. trySendClient p m) ps h) q)
     = (if q \<in> set ps \<and> \<not> cl_closed (hb_store h q) \<and> length (cl_send (hb_store h q)) < sendBufferSize
        then cl_send (hb_store h q) @ [m] else cl_send (hb_store h q))"
  by (induction ps arbitrary: h) (auto simp: trySendClient_queue frame_simps)

lemma roomPeers_Some: "hb_roomClients h r = Some cs \<Longrightarrow> roomPeers r h = cs"
  by (simp add: roomPeers_def)

lemma roomPeers_listed:
  assumes "rooms_listed h"
  shows "distinct (roomPeers r h)" "p \<in> set (roomPeers r h) \<Longrightarrow> p \<in> hb_clients h \<and> cl_roomID (hb_store h p) = r"
  using assms by (cases "hb_roomClients h r"; simp add: rooms_listed_def roomPeers_def)+

lemma registerClient_ok:
  assumes ok: "hub_ok h" and new: "c \<notin> hb_clients h" "\<forall>sid. hb_sessionClients h sid \<noteq> Some c"
  shows "hub_ok (registerClient c (serveWS c r h))"
proof (rule hub_okI)
  note d = hub_okD [OF ok]
  show "clients_open (registerClient c (serveWS c r h))"
    using d(1) by (auto simp: clients_open_def hub_defs Let_def sendBufferSize_def)
  have "c \<notin> set (roomPeers q h)" for q using roomPeers_listed(2) [OF d(2), of c q] new(1) by blast
  then show "rooms_listed (registerClient c (serveWS c r h))"
    using d(2) roomPeers_listed [OF d(2)] new(1)
    by (auto simp: rooms_listed_def hub_defs Let_def roomPeers_def)
  show "sessions_bound (registerClient c (serveWS c r h))"
    using d(3) new by (auto simp: sessions_bound_def hub_defs Let_def)
  show "\<not> hb_crashed (registerClient c (serveWS c r h))"
    using d(4) by (simp add: hub_defs Let_def)
qed

lemma bindSession_ok:
  assumes ok: "hub_ok h" and c: "c \<in> hb_clients h" "sid \<noteq> []"
    and one: "cl_sessionID (hb_store h c) = [] \<or> cl_sessionID (hb_store h c) = sid"
  shows "hub_ok (bindSession c sid h)"
proof (rule hub_okI)
  note d = hub_okD [OF ok]
  show "clients_open (bindSession c sid h)" using d(1) by (auto simp: clients_open_def hub_defs)
  show "rooms_listed (bindSession c sid h)" using d(2) by (auto simp: rooms_listed_def hub_defs)
  show "sessions_bound (bindSession c sid h)"
    using d(3) c one by (auto simp: sessions_bound_def hub_defs)
  show "\<not> hb_crashed (bindSession c sid h)" using d(4) by (simp add: hub_defs)
qed

lemma removeClient_fields:
  assumes "c \<in> hb_clients h"
  shows "hb_clients (removeClient c h) = hb_clients h - {c}"
    and "hb_sessionClients (removeClient c h)
         = (if cl_sessionID (hb_store h c) \<noteq> []
            then (hb_sessionClients h)(cl_sessionID (hb_store h c) := None) else hb_sessionClients h)"
    and "hb_store (removeClient c h) = (hb_store h)(c := (hb_store h c)\<lparr>cl_closed := True\<rparr>)"
    and "hb_crashed (removeClient c h) = hb_crashed h"
    and "hb_roomClients (removeClient c h)
         = (let r = cl_roomID (hb_store h c); updated = filter (\<lambda>p. p \<noteq> c) (roomPeers r h) in
            if r \<noteq> [] then (hb_roomClients h)(r := (if updated = [] then None else Some updated))
            else hb_roomClients h)"
  using assms by (simp_all add: removeClient_def setClient_def Let_def roomPeers_def)

lemma removeClient_ok:
  assumes ok: "hub_ok h" and c: "c \<in> hb_clients h"
  shows "hub_ok (removeClient c h)"
proof (rule hub_okI)
  note d = hub_okD [OF ok] and f = removeClient_fields [OF c]
  show "clients_open (removeClient c h)" using d(1) by (auto simp: clients_open_def f)
  show "rooms_listed (removeClient c h)"
    using d(2) roomPeers_listed [OF d(2)]
    by (auto simp: rooms_listed_def f Let_def split: if_splits)
  show "sessions_bound (removeClient c h)" using d(3) by (auto simp: sessions_bound_def f)
  show "\<not> hb_crashed (removeClient c h)" using d(4) by (simp add: f)
qed

text \<open>The state after an unregister event of a connected client.\<close>

definition leftPeers :: "client_ptr \<Rightarrow> hub \<Rightarrow> client_ptr list" where
  "leftPeers c h = (if cl_sessionID (hb_store h c) = [] \<or> cl_roomID (hb_store h c) = [] then []
     else filter (\<lambda>p. p \<noteq> c) (roomPeers (cl_roomID (hb_store h c)) h))"

lemma unregisterClient_eq:
  assumes "c \<in> hb_clients h"
  shows "unregisterClient c h =
    (if cl_sessionID (hb_store h c) \<noteq> [] then Some (cl_sessionID (hb_store h c)) else None,
     fold (\<lambda>p. trySendClient p (peerLeft (cl_sessionID (hb_store h c)))) (leftPeers c h) (removeClient c h))"
  using removeClient_fields [OF assms]
  by (auto simp: unregisterClient_def Let_def leftPeers_def roomPeers_def)

lemma leftPeers_listed:
  assumes "rooms_listed h"
  shows "distinct (leftPeers c h)" "set (leftPeers c h) \<subseteq> hb_clients h - {c}"
  using roomPeers_listed [OF assms] by (auto simp: leftPeers_def)

lemma unregisterClient_ok:
  assumes "hub_ok h" "c \<in> hb_clients h"
  shows "hub_ok (snd (unregisterClient c h))"
proof -
  have "set (leftPeers c h) \<subseteq> hb_clients (removeClient c h)"
    using leftPeers_listed(2) [OF hub_okD(2) [OF assms(1)]] by (simp add: removeClient_fields [OF assms(2)])
  then show ?thesis
    by (simp add: unregisterClient_eq [OF assms(2)] fold_trySend_ok removeClient_ok [OF assms])
qed

lemma writePumpTakes_ok:
  assumes ok: "hub_ok h" and w: "writePumpTakes c h = Some (m, h')"
  shows "hub_ok h'"
proof -
  obtain ms where q: "cl_send (hb_store h c) = m # ms"
    and h': "h' = setClient c ((hb_store h c)\<lparr>cl_send := ms\<rparr>) h"
    using w by (auto simp: writePumpTakes_def split: list.splits)
  note d = hub_okD [OF ok]
  show ?thesis
    unfolding h'
    by (rule hub_okI; use d q in \<open>force simp: clients_open_def rooms_listed_def sessions_bound_def setClient_def\<close>)
qed

lemma hub_NotifySession_ok: "hub_ok h \<Longrightarrow> hub_ok (hub_NotifySession sid t f h)"
  by (auto simp: hub_NotifySession_def notifyLookup_def split: option.splits
      intro!: trySendClient_ok dest: hub_okD(3) simp: sessions_bound_def)

text \<open>To a connected client the blocking send, when it succeeds, is the non-blocking one.\<close>

lemma sendClient_try:
  assumes "hub_ok h" "c \<in> hb_clients h"
  shows "sendClient c m h =
    (if length (cl_send (hb_store h c)) < sendBufferSize then Some (trySendClient c m h) else None)"
  using assms by (auto simp: sendClient_def trySendClient_def Let_def hub_ok_def clients_open_def)

lemma sendClient_ok: "hub_ok h \<Longrightarrow> c \<in> hb_clients h \<Longrightarrow> sendClient c m h = Some h' \<Longrightarrow> hub_ok h'"
  by (auto simp: sendClient_try trySendClient_ok split: if_splits)

lemma hub_step_ok:
  assumes "hub_ok h" "hub_enabled h ev" "single_join h ev"
  shows "hub_ok (hub_step h ev)"
  using assms
  by (cases ev) (auto intro: registerClient_ok unregisterClient_ok bindSession_ok hub_NotifySession_ok
      writePumpTakes_ok sendClient_ok split: option.splits)

lemma hub_reach_ok: "hub_reach single_join h \<Longrightarrow> hub_ok h"
  by (induction rule: hub_reach.induct) (simp_all add: NewHub_ok hub_step_ok)

text \<open>A list of events run from the empty hub, each of them enabled.\<close>

fun hub_run :: "hub \<Rightarrow> hub_event list \<Rightarrow> hub" where
  "hub_run h [] = h"
| "hub_run h (ev # evs) = hub_run (hub_step h ev) evs"

fun hub_legal :: "(hub \<Rightarrow> hub_event \<Rightarrow> bool) \<Rightarrow> hub \<Rightarrow> hub_event list \<Rightarrow> bool" where
  "hub_legal allowed h [] = True"
| "hub_legal allowed h (ev # evs) \<longleftrightarrow>
     hub_enabled h ev \<and> allowed h ev \<and> hub_legal allowed (hub_step h ev) evs"

lemma hub_run_reach:
  "hub_reach allowed h \<Longrightarrow> hub_legal allowed h evs \<Longrightarrow> hub_reach allowed (hub_run h evs)"
  by (induction h evs rule: hub_run.induct) (simp_all add: hub_reach.event)

lemmas hub_reach_run = hub_run_reach [OF hub_reach.start]

text \<open>Evaluates runs of the hub on concrete events.\<close>

lemmas hub_eval = hub_defs NewHub_def unregisterClient_def removeClient_def roomPeers_def Let_def
  sendBufferSize_def peerLeft_def

abbreviation any_join :: "hub \<Rightarrow> hub_event \<Rightarrow> bool" where
  "any_join \<equiv> \<lambda>_ _. True"

lemma hb_crashed_fold: "hb_crashed h \<Longrightarrow> hb_crashed (fold (\<lambda>p. trySendClient p m) ps h)"
  by (induction ps arbitrary: h) (simp_all add: trySendClient_crashed)

text \<open>After the unregister event of a connected client.\<close>

lemma unregisterClient_after:
  assumes "c \<in> hb_clients h"
  shows "cl_closed (hb_store (snd (unregisterClient c h)) c)"
    and "hb_clients (snd (unregisterClient c h)) = hb_clients h - {c}"
    and "hb_sessionClients (snd (unregisterClient c h))
         = (if cl_sessionID (hb_store h c) \<noteq> []
            then (hb_sessionClients h)(cl_sessionID (hb_store h c) := None) else hb_sessionClients h)"
  by (simp_all add: unregisterClient_eq [OF assms] frame_simps removeClient_fields [OF assms])

lemma registerClient_fields:
  "hb_clients (registerClient c (serveWS c r h)) = insert c (hb_clients h)"
  "hb_sessionClients (registerClient c (serveWS c r h)) = hb_sessionClients h"
  "cl_sessionID (hb_store (registerClient c (serveWS c r h)) c) = []"
  by (simp_all add: hub_defs Let_def)

lemma bindSession_fields:
  "hb_clients (bindSession c sid h) = hb_clients h"
  "hb_sessionClients (bindSession c sid h) = (hb_sessionClients h)(sid \<mapsto> c)"
  "cl_sessionID (hb_store (bindSession c sid h) p) = (if p = c then sid else cl_sessionID (hb_store h p))"
  "cl_roomID (hb_store (bindSession c sid h) p) = cl_roomID (hb_store h p)"
  "cl_send (hb_store (bindSession c sid h) p) = cl_send (hb_store h p)"
  "cl_closed (hb_store (bindSession c sid h) p) = cl_closed (hb_store h p)"
  "hb_crashed (bindSession c sid h) = hb_crashed h"
  by (simp_all add: hub_defs)

subsection \<open>Properties of the hub\<close>

text \<open>
  While every connection joins at most one session, no sequence of connects, joins, disconnects
  and notifications makes the hub send on a closed channel, and a session is only ever bound to a
  connected client that carries its ID.
\<close>

theorem hub_never_crashes:
  assumes "hub_reach single_join h"
  shows "\<not> hb_crashed h \<and>
    (case notifyLookup sid h of
       None \<Rightarrow> True
     | Some c \<Rightarrow> c \<in> hb_clients h \<and> \<not> cl_closed (hb_store h c) \<and> cl_sessionID (hb_store h c) = sid)"
  using hub_okD [OF hub_reach_ok [OF assms]]
  by (auto simp: notifyLookup_def sessions_bound_def clients_open_def split: option.split)

theorem hub_never_crashes_witness:
  "\<not> hb_crashed (hub_run NewHub [Connect 0 ''r'', Joined 0 ''s'', Connect 1 ''r'', Joined 1 ''t'',
     Gone 0, NotifyEv ''s'' ''room-closed'' []])"
proof -
  have "hub_legal single_join NewHub [Connect 0 ''r'', Joined 0 ''s'', Connect 1 ''r'', Joined 1 ''t'',
     Gone 0, NotifyEv ''s'' ''room-closed'' []]"
    by (simp add: hub_eval)
  from hub_never_crashes [OF hub_reach_run [OF this]] show ?thesis by blast
qed

text \<open>
  A connection that joins two sessions leaves the first one bound to it when it goes, so the
  next notification for that session is a send on a closed channel.
\<close>

theorem double_join_crashes:
  assumes "hub_reach any_join h" "c \<notin> hb_clients h" "\<forall>sid. hb_sessionClients h sid \<noteq> Some c"
    and "a \<noteq> []" "b \<noteq> []" "a \<noteq> b"
  shows "hub_reach any_join (hub_run h [Connect c r, Joined c a, Joined c b, Gone c])
    \<and> hb_crashed (hub_run h [Connect c r, Joined c a, Joined c b, Gone c, NotifyEv a t fs])"
proof -
  let ?h3 = "bindSession c b (bindSession c a (registerClient c (serveWS c r h)))"
  have c: "c \<in> hb_clients ?h3" by (simp add: bindSession_fields registerClient_fields)
  have b: "notifyLookup a (snd (unregisterClient c ?h3)) = Some c"
    using assms(5,6) by (simp add: notifyLookup_def unregisterClient_after [OF c] bindSession_fields)
  have "hub_reach any_join (hub_run h [Connect c r, Joined c a, Joined c b, Gone c])"
    by (rule hub_run_reach [OF assms(1)]) (use assms in \<open>simp add: bindSession_fields registerClient_fields\<close>)
  then show ?thesis
    by (simp add: hub_NotifySession_def b trySendClient_crashed unregisterClient_after(1) [OF c])
qed

theorem double_join_crashes_witness:
  "hb_crashed (hub_run NewHub [Connect 0 ''r'', Joined 0 ''s'', Joined 0 ''t'', Gone 0,
     NotifyEv ''s'' ''room-closed'' []])"
  using double_join_crashes [of NewHub 0 "''s''" "''t''" "''r''" "''room-closed''" "[]"] hub_reach.start
  by (simp add: NewHub_def)

text \<open>
  \<open>NotifySession\<close> reads the binding under the mutex but sends after releasing it: when the
  unregister event comes in between, the send is on the closed channel.
\<close>

theorem notify_races_unregister:
  assumes "hub_reach single_join h" "notifyLookup sid h = Some c"
  shows "hb_crashed (trySendClient c m (hub_step h (Gone c)))
    \<and> \<not> hb_crashed (hub_step (trySendClient c m h) (Gone c))"
proof -
  have ok: "hub_ok h" by (rule hub_reach_ok [OF assms(1)])
  then have c: "c \<in> hb_clients h"
    using hub_okD(3) [OF ok] assms(2) by (auto simp: sessions_bound_def notifyLookup_def)
  have "hub_ok (hub_step (trySendClient c m h) (Gone c))"
    by (rule hub_step_ok) (simp_all add: trySendClient_ok [OF ok c] frame_simps c)
  then show ?thesis by (simp add: trySendClient_crashed unregisterClient_after(1) [OF c] hub_ok_def)
qed

theorem notify_races_unregister_witness:
  "hb_crashed (trySendClient 0 (notifyMessage ''room-closed'' [])
     (hub_step (hub_run NewHub [Connect 0 ''r'', Joined 0 ''s'']) (Gone 0)))"
proof -
  have l: "hub_legal single_join NewHub [Connect 0 ''r'', Joined 0 ''s'']" by (simp add: hub_eval)
  have "notifyLookup ''s'' (hub_run NewHub [Connect 0 ''r'', Joined 0 ''s'']) = Some 0"
    by (simp add: hub_eval)
  from notify_races_unregister [OF hub_reach_run [OF l] this] show ?thesis by blast
qed

text \<open>
  When a participant reconnects before the hub has handled the end of the old connection, the
  late unregister event removes the binding of the new connection and reports the session as
  disconnected, although the new connection is up and carries the session's ID.
\<close>

theorem late_unregister_unbinds:
  assumes "hub_reach any_join h" "c \<in> hb_clients h" "cl_sessionID (hb_store h c) = sid" "sid \<noteq> []"
    and "c' \<in> hb_clients h" "c' \<noteq> c"
  shows "notifyLookup sid (bindSession c' sid h) = Some c'
    \<and> fst (unregisterClient c (bindSession c' sid h)) = Some sid
    \<and> notifyLookup sid (snd (unregisterClient c (bindSession c' sid h))) = None
    \<and> c' \<in> hb_clients (snd (unregisterClient c (bindSession c' sid h)))"
proof -
  have c: "c \<in> hb_clients (bindSession c' sid h)" using assms(2) by (simp add: bindSession_fields)
  show ?thesis
    using assms(3-6) unregisterClient_after [OF c]
    by (simp add: notifyLookup_def bindSession_fields unregisterClient_eq [OF c])
qed

theorem late_unregister_unbinds_witness:
  "notifyLookup ''s'' (hub_run NewHub
     [Connect 0 ''r'', Joined 0 ''s'', Connect 1 ''r'', Joined 1 ''s'', Gone 0]) = None"
proof -
  let ?evs = "[Connect 0 ''r'', Joined 0 ''s'', Connect 1 ''r'']"
  have l: "hub_legal any_join NewHub ?evs" by (simp add: hub_eval)
  have "0 \<in> hb_clients (hub_run NewHub ?evs)" "1 \<in> hb_clients (hub_run NewHub ?evs)"
    "cl_sessionID (hb_store (hub_run NewHub ?evs) 0) = ''s''"
    by (simp_all add: hub_eval)
  from late_unregister_unbinds [OF hub_reach_run [OF l] this(1,3) _ this(2)] show ?thesis by simp
qed

text \<open>
  C26: when a client that had joined a session disconnects, every other client of its room gets one
  peer-left message with that session's ID at the end of its queue unless the queue is full, and no
  other queue changes.
\<close>

theorem unregister_tells_the_peers:
  assumes "hub_reach single_join h" "c \<in> hb_clients h" "cl_sessionID (hb_store h c) \<noteq> []"
  shows "cl_send (hb_store (snd (unregisterClient c h)) p) =
    (if p \<noteq> c \<and> cl_roomID (hb_store h c) \<noteq> [] \<and> p \<in> set (roomPeers (cl_roomID (hb_store h c)) h)
        \<and> length (cl_send (hb_store h p)) < 8
     then cl_send (hb_store h p) @ [peerLeft (cl_sessionID (hb_store h c))]
     else cl_send (hb_store h p))"
proof -
  have ok: "hub_ok h" by (rule hub_reach_ok [OF assms(1)])
  note d = hub_okD [OF ok]
  have mem: "p \<in> set (leftPeers c h) \<longleftrightarrow> p \<noteq> c \<and> cl_roomID (hb_store h c) \<noteq> []
      \<and> p \<in> set (roomPeers (cl_roomID (hb_store h c)) h)"
    using assms(3) by (auto simp: leftPeers_def)
  have "p \<in> set (leftPeers c h) \<Longrightarrow> \<not> cl_closed (hb_store h p)"
    using leftPeers_listed(2) [OF d(2), of c] d(1) by (auto simp: clients_open_def)
  then show ?thesis
    by (simp add: unregisterClient_eq [OF assms(2)] fold_trySend_queue [OF leftPeers_listed(1) [OF d(2)]]
        removeClient_fields [OF assms(2)] sendBufferSize_def mem)
qed

theorem unregister_tells_the_peers_witness:
  "cl_send (hb_store (snd (unregisterClient 0
     (hub_run NewHub [Connect 0 ''r'', Joined 0 ''s'', Connect 1 ''r'']))) 1) = [peerLeft ''s'']"
proof -
  let ?evs = "[Connect 0 ''r'', Joined 0 ''s'', Connect 1 ''r'']"
  have l: "hub_legal single_join NewHub ?evs" by (simp add: hub_eval)
  have "0 \<in> hb_clients (hub_run NewHub ?evs)" "cl_sessionID (hb_store (hub_run NewHub ?evs) 0) \<noteq> []"
    by (simp_all add: hub_eval)
  from unregister_tells_the_peers [OF hub_reach_run [OF l] this, of 1] show ?thesis
    by (simp add: hub_eval)
qed

text \<open>
  \<open>NotifySession\<close> appends its message to the queue of the client the session is bound to, if
  there is one with room in its buffer; it changes nothing else.
\<close>

theorem notify_reaches_only_the_bound_client:
  assumes "hub_reach single_join h"
  shows "hub_NotifySession sid t fs h =
    (case notifyLookup sid h of
       Some c \<Rightarrow> if length (cl_send (hb_store h c)) < 8
         then setClient c ((hb_store h c)\<lparr>cl_send := cl_send (hb_store h c) @ [notifyMessage t fs]\<rparr>) h
         else h
     | None \<Rightarrow> h)"
  using hub_okD(1,3) [OF hub_reach_ok [OF assms]]
  by (auto simp: hub_NotifySession_def notifyLookup_def trySendClient_def sendBufferSize_def Let_def
      sessions_bound_def clients_open_def split: option.split)

theorem notify_reaches_only_the_bound_client_witness:
  "cl_send (hb_store (hub_NotifySession ''s'' ''room-closed'' []
     (hub_run NewHub [Connect 0 ''r'', Joined 0 ''s''])) 0) = [notifyMessage ''room-closed'' []]"
proof -
  have l: "hub_legal single_join NewHub [Connect 0 ''r'', Joined 0 ''s'']" by (simp add: hub_eval)
  show ?thesis
    unfolding notify_reaches_only_the_bound_client [OF hub_reach_run [OF l]] by (simp add: hub_eval)
qed

text \<open>
  Dispatching the answer of a successful join binds the session to the sending client before
  the reply is queued; a bad message or an error is answered with an error message to the sender
  alone, and an empty acknowledgement with nothing.  The reply never waits while the client's
  buffer has room.
\<close>

theorem dispatch_answers_the_sender:
  assumes "c \<in> hb_clients h" "clients_open h" "length (cl_send (hb_store h c)) < 8"
  shows "\<exists>h'. dispatchResult c answer h = Some h'
    \<and> cl_send (hb_store h' c) = cl_send (hb_store h c) @
        (case answer of
           None \<Rightarrow> [errorResponse ''invalid JSON'']
         | Some (Inl e) \<Rightarrow> [errorResponse (error_text e)]
         | Some (Inr resp) \<Rightarrow> if msg_Type resp = [] then [] else [Response resp])
    \<and> (\<forall>p. p \<noteq> c \<longrightarrow> hb_store h' p = hb_store h p)
    \<and> notifyLookup sid h' =
        (case answer of
           Some (Inr resp) \<Rightarrow> if msg_Type resp = ''joined'' \<and> msg_SessionID resp = sid \<and> sid \<noteq> []
                              then Some c else notifyLookup sid h
         | _ \<Rightarrow> notifyLookup sid h)"
  using assms
  by (auto simp: dispatchResult_def sendClient_def setClient_def bindSession_def notifyLookup_def Let_def
      sendBufferSize_def clients_open_def split: option.split sum.split)

theorem dispatch_answers_the_sender_witness:
  "map_option (\<lambda>h. cl_send (hb_store h 0)) (dispatchResult 0 None (hub_run NewHub [Connect 0 ''r'']))
     = Some [errorResponse ''invalid JSON'']"
proof -
  let ?h = "hub_run NewHub [Connect 0 ''r'']"
  have "0 \<in> hb_clients ?h" "clients_open ?h" "length (cl_send (hb_store ?h 0)) < 8"
    by (simp_all add: hub_eval clients_open_def)
  from dispatch_answers_the_sender [OF this, of None] show ?thesis
    by (force simp: hub_eval)
qed

end
