(* ===== verification/Connection.thy ===== *)
theory Connection
  imports Hub
begin

section \<open>One connection and its two pumps: adapters/signaling/client.go\<close>

text \<open>
  The read pump hands each message to \<open>dispatch\<close> and, when the handler has returned an answer, waits for room
  in the queue \<open>send\<close>.  When a read fails it waits for the hub loop to take the client from the channel \<open>unregister\<close>; from then on
  two goroutines end the connection, in either order: the hub loop closes the queue, the read pump closes the
  connection.  The write pump takes from the queue and pings; it ends when the queue is closed and empty, after a close frame, or when
  a write fails.  The hub appends notifications without waiting.  Deadlines and read errors show as steps that
  may happen at any time; the hub is taken to be running.  \<open>cn_accepted\<close> records what was put into the
  queue.

  \<open>Taken\<close>: the hub loop has the client and has not closed its queue; \<open>Closing\<close>: it has, and the read pump has not returned.
\<close>

datatype read_pump = Reading | Dispatching | Replying wire_msg | Unregistering | Taken | Closing | ReadPumpGone

datatype ws_frame = TextMessage wire_msg | PingMessage | CloseMessage

record connection =
  cn_send :: "wire_msg list"
  cn_sendClosed :: bool
  cn_readPump :: read_pump
  cn_writePump :: bool
  cn_open :: bool
  cn_frames :: "ws_frame list"
  cn_accepted :: "wire_msg list"

definition accepted_connection :: connection where
  "accepted_connection = \<lparr>cn_send = [], cn_sendClosed = False, cn_readPump = Reading, cn_writePump = True,
     cn_open = True, cn_frames = [], cn_accepted = []\<rparr>"

definition put :: "wire_msg \<Rightarrow> connection \<Rightarrow> connection" where
  "put m s = s\<lparr>cn_send := cn_send s @ [m], cn_accepted := cn_accepted s @ [m]\<rparr>"

definition has_room :: "connection \<Rightarrow> bool" where
  "has_room s \<longleftrightarrow> \<not> cn_sendClosed s \<and> length (cn_send s) < sendBufferSize"

text \<open>The deferred end of the write pump.\<close>

definition writePumpEnds :: "connection \<Rightarrow> connection" where
  "writePumpEnds s = s\<lparr>cn_writePump := False, cn_open := False\<rparr>"

inductive read_step :: "connection \<Rightarrow> connection \<Rightarrow> bool" where
  dispatch: "cn_readPump s = Reading \<Longrightarrow> cn_open s \<Longrightarrow> read_step s (s\<lparr>cn_readPump := Dispatching\<rparr>)"
| acknowledge: "cn_readPump s = Dispatching \<Longrightarrow> read_step s (s\<lparr>cn_readPump := Reading\<rparr>)"
| answer: "cn_readPump s = Dispatching \<Longrightarrow> read_step s (s\<lparr>cn_readPump := Replying m\<rparr>)"
| reply: "cn_readPump s = Replying m \<Longrightarrow> has_room s \<Longrightarrow> read_step s ((put m s)\<lparr>cn_readPump := Reading\<rparr>)"
| read_fails: "cn_readPump s = Reading \<Longrightarrow> read_step s (s\<lparr>cn_readPump := Unregistering\<rparr>)"
| taken: "cn_readPump s = Unregistering \<Longrightarrow> read_step s (s\<lparr>cn_readPump := Taken\<rparr>)"
| queue_closed: "cn_readPump s = Taken \<Longrightarrow> read_step s (s\<lparr>cn_sendClosed := True, cn_readPump := Closing\<rparr>)"
| closed_early: "cn_readPump s = Taken \<Longrightarrow> read_step s (s\<lparr>cn_open := False\<rparr>)"
| closed: "cn_readPump s = Closing \<Longrightarrow> read_step s (s\<lparr>cn_open := False, cn_readPump := ReadPumpGone\<rparr>)"

inductive write_step :: "connection \<Rightarrow> connection \<Rightarrow> bool" where
  text_written: "cn_writePump s \<Longrightarrow> cn_open s \<Longrightarrow> cn_send s = m # ms \<Longrightarrow>
    write_step s (s\<lparr>cn_send := ms, cn_frames := cn_frames s @ [TextMessage m]\<rparr>)"
| text_fails: "cn_writePump s \<Longrightarrow> cn_send s = m # ms \<Longrightarrow> write_step s (writePumpEnds (s\<lparr>cn_send := ms\<rparr>))"
| ping_written: "cn_writePump s \<Longrightarrow> cn_open s \<Longrightarrow> write_step s (s\<lparr>cn_frames := cn_frames s @ [PingMessage]\<rparr>)"
| ping_fails: "cn_writePump s \<Longrightarrow> write_step s (writePumpEnds s)"
| send_closed: "cn_writePump s \<Longrightarrow> cn_open s \<Longrightarrow> cn_send s = [] \<Longrightarrow> cn_sendClosed s \<Longrightarrow>
    write_step s (writePumpEnds (s\<lparr>cn_frames := cn_frames s @ [CloseMessage]\<rparr>))"
| close_fails: "cn_writePump s \<Longrightarrow> cn_send s = [] \<Longrightarrow> cn_sendClosed s \<Longrightarrow> write_step s (writePumpEnds s)"

inductive connection_step :: "connection \<Rightarrow> connection \<Rightarrow> bool" where
  reads: "read_step s s' \<Longrightarrow> connection_step s s'"
| writes: "write_step s s' \<Longrightarrow> connection_step s s'"
| notified: "has_room s \<Longrightarrow> connection_step s (put m s)"

abbreviation runs_to :: "connection \<Rightarrow> connection \<Rightarrow> bool" where
  "runs_to \<equiv> connection_step\<^sup>*\<^sup>*"

lemma runs_then: "runs_to s t \<Longrightarrow> connection_step t u \<Longrightarrow> runs_to s u"
  by (rule rtranclp.rtrancl_into_rtrancl)

inductive_cases read_stepE: "read_step s s'"
inductive_cases write_stepE: "write_step s s'"
inductive_cases connection_stepE: "connection_step s s'"

lemmas connection_cases = connection_stepE read_stepE write_stepE

subsection \<open>What is written\<close>

fun texts :: "ws_frame list \<Rightarrow> wire_msg list" where
  "texts [] = []"
| "texts (TextMessage m # fs) = m # texts fs"
| "texts (_ # fs) = texts fs"

lemma texts_append [simp]: "texts (fs @ gs) = texts fs @ texts gs"
  by (induction fs rule: texts.induct) simp_all

definition connection_ok :: "connection \<Rightarrow> bool" where
  "connection_ok s \<longleftrightarrow> length (cn_send s) \<le> sendBufferSize
     \<and> (cn_writePump s \<longrightarrow> cn_accepted s = texts (cn_frames s) @ cn_send s \<and> CloseMessage \<notin> set (cn_frames s))
     \<and> (\<exists>rest. cn_accepted s = texts (cn_frames s) @ rest)
     \<and> CloseMessage \<notin> set (butlast (cn_frames s))
     \<and> (CloseMessage \<in> set (cn_frames s) \<longrightarrow> cn_sendClosed s \<and> cn_accepted s = texts (cn_frames s))
     \<and> (cn_sendClosed s \<longleftrightarrow> cn_readPump s \<in> {Closing, ReadPumpGone})
     \<and> (cn_open s \<longrightarrow> cn_writePump s \<and> cn_readPump s \<noteq> ReadPumpGone)
     \<and> (cn_writePump s \<longrightarrow> cn_open s \<or> cn_readPump s \<in> {Taken, Closing, ReadPumpGone})"

lemma butlast_no_close: "CloseMessage \<notin> set fs \<Longrightarrow> CloseMessage \<notin> set (butlast fs)"
  by (auto dest: in_set_butlastD)

lemma connection_step_ok: "connection_ok s \<Longrightarrow> connection_step s s' \<Longrightarrow> connection_ok s'"
  by (elim connection_cases)
     (auto simp: connection_ok_def put_def has_room_def writePumpEnds_def butlast_append butlast_no_close)

lemma runs_ok: "runs_to s s' \<Longrightarrow> connection_ok s \<Longrightarrow> connection_ok s'"
  by (induction rule: rtranclp_induct) (blast intro: connection_step_ok)+

lemma accepted_ok: "connection_ok accepted_connection"
  by (simp add: connection_ok_def accepted_connection_def)

text \<open>
  C28: in every run of a connection the text frames written are an initial part of what was put into the
  queue, in that order; as long as the write pump runs, what is missing is exactly what the queue
  holds, at most eight messages; when a close frame is written, everything that was put into the queue has been
  written before, and the close frame is the last frame.
\<close>

theorem connection_writes_in_order:
  assumes "runs_to accepted_connection s"
  shows "(\<exists>rest. cn_accepted s = texts (cn_frames s) @ rest)
    \<and> (cn_writePump s \<longrightarrow> cn_accepted s = texts (cn_frames s) @ cn_send s)
    \<and> length (cn_send s) \<le> 8
    \<and> (CloseMessage \<in> set (cn_frames s) \<longrightarrow>
         cn_accepted s = texts (cn_frames s) \<and> (\<exists>fs. cn_frames s = fs @ [CloseMessage] \<and> CloseMessage \<notin> set fs))"
proof -
  have ok: "connection_ok s" by (rule runs_ok [OF assms accepted_ok])
  have "\<exists>fs. cn_frames s = fs @ [CloseMessage] \<and> CloseMessage \<notin> set fs" if "CloseMessage \<in> set (cn_frames s)"
    using ok that by (cases "cn_frames s" rule: rev_cases) (auto simp: connection_ok_def)
  then show ?thesis using ok by (auto simp: connection_ok_def sendBufferSize_def)
qed

lemma full_queue_reachable:
  "n \<le> 8 \<Longrightarrow> runs_to accepted_connection
     (accepted_connection\<lparr>cn_send := replicate n m, cn_accepted := replicate n m\<rparr>)"
proof (induction n)
  case (Suc n)
  let ?s = "accepted_connection\<lparr>cn_send := replicate n m, cn_accepted := replicate n m\<rparr>"
  have "has_room ?s" using Suc.prems by (simp add: has_room_def accepted_connection_def sendBufferSize_def)
  from notified [OF this, of m]
  have "connection_step ?s (accepted_connection\<lparr>cn_send := replicate (Suc n) m, cn_accepted := replicate (Suc n) m\<rparr>)"
    by (simp add: put_def replicate_append_same)
  moreover have "runs_to accepted_connection ?s" using Suc by simp
  ultimately show ?case by (rule runs_then [rotated])
qed (simp add: accepted_connection_def)

text \<open>A run in which the client has gone, a notification waits, and the close frame is written after it.\<close>

definition closed_connection :: connection where
  "closed_connection = \<lparr>cn_send = [], cn_sendClosed = True, cn_readPump = Closing, cn_writePump = False, cn_open = False,
     cn_frames = [TextMessage (peerLeft ''s''), CloseMessage], cn_accepted = [peerLeft ''s'']\<rparr>"

lemma closed_reachable: "runs_to accepted_connection closed_connection"
proof -
  let ?q = "accepted_connection\<lparr>cn_send := [peerLeft ''s''], cn_accepted := [peerLeft ''s'']\<rparr>"
  let ?t = "?q\<lparr>cn_sendClosed := True, cn_readPump := Closing\<rparr>"
  let ?w = "?t\<lparr>cn_send := [], cn_frames := [TextMessage (peerLeft ''s'')]\<rparr>"
  have q: "runs_to accepted_connection ?q" using full_queue_reachable [of 1 "peerLeft ''s''"] by simp
  have "read_step ?q (?q\<lparr>cn_readPump := Unregistering\<rparr>)"
    by (rule read_step.read_fails) (simp add: accepted_connection_def)
  moreover have "read_step (?q\<lparr>cn_readPump := Unregistering\<rparr>) (?q\<lparr>cn_readPump := Taken\<rparr>)"
    using read_step.taken [of "?q\<lparr>cn_readPump := Unregistering\<rparr>"] by simp
  moreover have "read_step (?q\<lparr>cn_readPump := Taken\<rparr>) ?t"
    using read_step.queue_closed [of "?q\<lparr>cn_readPump := Taken\<rparr>"] by simp
  ultimately have t: "runs_to ?q ?t" by (meson reads runs_then rtranclp.rtrancl_refl)
  have "write_step ?t ?w" using write_step.text_written [of ?t] by (simp add: accepted_connection_def)
  moreover have "write_step ?w closed_connection"
    using write_step.send_closed [of ?w] by (simp add: accepted_connection_def closed_connection_def writePumpEnds_def)
  ultimately have "runs_to ?t closed_connection" by (meson writes runs_then rtranclp.rtrancl_refl)
  then show ?thesis using rtranclp_trans [OF rtranclp_trans [OF q t]] by blast
qed

theorem connection_writes_in_order_witness:
  "\<exists>fs. cn_frames closed_connection = fs @ [CloseMessage] \<and> texts fs = [peerLeft ''s'']"
  using connection_writes_in_order [OF closed_reachable] by (simp add: closed_connection_def)

subsection \<open>When an answer can be delivered\<close>

lemma live_writer_makes_room:
  assumes ok: "connection_ok s" and w: "cn_writePump s" and r: "cn_readPump s = Replying m"
  shows "\<exists>s'. runs_to s s' \<and> cn_readPump s' = Reading \<and> cn_accepted s' = cn_accepted s @ [m]"
proof (cases "has_room s")
  case True
  then have "connection_step s ((put m s)\<lparr>cn_readPump := Reading\<rparr>)" using r by (blast intro: reads reply)
  then show ?thesis by (intro exI [of _ "(put m s)\<lparr>cn_readPump := Reading\<rparr>"]) (simp add: put_def r_into_rtranclp)
next
  case False
  then obtain x xs where q: "cn_send s = x # xs" "length xs < sendBufferSize" "cn_open s" "\<not> cn_sendClosed s"
    using ok r w by (cases "cn_send s") (auto simp: connection_ok_def has_room_def sendBufferSize_def)
  let ?s = "s\<lparr>cn_send := xs, cn_frames := cn_frames s @ [TextMessage x]\<rparr>"
  have "connection_step s ?s" using w q by (blast intro: writes text_written)
  moreover have "connection_step ?s ((put m ?s)\<lparr>cn_readPump := Reading\<rparr>)"
    using q r by (intro reads reply) (simp_all add: has_room_def)
  ultimately have "runs_to s ((put m ?s)\<lparr>cn_readPump := Reading\<rparr>)" by (simp add: converse_rtranclp_into_rtranclp)
  then show ?thesis by (intro exI conjI) (assumption, simp_all add: put_def)
qed

text \<open>The state the read pump does not leave: no write pump, a full queue, an answer to deliver.\<close>

definition reader_stuck :: "wire_msg \<Rightarrow> connection \<Rightarrow> bool" where
  "reader_stuck m s \<longleftrightarrow> \<not> cn_writePump s \<and> cn_readPump s = Replying m \<and> \<not> cn_sendClosed s
     \<and> sendBufferSize \<le> length (cn_send s)"

lemma reader_stuck_step: "reader_stuck m s \<Longrightarrow> connection_step s s' \<Longrightarrow> reader_stuck m s'"
  by (elim connection_cases) (auto simp: reader_stuck_def has_room_def)

lemma reader_stuck_runs: "runs_to s s' \<Longrightarrow> reader_stuck m s \<Longrightarrow> reader_stuck m s'"
  by (induction rule: rtranclp_induct) (blast intro: reader_stuck_step)+

text \<open>
  While its write pump runs, a connection can always deliver the answer its read pump holds.  Once
  the write pump has ended with the queue full, the read pump waits forever: it never reads again, so
  the client is never unregistered and its session never told of the disconnect.
\<close>

theorem answers_need_the_write_pump:
  assumes "runs_to accepted_connection s" and "cn_readPump s = Replying m"
  shows "(cn_writePump s \<longrightarrow> (\<exists>s'. runs_to s s' \<and> cn_readPump s' = Reading \<and> cn_accepted s' = cn_accepted s @ [m]))
    \<and> (\<not> cn_writePump s \<and> length (cn_send s) = 8 \<longrightarrow>
        (\<forall>s'. runs_to s s' \<longrightarrow> cn_readPump s' = Replying m \<and> \<not> cn_sendClosed s'))"
proof -
  have ok: "connection_ok s" by (rule runs_ok [OF assms(1) accepted_ok])
  have stuck: "\<forall>s'. runs_to s s' \<longrightarrow> cn_readPump s' = Replying m \<and> \<not> cn_sendClosed s'"
    if dead: "\<not> cn_writePump s" "length (cn_send s) = 8"
  proof (intro allI impI)
    fix s'
    assume run: "runs_to s s'"
    have "reader_stuck m s" using ok assms(2) dead by (simp add: connection_ok_def reader_stuck_def sendBufferSize_def)
    from reader_stuck_runs [OF run this] show "cn_readPump s' = Replying m \<and> \<not> cn_sendClosed s'"
      by (simp add: reader_stuck_def)
  qed
  show ?thesis
  proof (intro conjI impI)
    assume "cn_writePump s"
    then show "\<exists>s'. runs_to s s' \<and> cn_readPump s' = Reading \<and> cn_accepted s' = cn_accepted s @ [m]"
      by (rule live_writer_makes_room [OF ok _ assms(2)])
  next
    assume "\<not> cn_writePump s \<and> length (cn_send s) = 8"
    then show "\<forall>s'. runs_to s s' \<longrightarrow> cn_readPump s' = Replying m \<and> \<not> cn_sendClosed s'"
      by (elim conjE) (rule stuck)
  qed
qed

definition stuck_connection :: connection where
  "stuck_connection = \<lparr>cn_send = replicate 8 (peerLeft ''s''), cn_sendClosed = False,
     cn_readPump = Replying (errorResponse ''invalid JSON''), cn_writePump = False, cn_open = False, cn_frames = [],
     cn_accepted = replicate 8 (peerLeft ''s'')\<rparr>"

lemma stuck_reachable: "runs_to accepted_connection stuck_connection"
proof -
  let ?s = "accepted_connection\<lparr>cn_send := replicate 8 (peerLeft ''s''), cn_accepted := replicate 8 (peerLeft ''s'')\<rparr>"
  let ?t = "?s\<lparr>cn_readPump := Replying (errorResponse ''invalid JSON'')\<rparr>"
  have s: "runs_to accepted_connection ?s" by (rule full_queue_reachable) simp
  have "connection_step ?s (?s\<lparr>cn_readPump := Dispatching\<rparr>)" by (intro reads dispatch) (simp_all add: accepted_connection_def)
  moreover have "connection_step (?s\<lparr>cn_readPump := Dispatching\<rparr>) ?t"
    using answer [of "?s\<lparr>cn_readPump := Dispatching\<rparr>" "errorResponse ''invalid JSON''"] by (simp add: reads)
  ultimately have t: "runs_to ?s ?t" by (rule converse_rtranclp_into_rtranclp [OF _ r_into_rtranclp])
  have "connection_step ?t (writePumpEnds ?t)" by (intro writes ping_fails) (simp add: accepted_connection_def)
  moreover have "writePumpEnds ?t = stuck_connection"
    by (simp add: writePumpEnds_def stuck_connection_def accepted_connection_def)
  ultimately have "connection_step ?t stuck_connection" by simp
  from runs_then [OF rtranclp_trans [OF s t] this] show ?thesis .
qed

theorem answers_need_the_write_pump_witness:
  "\<forall>s'. runs_to stuck_connection s' \<longrightarrow> \<not> cn_sendClosed s'"
  using answers_need_the_write_pump [OF stuck_reachable, of "errorResponse ''invalid JSON''"]
  by (simp add: stuck_connection_def)

end
