(* ===== verification/Pipeline_End.thy ===== *)
theory Pipeline_End
  imports Pipeline
begin

section \<open>The end of a pipeline: the wait group of roomsvc/pipeline.go\<close>

text \<open>
  \<open>startPipeline\<close> adds two to the wait group and starts the two halves; a half adds one for its
  backpressure goroutine and one for the goroutine that forwards transcripts, and is done when it
  returns; a last goroutine waits for the group and records \<open>pipeline_stop\<close> with the totals.  A half is
  the list of actions \<open>runHalf\<close> gives for the outcome of its calls; halves and helpers interleave
  freely.  \<open>True\<close> names the half from A to B.

  A helper runs until what it reads from is over: the backpressure goroutine until the decoded audio is
  closed or the context cancelled, the forwarder until the translator closes \<open>Transcript\<close>, whatever has become of the half.
  Both are closed, and the context is cancelled, from outside: by the codec, by the translator, by \<open>LeaveRoom\<close> or \<open>DeleteRoom\<close>.
  A call that has not returned is an action not yet done.  What the helpers pass on changes nothing here.
\<close>

record ending_half =
  eh_todo :: "half_action list"
  eh_running :: bool
  eh_backpressure :: nat
  eh_forwarders :: nat
  eh_pcmClosed :: bool
  eh_transcriptClosed :: bool
  eh_totalChunks :: int

record ending_pipeline =
  ep_half :: "bool \<Rightarrow> ending_half"
  ep_wg :: nat
  ep_cancelled :: bool
  ep_stops :: "(int \<times> int) list"
  ep_waiting :: bool

definition launch :: "(bool \<Rightarrow> half_action list) \<Rightarrow> ending_pipeline" where
  "launch acts = \<lparr>ep_half = (\<lambda>d. \<lparr>eh_todo = acts d, eh_running = True, eh_backpressure = 0, eh_forwarders = 0,
       eh_pcmClosed = False, eh_transcriptClosed = False, eh_totalChunks = 0\<rparr>),
     ep_wg = 2, ep_cancelled = False, ep_stops = [], ep_waiting = True\<rparr>"

fun isForward :: "half_action \<Rightarrow> bool" where
  "isForward (ForwardTranscripts sid) = True"
| "isForward _ = False"

definition backpressures :: "half_action \<Rightarrow> nat" where
  "backpressures a = (if a = StartBackpressure then 1 else 0)"

definition forwards :: "half_action \<Rightarrow> nat" where
  "forwards a = (if isForward a then 1 else 0)"

definition chunks_of :: "half_action \<Rightarrow> int" where
  "chunks_of a = (case a of AddTotalChunks n \<Rightarrow> n | _ \<Rightarrow> 0)"

text \<open>The steps of the pipeline's own goroutines.\<close>

inductive ending_step :: "ending_pipeline \<Rightarrow> ending_pipeline \<Rightarrow> bool" where
  acts: "eh_running (ep_half s d) \<Longrightarrow> eh_todo (ep_half s d) = a # as \<Longrightarrow>
    ending_step s (s\<lparr>ep_half := (ep_half s)(d := (ep_half s d)\<lparr>eh_todo := as,
        eh_backpressure := eh_backpressure (ep_half s d) + backpressures a,
        eh_forwarders := eh_forwarders (ep_half s d) + forwards a,
        eh_totalChunks := eh_totalChunks (ep_half s d) + chunks_of a\<rparr>),
      ep_wg := ep_wg s + backpressures a + forwards a\<rparr>)"
| half_done: "eh_running (ep_half s d) \<Longrightarrow> eh_todo (ep_half s d) = [] \<Longrightarrow>
    ending_step s (s\<lparr>ep_half := (ep_half s)(d := (ep_half s d)\<lparr>eh_running := False\<rparr>), ep_wg := ep_wg s - 1\<rparr>)"
| backpressure_done: "eh_backpressure (ep_half s d) = Suc n \<Longrightarrow> eh_pcmClosed (ep_half s d) \<or> ep_cancelled s \<Longrightarrow>
    ending_step s (s\<lparr>ep_half := (ep_half s)(d := (ep_half s d)\<lparr>eh_backpressure := n\<rparr>), ep_wg := ep_wg s - 1\<rparr>)"
| forwarder_done: "eh_forwarders (ep_half s d) = Suc n \<Longrightarrow> eh_transcriptClosed (ep_half s d) \<Longrightarrow>
    ending_step s (s\<lparr>ep_half := (ep_half s)(d := (ep_half s d)\<lparr>eh_forwarders := n\<rparr>), ep_wg := ep_wg s - 1\<rparr>)"
| pipeline_stop: "ep_waiting s \<Longrightarrow> ep_wg s = 0 \<Longrightarrow>
    ending_step s (s\<lparr>ep_waiting := False,
      ep_stops := ep_stops s @ [(eh_totalChunks (ep_half s True), eh_totalChunks (ep_half s False))]\<rparr>)"

text \<open>What comes from outside.\<close>

inductive outside_step :: "ending_pipeline \<Rightarrow> ending_pipeline \<Rightarrow> bool" where
  cancelled: "outside_step s (s\<lparr>ep_cancelled := True\<rparr>)"
| pcm_closed: "outside_step s (s\<lparr>ep_half := (ep_half s)(d := (ep_half s d)\<lparr>eh_pcmClosed := True\<rparr>)\<rparr>)"
| transcript_closed: "outside_step s (s\<lparr>ep_half := (ep_half s)(d := (ep_half s d)\<lparr>eh_transcriptClosed := True\<rparr>)\<rparr>)"

definition pipeline_runs :: "ending_pipeline \<Rightarrow> ending_pipeline \<Rightarrow> bool" where
  "pipeline_runs = (\<lambda>s s'. ending_step s s' \<or> outside_step s s')\<^sup>*\<^sup>*"

definition live :: "ending_half \<Rightarrow> nat" where
  "live h = (if eh_running h then 1 else 0) + eh_backpressure h + eh_forwarders h"

definition total_of :: "half_action list \<Rightarrow> int" where
  "total_of as = sum_list (map chunks_of as)"

text \<open>
  The counter of the group is the number of live goroutines; what is done and to do adds up; a helper that was started
  and has ended has had its reason.
\<close>

definition half_ok :: "half_action list \<Rightarrow> bool \<Rightarrow> ending_half \<Rightarrow> bool" where
  "half_ok as off h \<longleftrightarrow> eh_totalChunks h + total_of (eh_todo h) = total_of as
     \<and> (eh_running h \<or> eh_todo h = [])
     \<and> (StartBackpressure \<in> set as \<longrightarrow> StartBackpressure \<in> set (eh_todo h) \<or> 0 < eh_backpressure h \<or> eh_pcmClosed h \<or> off)
     \<and> (list_ex isForward as \<longrightarrow> list_ex isForward (eh_todo h) \<or> 0 < eh_forwarders h \<or> eh_transcriptClosed h)"

definition ending_ok :: "(bool \<Rightarrow> half_action list) \<Rightarrow> ending_pipeline \<Rightarrow> bool" where
  "ending_ok acts s \<longleftrightarrow> ep_wg s = live (ep_half s True) + live (ep_half s False)
     \<and> (\<forall>d. half_ok (acts d) (ep_cancelled s) (ep_half s d))
     \<and> (ep_stops s = (if ep_waiting s then [] else [(total_of (acts True), total_of (acts False))]))
     \<and> (ep_waiting s \<or> ep_wg s = 0)"

lemma total_of_simps [simp]: "total_of [] = 0" "total_of (a # as) = chunks_of a + total_of as"
  by (simp_all add: total_of_def)

lemma ending_launch: "ending_ok acts (launch acts)"
  by (simp add: ending_ok_def launch_def live_def half_ok_def)

abbreviation living :: "(bool \<Rightarrow> ending_half) \<Rightarrow> nat" where
  "living f \<equiv> live (f True) + live (f False)"

lemma living_upd: "living (f(d := h)) + live (f d) = living f + live h"
  by (cases d) simp_all

lemma ending_okD:
  assumes "ending_ok acts s"
  shows "ep_wg s = living (ep_half s)" and "half_ok (acts d) (ep_cancelled s) (ep_half s d)"
    and "ep_stops s = (if ep_waiting s then [] else [(total_of (acts True), total_of (acts False))])"
    and "ep_waiting s \<or> ep_wg s = 0"
proof -
  from assms show "ep_wg s = living (ep_half s)" unfolding ending_ok_def by (elim conjE)
  from assms show "half_ok (acts d) (ep_cancelled s) (ep_half s d)" unfolding ending_ok_def by blast
  from assms show "ep_stops s = (if ep_waiting s then [] else [(total_of (acts True), total_of (acts False))])"
    unfolding ending_ok_def by (elim conjE)
  from assms show "ep_waiting s \<or> ep_wg s = 0" unfolding ending_ok_def by (elim conjE)
qed

text \<open>A step of one half.\<close>

lemma ending_half_step:
  assumes ok: "ending_ok acts s" and h: "half_ok (acts d) (ep_cancelled s) h" and wg: "wg + live (ep_half s d) = ep_wg s + live h"
    and live: "0 < live (ep_half s d)"
  shows "ending_ok acts (s\<lparr>ep_half := (ep_half s)(d := h), ep_wg := wg\<rparr>)"
proof -
  note o = ending_okD [OF ok]
  have "live (ep_half s d) \<le> living (ep_half s)" by (cases d) simp_all
  then have w: "ep_waiting s" using o(1,4) live by auto
  moreover have "wg = living ((ep_half s)(d := h))" using living_upd [of "ep_half s" d h] wg o(1) by linarith
  moreover have "half_ok (acts e) (ep_cancelled s) (((ep_half s)(d := h)) e)" for e
    using o(2) [of e] h by (cases "e = d") simp_all
  ultimately show ?thesis using o(3) unfolding ending_ok_def by simp
qed

lemma ending_step_ok:
  assumes ok: "ending_ok acts s" and "ending_step s s'"
  shows "ending_ok acts s'"
  using assms(2)
proof cases
  case (acts d a as)
  show ?thesis
    unfolding acts(1)
    by (rule ending_half_step [OF ok])
       (use acts ending_okD(2) [OF ok, of d] in \<open>auto simp: half_ok_def live_def backpressures_def forwards_def\<close>)
next
  case (half_done d)
  have "live (ep_half s d) \<le> ep_wg s" unfolding ending_okD(1) [OF ok] by (cases d) simp_all
  then show ?thesis
    unfolding half_done(1)
    by (intro ending_half_step [OF ok])
       (use half_done ending_okD(2) [OF ok, of d] in \<open>auto simp: half_ok_def live_def\<close>)
next
  case (backpressure_done d n)
  have "live (ep_half s d) \<le> ep_wg s" unfolding ending_okD(1) [OF ok] by (cases d) simp_all
  then show ?thesis
    unfolding backpressure_done(1)
    by (intro ending_half_step [OF ok])
       (use backpressure_done ending_okD(2) [OF ok, of d] in \<open>auto simp: half_ok_def live_def\<close>)
next
  case (forwarder_done d n)
  have "live (ep_half s d) \<le> ep_wg s" unfolding ending_okD(1) [OF ok] by (cases d) simp_all
  then show ?thesis
    unfolding forwarder_done(1)
    by (intro ending_half_step [OF ok])
       (use forwarder_done ending_okD(2) [OF ok, of d] in \<open>auto simp: half_ok_def live_def\<close>)
next
  case pipeline_stop
  note o = ending_okD [OF ok]
  have todo: "eh_todo (ep_half s d) = []" "eh_totalChunks (ep_half s d) = total_of (acts d)" for d
    using o(1) o(2) [of d] pipeline_stop(3) by (cases d; auto simp: half_ok_def live_def)+
  have "half_ok (acts d) (ep_cancelled s') (ep_half s' d)" for d using o(2) pipeline_stop(1) by simp
  moreover have "ep_wg s' = living (ep_half s')" "ep_wg s' = 0" "\<not> ep_waiting s'" using o(1) pipeline_stop by simp_all
  moreover have "ep_stops s' = [(total_of (acts True), total_of (acts False))]" using o(3) pipeline_stop todo(2) by simp
  ultimately show ?thesis unfolding ending_ok_def by simp
qed

lemma outside_step_ok: "outside_step s s' \<Longrightarrow> ending_ok acts s \<Longrightarrow> ending_ok acts s'"
proof (induction rule: outside_step.induct)
  case (cancelled s)
  then show ?case by (auto simp: ending_ok_def half_ok_def)
next
  case (pcm_closed s d)
  then have "half_ok (acts d) (ep_cancelled s) ((ep_half s d)\<lparr>eh_pcmClosed := True\<rparr>)"
    using ending_okD(2) [OF pcm_closed, of d] by (auto simp: half_ok_def)
  then show ?case using pcm_closed by (cases d) (auto simp: ending_ok_def live_def)
next
  case (transcript_closed s d)
  then have "half_ok (acts d) (ep_cancelled s) ((ep_half s d)\<lparr>eh_transcriptClosed := True\<rparr>)"
    using ending_okD(2) [OF transcript_closed, of d] by (auto simp: half_ok_def)
  then show ?case using transcript_closed by (cases d) (auto simp: ending_ok_def live_def)
qed

lemma pipeline_runs_ok: "pipeline_runs (launch acts) s \<Longrightarrow> ending_ok acts s"
  unfolding pipeline_runs_def
  by (induction rule: rtranclp_induct) (auto intro: ending_launch ending_step_ok outside_step_ok)

text \<open>Every step of the pipeline's own is one of finitely many; what comes from outside adds none.\<close>

definition effort :: "ending_pipeline \<Rightarrow> nat" where
  "effort s = (\<Sum>d\<in>UNIV. 3 * length (eh_todo (ep_half s d)) + live (ep_half s d)) + (if ep_waiting s then 1 else 0)"

lemma effort_eq: "effort s = 3 * length (eh_todo (ep_half s True)) + live (ep_half s True)
    + (3 * length (eh_todo (ep_half s False)) + live (ep_half s False)) + (if ep_waiting s then 1 else 0)"
  by (simp add: effort_def UNIV_bool)

lemma ending_step_effort: "ending_step s s' \<Longrightarrow> effort s' < effort s"
proof (induction rule: ending_step.induct)
  case (acts s d a as)
  then show ?case by (cases d) (auto simp: effort_eq live_def backpressures_def forwards_def)
next
  case (half_done s d)
  then show ?case by (cases d) (auto simp: effort_eq live_def)
next
  case (backpressure_done s d n)
  then show ?case by (cases d) (auto simp: effort_eq live_def)
next
  case (forwarder_done s d n)
  then show ?case by (cases d) (auto simp: effort_eq live_def)
qed (simp add: effort_eq)

lemma outside_step_effort: "outside_step s s' \<Longrightarrow> effort s' = effort s"
  by (induction rule: outside_step.induct) (auto simp: effort_eq live_def)

text \<open>What keeps a pipeline from ending: both halves have returned, and a helper waits for what is not over.\<close>

definition held :: "ending_pipeline \<Rightarrow> bool" where
  "held s \<longleftrightarrow> (\<forall>d. \<not> eh_running (ep_half s d)) \<and> (\<exists>d. 0 < eh_backpressure (ep_half s d) \<or> 0 < eh_forwarders (ep_half s d))
     \<and> (\<forall>d. 0 < eh_backpressure (ep_half s d) \<longrightarrow> \<not> eh_pcmClosed (ep_half s d) \<and> \<not> ep_cancelled s)
     \<and> (\<forall>d. 0 < eh_forwarders (ep_half s d) \<longrightarrow> \<not> eh_transcriptClosed (ep_half s d))"

lemma half_goes_on: "eh_running (ep_half s d) \<Longrightarrow> \<exists>s'. ending_step s s'"
  by (cases "eh_todo (ep_half s d)") (blast intro: acts half_done)+

lemma held_stays:
  assumes "ending_ok acts s"
  shows "held s \<Longrightarrow> \<not> ending_step s s'"
proof
  assume h: "held s" and "ending_step s s'"
  from this(2) show False
  proof cases
    case pipeline_stop
    obtain d where "0 < eh_backpressure (ep_half s d) \<or> 0 < eh_forwarders (ep_half s d)" using h unfolding held_def by blast
    then have "0 < live (ep_half s d)" by (auto simp: live_def)
    then show ?thesis using ending_okD(1) [OF assms] pipeline_stop(3) by (cases d) simp_all
  qed (use h in \<open>auto simp: held_def\<close>)
qed

lemma ended_stays:
  assumes "ending_ok acts s" and "\<not> ep_waiting s"
  shows "\<not> ending_step s s'"
proof
  have "live (ep_half s d) = 0" for d using ending_okD(1,4) [OF assms(1)] assms(2) by (cases d) simp_all
  then have z: "\<not> eh_running (ep_half s d)" "eh_backpressure (ep_half s d) = 0" "eh_forwarders (ep_half s d) = 0" for d
    by (metis add_is_0 live_def zero_neq_one)+
  assume "ending_step s s'"
  then show False by cases (use z assms(2) in simp_all)
qed

lemma ending_enabled:
  assumes ok: "ending_ok acts s"
  shows "(\<exists>s'. ending_step s s') \<longleftrightarrow> ep_waiting s \<and> \<not> held s"
proof
  show "\<exists>s'. ending_step s s' \<Longrightarrow> ep_waiting s \<and> \<not> held s" using held_stays [OF ok] ended_stays [OF ok] by blast
  assume w: "ep_waiting s \<and> \<not> held s"
  show "\<exists>s'. ending_step s s'"
  proof (cases "\<exists>d. eh_running (ep_half s d)")
    case True
    then show ?thesis using half_goes_on by blast
  next
    case False
    have "ep_wg s = 0" if "\<nexists>d. 0 < eh_backpressure (ep_half s d) \<or> 0 < eh_forwarders (ep_half s d)"
      using that False by (simp add: ending_okD(1) [OF ok] live_def)
    with w False consider (ended) "ep_wg s = 0"
      | (bp) d where "0 < eh_backpressure (ep_half s d)" "eh_pcmClosed (ep_half s d) \<or> ep_cancelled s"
      | (fwd) d where "0 < eh_forwarders (ep_half s d)" "eh_transcriptClosed (ep_half s d)"
      unfolding held_def by metis
    then show ?thesis
    proof cases
      case ended
      then show ?thesis using w by (blast intro: pipeline_stop)
    next
      case bp
      then show ?thesis by (metis backpressure_done gr0_conv_Suc)
    next
      case fwd
      then show ?thesis by (metis forwarder_done gr0_conv_Suc)
    qed
  qed
qed

text \<open>Nothing is held in a pipeline that is cancelled and whose transcripts are closed.\<close>

definition let_go :: "ending_pipeline \<Rightarrow> bool" where
  "let_go s \<longleftrightarrow> ep_cancelled s \<and> (\<forall>d. eh_transcriptClosed (ep_half s d))"

lemma let_go_kept: "ending_step s s' \<Longrightarrow> let_go s \<Longrightarrow> let_go s'"
  by (induction rule: ending_step.induct) (simp_all add: let_go_def)

lemma let_go_not_held: "let_go s \<Longrightarrow> \<not> held s"
  by (auto simp: let_go_def held_def)

lemma ending_stops: "ending_ok acts s \<Longrightarrow> let_go s \<Longrightarrow> \<exists>s'. ending_step\<^sup>*\<^sup>* s s' \<and> \<not> ep_waiting s'"
proof (induction "effort s" arbitrary: s rule: less_induct)
  case less
  show ?case
  proof (cases "ep_waiting s")
    case True
    then obtain t where t: "ending_step s t"
      using ending_enabled [OF less.prems(1)] let_go_not_held [OF less.prems(2)] by blast
    then obtain s' where "ending_step\<^sup>*\<^sup>* t s'" "\<not> ep_waiting s'"
      using less.hyps [OF ending_step_effort ending_step_ok [OF less.prems(1)] let_go_kept [OF _ less.prems(2)]] by blast
    then show ?thesis using t by (blast intro: converse_rtranclp_into_rtranclp)
  qed blast
qed

text \<open>What a half counts: its frames if every stage succeeds, nothing otherwise.\<close>

lemma total_of_append [simp]: "total_of (as @ bs) = total_of as + total_of bs"
  by (simp add: total_of_def)

definition succeeds :: "half_outcome \<Rightarrow> bool" where
  "succeeds out \<longleftrightarrow> ho_track out = None \<and> ho_decode out = None \<and> ho_translate out = None
     \<and> ho_encode out = None \<and> ho_send out = None"

lemma total_of_runHalf: "total_of (runHalf half out) = (if succeeds out then ho_frames out else 0)"
  by (auto simp: runHalf_def decodeStage_def translateStage_def encodeStage_def sendStage_def failStage_def
      succeeds_def chunks_of_def split: option.split)

lemma helpers_of_runHalf:
  "ho_track out = None \<Longrightarrow> ho_decode out = None \<Longrightarrow> StartBackpressure \<in> set (runHalf half out)"
  "ho_track out = None \<Longrightarrow> ho_decode out = None \<Longrightarrow> ho_translate out = None \<Longrightarrow> list_ex isForward (runHalf half out)"
  by (auto simp: runHalf_def decodeStage_def translateStage_def split: option.split)

definition pipeline_acts :: "session \<Rightarrow> session \<Rightarrow> (bool \<Rightarrow> half_outcome) \<Rightarrow> bool \<Rightarrow> half_action list" where
  "pipeline_acts a b out d = runHalf (if d then halfAtoB a b else halfBtoA a b) (out d)"

text \<open>
  C36: the stop of a pipeline is recorded at most once, with the frames of the halves that succeeded, and only when both halves
  and all their helpers have ended: a half that had its audio translated then has had its transcripts closed, and one that had
  its audio decoded has had that closed or the pipeline cancelled.  The pipeline's own goroutines take finitely many steps.
  They can take one as long as the stop is not recorded, except where both halves have returned and each helper that still
  runs waits for what is not closed and not cancelled: then the stop waits too.  Once the pipeline is cancelled and its transcripts
  are closed, they reach the stop.
\<close>

theorem pipeline_stops_once:
  assumes "pipeline_runs (launch (pipeline_acts a b out)) s"
  shows "ep_stops s = (if ep_waiting s then []
         else [(if succeeds (out True) then ho_frames (out True) else 0,
                if succeeds (out False) then ho_frames (out False) else 0)])
    \<and> (ep_waiting s \<or> (\<forall>d. live (ep_half s d) = 0
         \<and> (ho_track (out d) = None \<and> ho_decode (out d) = None \<longrightarrow> eh_pcmClosed (ep_half s d) \<or> ep_cancelled s)
         \<and> (ho_track (out d) = None \<and> ho_decode (out d) = None \<and> ho_translate (out d) = None
              \<longrightarrow> eh_transcriptClosed (ep_half s d))))
    \<and> (\<forall>s'. ending_step s s' \<longrightarrow> effort s' < effort s) \<and> (\<forall>s'. outside_step s s' \<longrightarrow> effort s' = effort s)
    \<and> ((\<exists>s'. ending_step s s') \<longleftrightarrow> ep_waiting s \<and> \<not> held s)
    \<and> (let_go s \<longrightarrow> (\<exists>s'. ending_step\<^sup>*\<^sup>* s s' \<and> \<not> ep_waiting s'))"
proof -
  have ok: "ending_ok (pipeline_acts a b out) s" by (rule pipeline_runs_ok [OF assms])
  have half: "half_ok (pipeline_acts a b out d) (ep_cancelled s) (ep_half s d)" for d using ok by (simp add: ending_ok_def)
  have "live (ep_half s d) = 0
      \<and> (ho_track (out d) = None \<and> ho_decode (out d) = None \<longrightarrow> eh_pcmClosed (ep_half s d) \<or> ep_cancelled s)
      \<and> (ho_track (out d) = None \<and> ho_decode (out d) = None \<and> ho_translate (out d) = None
           \<longrightarrow> eh_transcriptClosed (ep_half s d))" if "\<not> ep_waiting s" for d
  proof -
    have "live (ep_half s d) = 0" using ok that by (cases d) (auto simp: ending_ok_def)
    then show ?thesis
      using half [of d] helpers_of_runHalf [of "out d"] by (auto simp: half_ok_def live_def pipeline_acts_def split: if_splits)
  qed
  then show ?thesis
    using ending_okD(3) [OF ok] ending_enabled [OF ok] ending_stops [OF ok] ending_step_effort outside_step_effort
    by (auto simp: pipeline_acts_def total_of_runHalf)
qed

text \<open>A pipeline whose encoders have failed: both halves have returned, nothing more happens by itself, and the stop waits.\<close>

lemma half_finishes:
  assumes "eh_running (ep_half s d)" and "eh_todo (ep_half s d) = as"
  shows "\<exists>t. ending_step\<^sup>*\<^sup>* s t \<and> (\<forall>e. e \<noteq> d \<longrightarrow> ep_half t e = ep_half s e) \<and> ep_cancelled t = ep_cancelled s
    \<and> \<not> eh_running (ep_half t d) \<and> eh_backpressure (ep_half t d) = eh_backpressure (ep_half s d) + sum_list (map backpressures as)
    \<and> eh_pcmClosed (ep_half t d) = eh_pcmClosed (ep_half s d) \<and> eh_transcriptClosed (ep_half t d) = eh_transcriptClosed (ep_half s d)"
  using assms
proof (induction as arbitrary: s)
  case Nil
  then show ?case
    using half_done [of s d]
    by (intro exI [of _ "s\<lparr>ep_half := (ep_half s)(d := (ep_half s d)\<lparr>eh_running := False\<rparr>), ep_wg := ep_wg s - 1\<rparr>"])
       (simp add: r_into_rtranclp)
next
  case (Cons a as)
  let ?s = "s\<lparr>ep_half := (ep_half s)(d := (ep_half s d)\<lparr>eh_todo := as,
        eh_backpressure := eh_backpressure (ep_half s d) + backpressures a,
        eh_forwarders := eh_forwarders (ep_half s d) + forwards a,
        eh_totalChunks := eh_totalChunks (ep_half s d) + chunks_of a\<rparr>),
      ep_wg := ep_wg s + backpressures a + forwards a\<rparr>"
  have step: "ending_step s ?s" by (rule acts [OF Cons.prems])
  from Cons.IH [of ?s] Cons.prems(1) obtain t where t: "ending_step\<^sup>*\<^sup>* ?s t" "\<forall>e. e \<noteq> d \<longrightarrow> ep_half t e = ep_half s e"
      "ep_cancelled t = ep_cancelled s" "\<not> eh_running (ep_half t d)"
      "eh_backpressure (ep_half t d) = eh_backpressure (ep_half s d) + backpressures a + sum_list (map backpressures as)"
      "eh_pcmClosed (ep_half t d) = eh_pcmClosed (ep_half s d)" "eh_transcriptClosed (ep_half t d) = eh_transcriptClosed (ep_half s d)"
    by auto
  from converse_rtranclp_into_rtranclp [of ending_step, OF step t(1)] t(2-) show ?case
    by (intro exI [of _ t]) simp
qed

definition deaf_outcome :: half_outcome where
  "deaf_outcome = \<lparr>ho_track = None, ho_decode = None, ho_translate = None,
     ho_encode = Some (Foreign ''encoder''), ho_send = None, ho_frames = 3\<rparr>"

abbreviation deaf_pipeline :: ending_pipeline where
  "deaf_pipeline \<equiv> launch (pipeline_acts (NewSession ''a'' ''r'' ''alice'' ''en'' 0) (NewSession ''b'' ''r'' ''bob'' ''es'' 0)
     (\<lambda>_. deaf_outcome))"

lemma deaf_todo: "sum_list (map backpressures (pipeline_acts a b (\<lambda>_. deaf_outcome) d)) = 1"
  by (simp add: pipeline_acts_def runHalf_defs deaf_outcome_def backpressures_def)

lemma deaf_held: "\<exists>s. pipeline_runs deaf_pipeline s \<and> held s"
proof -
  let ?i = "deaf_pipeline"
  have i: "eh_running (ep_half ?i d)" "eh_backpressure (ep_half ?i d) = 0" "\<not> eh_pcmClosed (ep_half ?i d)"
    "\<not> eh_transcriptClosed (ep_half ?i d)" "\<not> ep_cancelled ?i" for d
    by (simp_all add: launch_def)
  have todo: "sum_list (map backpressures (eh_todo (ep_half ?i d))) = 1" for d by (simp add: launch_def deaf_todo)
  from half_finishes [OF i(1) refl, of True] obtain t where t: "ending_step\<^sup>*\<^sup>* ?i t" "ep_half t False = ep_half ?i False"
      "\<not> ep_cancelled t" "\<not> eh_running (ep_half t True)" "eh_backpressure (ep_half t True) = 1"
      "\<not> eh_pcmClosed (ep_half t True)" "\<not> eh_transcriptClosed (ep_half t True)"
    using i(2-) todo [of True] by fastforce
  from half_finishes [of t False, OF _ refl] obtain s where s: "ending_step\<^sup>*\<^sup>* t s" "ep_half s True = ep_half t True"
      "\<not> ep_cancelled s" "\<not> eh_running (ep_half s False)" "eh_backpressure (ep_half s False) = 1"
      "\<not> eh_pcmClosed (ep_half s False)" "\<not> eh_transcriptClosed (ep_half s False)"
    using i t(2,3) todo [of False] by fastforce
  have "held s" using s t by (auto simp: held_def all_bool_eq ex_bool_eq)
  moreover have "pipeline_runs ?i s"
    unfolding pipeline_runs_def by (rule rtranclp_mono [THEN predicate2D, OF _ rtranclp_trans [OF t(1) s(1)]]) auto
  ultimately show ?thesis by blast
qed

theorem pipeline_stops_once_witness:
  "\<exists>s. pipeline_runs deaf_pipeline s \<and> held s \<and> (\<nexists>s'. ending_step s s')"
proof -
  from deaf_held obtain s where s: "pipeline_runs deaf_pipeline s" "held s" by blast
  from pipeline_stops_once [OF s(1)] s show ?thesis by blast
qed

end
