(* ===== verification/Go_Text.thy ===== *)
theory Go_Text
  imports Prelude
begin

section \<open>Texts and numbers\<close>

text \<open>
  What the adapters use of \<open>strings\<close>, \<open>strconv\<close> and rune conversion.  Texts are UTF-8 byte strings;
  texts that come out of a JSON decoder are valid, so the runes of a text are counted by its bytes that
  do not continue a sequence.
\<close>

subsection \<open>Runes and white space\<close>

definition continuation :: "char \<Rightarrow> bool" where
  "continuation c \<longleftrightarrow> (let n = of_char c :: nat in 128 \<le> n \<and> n < 192)"

definition rune_count :: "string \<Rightarrow> nat" where
  "rune_count s = length (filter (\<lambda>c. \<not> continuation c) s)"

lemma rune_count_le: "rune_count s \<le> length s"
  by (simp add: rune_count_def)

text \<open>The encodings of the characters \<open>unicode.IsSpace\<close> accepts.\<close>

definition space_texts :: "string list" where
  "space_texts =
     [[CHR 0x20], [CHR 0x09], [CHR 0x0A], [CHR 0x0B], [CHR 0x0C], [CHR 0x0D],
      [CHR 0xC2, CHR 0x85], [CHR 0xC2, CHR 0xA0], [CHR 0xE1, CHR 0x9A, CHR 0x80]]
     @ map (\<lambda>n. [CHR 0xE2, CHR 0x80, char_of n])
         ([0x80..<0x8B] @ [0xA8, 0xA9, 0xAF :: nat])
     @ [[CHR 0xE2, CHR 0x81, CHR 0x9F], [CHR 0xE3, CHR 0x80, CHR 0x80]]"

function trim_with :: "string list \<Rightarrow> string \<Rightarrow> string" where
  "trim_with ps s =
     (case List.find (\<lambda>p. p \<noteq> [] \<and> take (length p) s = p) ps of
        None \<Rightarrow> s
      | Some p \<Rightarrow> trim_with ps (drop (length p) s))"
  by pat_completeness auto
termination
proof (relation "measure (\<lambda>(ps, s). length s)")
  fix ps :: "string list" and s p :: string
  assume "List.find (\<lambda>p. p \<noteq> [] \<and> take (length p) s = p) ps = Some p"
  then have "p \<noteq> []" "take (length p) s = p" by (auto simp: find_Some_iff)
  then show "((ps, drop (length p) s), (ps, s)) \<in> measure (\<lambda>(ps, s). length s)"
    by (cases s) (auto simp: Suc_le_eq)
qed simp

declare trim_with.simps [simp del]

definition TrimSpace :: "string \<Rightarrow> string" where
  "TrimSpace s = rev (trim_with (map rev space_texts) (rev (trim_with space_texts s)))"

text \<open>A text that neither starts nor ends with white space is left as it is.\<close>

lemma trim_with_id: "List.find (\<lambda>p. p \<noteq> [] \<and> take (length p) s = p) ps = None \<Longrightarrow> trim_with ps s = s"
  by (subst trim_with.simps) simp

text \<open>\<open>strings.EqualFold\<close> on ASCII letters.\<close>

definition EqualFold :: "string \<Rightarrow> string \<Rightarrow> bool" where
  "EqualFold s t \<longleftrightarrow> ToUpper s = ToUpper t"

subsection \<open>Decimal numbers\<close>

text \<open>\<open>strconv.Itoa\<close> and \<open>strconv.Atoi\<close> (\<open>None\<close> for each of its errors) on a 64-bit \<open>int\<close>.\<close>

fun digits :: "nat \<Rightarrow> string" where
  "digits n = (if n < 10 then [char_of (48 + n)] else digits (n div 10) @ [char_of (48 + n mod 10)])"

declare digits.simps [simp del]

definition Itoa :: "int \<Rightarrow> string" where
  "Itoa i = (if i < 0 then CHR ''-'' # digits (nat (- i)) else digits (nat i))"

definition digit_value :: "char \<Rightarrow> nat option" where
  "digit_value c = (let n = of_char c :: nat in if 48 \<le> n \<and> n \<le> 57 then Some (n - 48) else None)"

fun read_digits :: "nat \<Rightarrow> string \<Rightarrow> nat option" where
  "read_digits acc [] = Some acc"
| "read_digits acc (c # s) = (case digit_value c of None \<Rightarrow> None | Some d \<Rightarrow> read_digits (10 * acc + d) s)"

definition Atoi :: "string \<Rightarrow> int option" where
  "Atoi s =
     (let body = (case s of [] \<Rightarrow> [] | c # r \<Rightarrow> if c = CHR ''-'' \<or> c = CHR ''+'' then r else s) in
      if body = [] then None
      else case read_digits 0 body of
        None \<Rightarrow> None
      | Some n \<Rightarrow>
          (let i = (if hd s = CHR ''-'' then - int n else int n)
           in if - (2 ^ 63) \<le> i \<and> i < 2 ^ 63 then Some i else None))"

lemma digit_value_char: "d < 10 \<Longrightarrow> digit_value (char_of (48 + d)) = Some d"
  by (simp add: digit_value_def Let_def)

lemma read_digits_append:
  "read_digits acc (s @ t) = (case read_digits acc s of None \<Rightarrow> None | Some a \<Rightarrow> read_digits a t)"
  by (induction acc s rule: read_digits.induct) (auto split: option.split)

lemma read_digits_digits: "read_digits 0 (digits n) = Some n"
proof (induction n rule: digits.induct)
  case (1 n)
  then show ?case
    by (subst digits.simps) (auto simp: digit_value_char read_digits_append)
qed

lemma digits_head: "\<exists>d < 10. \<exists>s. digits n = char_of (48 + d :: nat) # s"
proof (induction n rule: digits.induct)
  case (1 n)
  show ?case
  proof (cases "n < 10")
    case True
    then have "digits n = [char_of (48 + n)]" by (subst digits.simps) simp
    then show ?thesis using True by blast
  next
    case False
    then have "digits n = digits (n div 10) @ [char_of (48 + n mod 10)]" by (subst digits.simps) simp
    then show ?thesis using 1 False by auto
  qed
qed

lemma Atoi_Itoa:
  assumes "- (2 ^ 63) \<le> i" and "i < 2 ^ 63"
  shows "Atoi (Itoa i) = Some i"
proof -
  obtain d s where d: "digits (nat \<bar>i\<bar>) = char_of (48 + d :: nat) # s" "d < 10" using digits_head by blast
  have ne: "char_of (48 + d) \<noteq> CHR ''-''" "char_of (48 + d) \<noteq> CHR ''+''"
  proof -
    have "of_char (char_of (48 + d) :: char) = (48 + d :: nat)" using d(2) by simp
    moreover have "of_char (CHR ''-'') = (45 :: nat)" "of_char (CHR ''+'') = (43 :: nat)" by simp_all
    ultimately show "char_of (48 + d) \<noteq> CHR ''-''" "char_of (48 + d) \<noteq> CHR ''+''" by force+
  qed
  have r: "read_digits 0 (char_of (48 + d) # s) = Some (nat \<bar>i\<bar>)"
    using read_digits_digits [of "nat \<bar>i\<bar>"] unfolding d(1) .
  show ?thesis
  proof (cases "i < 0")
    case True
    then have "Itoa i = CHR ''-'' # char_of (48 + d) # s" using d(1) by (simp add: Itoa_def)
    then show ?thesis using r True assms by (simp add: Atoi_def Let_def del: read_digits.simps)
  next
    case False
    then have "Itoa i = char_of (48 + d) # s" using d(1) by (simp add: Itoa_def)
    then show ?thesis using r False assms ne by (simp add: Atoi_def Let_def del: read_digits.simps)
  qed
qed

end
