(* ===== verification/Rate_Limiter.thy ===== *)
theory Rate_Limiter
  imports Go_Text
begin

section \<open>The rate limiter: internal/adapters/http/ratelimit.go\<close>

text \<open>
  The fixed-window limiter of the HTTP server, keyed by client IP, its middleware and the periodic
  cleanup.  A run is a list of requests and cleanups with the clock readings they see; \<open>granted\<close> is
  the list of times at which one IP was let through.
\<close>

record bucket =
  bk_count :: int
  bk_windowStart :: time

record rate_limiter =
  rl_buckets :: "string \<rightharpoonup> bucket"
  rl_limit :: int
  rl_window :: time

definition NewRateLimiter :: "int \<Rightarrow> time \<Rightarrow> rate_limiter" where
  "NewRateLimiter limit window = \<lparr>rl_buckets = (\<lambda>_. None), rl_limit = limit, rl_window = window\<rparr>"

definition Allow :: "string \<Rightarrow> time \<Rightarrow> rate_limiter \<Rightarrow> (bool \<times> int) \<times> rate_limiter" where
  "Allow ip now rl =
     (if rl_limit rl = 0 then ((True, 0), rl)
      else case rl_buckets rl ip of
        None \<Rightarrow> ((True, 0), rl\<lparr>rl_buckets := (rl_buckets rl)(ip \<mapsto> \<lparr>bk_count = 1, bk_windowStart = now\<rparr>)\<rparr>)
      | Some b \<Rightarrow>
          if now - bk_windowStart b \<ge> rl_window rl
          then ((True, 0), rl\<lparr>rl_buckets := (rl_buckets rl)(ip \<mapsto> \<lparr>bk_count = 1, bk_windowStart = now\<rparr>)\<rparr>)
          else if bk_count b < rl_limit rl
          then ((True, 0), rl\<lparr>rl_buckets := (rl_buckets rl)(ip \<mapsto> b\<lparr>bk_count := bk_count b + 1\<rparr>)\<rparr>)
          else (let windowEnd = bk_windowStart b + rl_window rl;
                    remaining = windowEnd - now;
                    retryAfter = whole_seconds remaining
                in ((False, if retryAfter < 1 then 1 else retryAfter), rl)))"

text \<open>The range loop of \<open>Cleanup\<close> deletes every bucket that satisfies its test.\<close>

definition Cleanup :: "time \<Rightarrow> rate_limiter \<Rightarrow> rate_limiter" where
  "Cleanup now rl =
     (let cutoff = now - 2 * rl_window rl
      in rl\<lparr>rl_buckets := map_delete (\<lambda>_ b. bk_windowStart b < cutoff) (rl_buckets rl)\<rparr>)"

text \<open>
  The cleanup goroutine: what its select receives in each round.  It ends at the first \<open>CtxDone\<close>;
  the second component tells whether it has ended, which \<open>StartCleanupNotify\<close> makes visible by
  closing its channel.
\<close>

datatype cleanup_signal = CtxDone | Tick time

fun cleanupLoop :: "cleanup_signal list \<Rightarrow> rate_limiter \<Rightarrow> rate_limiter \<times> bool" where
  "cleanupLoop [] rl = (rl, False)"
| "cleanupLoop (CtxDone # ss) rl = (rl, True)"
| "cleanupLoop (Tick t # ss) rl = cleanupLoop ss (Cleanup t rl)"

definition BucketCount :: "rate_limiter \<Rightarrow> nat" where
  "BucketCount rl = card (dom (rl_buckets rl))"

definition SetBucketWindowStart :: "string \<Rightarrow> time \<Rightarrow> rate_limiter \<Rightarrow> rate_limiter" where
  "SetBucketWindowStart ip t rl =
     (let b = (case rl_buckets rl ip of
                 None \<Rightarrow> \<lparr>bk_count = rl_limit rl, bk_windowStart = t\<rparr> | Some b \<Rightarrow> b)
      in rl\<lparr>rl_buckets := (rl_buckets rl)(ip \<mapsto> b\<lparr>bk_windowStart := t\<rparr>)\<rparr>)"

subsection \<open>The client's address\<close>

text \<open>The header lookup and the remote address of a request; an absent header reads as empty.\<close>

record http_request =
  rq_header :: "string \<Rightarrow> string"
  rq_remote :: string

text \<open>
  \<open>net.SplitHostPort\<close>, the host only: \<open>None\<close> for each of its errors.  \<open>before_last c s\<close> is the text
  before the last \<open>c\<close>.
\<close>

definition before_last :: "char \<Rightarrow> string \<Rightarrow> string" where
  "before_last c s = rev (tl (dropWhile (\<lambda>x. x \<noteq> c) (rev s)))"

definition SplitHost :: "string \<Rightarrow> string option" where
  "SplitHost hp =
     (if CHR '':'' \<notin> set hp then None
      else let i = length (before_last CHR '':'' hp) in
      if take 1 hp = ''['' then
        (if CHR '']'' \<notin> set hp then None
         else let e = length (takeWhile (\<lambda>x. x \<noteq> CHR '']'') hp) in
         if e + 1 \<noteq> i then None
         else if CHR ''['' \<in> set (drop 1 hp) \<or> CHR '']'' \<in> set (drop (e + 1) hp) then None
         else Some (take (e - 1) (drop 1 hp)))
      else if CHR '':'' \<in> set (take i hp) then None
      else if CHR ''['' \<in> set hp \<or> CHR '']'' \<in> set hp then None
      else Some (take i hp))"

definition clientIP :: "http_request \<Rightarrow> string" where
  "clientIP r =
     (let xff = rq_header r ''X-Forwarded-For''; xri = rq_header r ''X-Real-IP'' in
      if xff \<noteq> [] then
        (if CHR '','' \<in> set xff then TrimSpace (takeWhile (\<lambda>c. c \<noteq> CHR '','') xff) else TrimSpace xff)
      else if xri \<noteq> [] then TrimSpace xri
      else (case SplitHost (rq_remote r) of None \<Rightarrow> rq_remote r | Some host \<Rightarrow> host))"

text \<open>The middleware answers 429 with the seconds to wait, or passes the request on.\<close>

datatype gate = PassOn | RateLimited int

definition Middleware :: "http_request \<Rightarrow> time \<Rightarrow> rate_limiter \<Rightarrow> gate \<times> rate_limiter" where
  "Middleware r now rl =
     (case Allow (clientIP r) now rl of
        ((True, _), rl') \<Rightarrow> (PassOn, rl')
      | ((False, retryAfter), rl') \<Rightarrow> (RateLimited retryAfter, rl'))"

subsection \<open>Runs\<close>

datatype limiter_event = Request string time | Cleaned time

fun le_time :: "limiter_event \<Rightarrow> time" where
  "le_time (Request ip t) = t"
| "le_time (Cleaned t) = t"

fun granted :: "string \<Rightarrow> limiter_event list \<Rightarrow> rate_limiter \<Rightarrow> time list" where
  "granted ip [] rl = []"
| "granted ip (Request j t # es) rl =
     (case Allow j t rl of ((ok, _), rl') \<Rightarrow> (if ok \<and> j = ip then [t] else []) @ granted ip es rl')"
| "granted ip (Cleaned t # es) rl = granted ip es (Cleanup t rl)"

lemma granted_Request:
  "granted ip (Request j t # es) rl =
     (if fst (fst (Allow j t rl)) \<and> j = ip then [t] else []) @ granted ip es (snd (Allow j t rl))"
  by (simp split: prod.split)

lemma Allow_frame [frame_simps]:
  "rl_limit (snd (Allow j t rl)) = rl_limit rl" "rl_window (snd (Allow j t rl)) = rl_window rl"
  by (auto simp: Allow_def Let_def split: option.split)

lemma Cleanup_frame [frame_simps]:
  "rl_limit (Cleanup t rl) = rl_limit rl" "rl_window (Cleanup t rl) = rl_window rl"
  by (simp_all add: Cleanup_def)

text \<open>An IP's decision depends on its own bucket only, and changes no other.\<close>

lemma Allow_bucket:
  "rl_buckets (snd (Allow j t rl)) ip = (if j = ip then rl_buckets (snd (Allow j t rl)) ip else rl_buckets rl ip)"
  by (auto simp: Allow_def Let_def split: option.split)

lemma Allow_cong:
  assumes "rl_buckets rl ip = rl_buckets rl' ip" "rl_limit rl = rl_limit rl'" "rl_window rl = rl_window rl'"
  shows "fst (Allow ip t rl) = fst (Allow ip t rl')
    \<and> rl_buckets (snd (Allow ip t rl)) ip = rl_buckets (snd (Allow ip t rl')) ip"
  using assms by (auto simp: Allow_def Let_def split: option.split)

text \<open>A bucket whose window is over decides as no bucket does.\<close>

definition same_for :: "time \<Rightarrow> string \<Rightarrow> rate_limiter \<Rightarrow> rate_limiter \<Rightarrow> bool" where
  "same_for now ip rl rl' \<longleftrightarrow> rl_limit rl = rl_limit rl' \<and> rl_window rl = rl_window rl'
     \<and> (rl_buckets rl ip = rl_buckets rl' ip
        \<or> (rl_buckets rl ip = None
           \<and> (\<exists>b. rl_buckets rl' ip = Some b \<and> bk_windowStart b + rl_window rl \<le> now)))"

lemma same_for_Allow:
  assumes "same_for now ip rl rl'" "now \<le> t"
  shows "fst (Allow ip t rl) = fst (Allow ip t rl') \<and> same_for t ip (snd (Allow ip t rl)) (snd (Allow ip t rl'))"
  using assms
  by (cases "rl_buckets rl' ip"; cases "rl_buckets rl ip") (auto simp: same_for_def Allow_def Let_def)

lemma same_for_other:
  assumes "same_for now ip rl rl'" "j \<noteq> ip" "now \<le> t"
  shows "same_for t ip (snd (Allow j t rl)) rl'"
  using assms Allow_bucket [of j t rl ip] by (auto simp: same_for_def frame_simps)

lemma same_for_Cleanup:
  assumes "same_for now ip rl rl'" "now \<le> t" "0 \<le> rl_window rl"
  shows "same_for t ip (Cleanup t rl) rl'"
  using assms
  by (cases "rl_buckets rl' ip"; cases "rl_buckets rl ip")
     (auto simp: same_for_def Cleanup_def Let_def map_delete_def)

fun own_request :: "string \<Rightarrow> limiter_event \<Rightarrow> bool" where
  "own_request ip (Request j t) = (j = ip)"
| "own_request ip (Cleaned t) = False"

lemma granted_same_for:
  assumes "same_for now ip rl rl'" "sorted (now # map le_time es)" "0 \<le> rl_window rl"
  shows "granted ip es rl = granted ip (filter (own_request ip) es) rl'"
  using assms
proof (induction es arbitrary: now rl rl')
  case (Cons e es)
  have t: "now \<le> le_time e" "sorted (le_time e # map le_time es)" using Cons.prems(2) by simp_all
  show ?case
  proof (cases e)
    case (Cleaned c)
    have "same_for c ip (Cleanup c rl) rl'" using same_for_Cleanup [OF Cons.prems(1) _ Cons.prems(3)] t Cleaned by simp
    then show ?thesis using Cons.IH [of c "Cleanup c rl" rl'] t Cleaned Cons.prems(3) by (simp add: frame_simps)
  next
    case (Request j c)
    show ?thesis
    proof (cases "j = ip")
      case True
      note s = same_for_Allow [OF Cons.prems(1), of c]
      have "granted ip es (snd (Allow ip c rl)) = granted ip (filter (own_request ip) es) (snd (Allow ip c rl'))"
        using Cons.IH [of c] s t Request Cons.prems(3) by (simp add: frame_simps)
      then show ?thesis using s t Request True by (auto split: prod.split)
    next
      case False
      have "same_for c ip (snd (Allow j c rl)) rl'" using same_for_other [OF Cons.prems(1) False] t Request by simp
      then have "granted ip es (snd (Allow j c rl)) = granted ip (filter (own_request ip) es) rl'"
        using Cons.IH [of c] t Request Cons.prems(3) by (simp add: frame_simps)
      then show ?thesis using Request False by (auto split: prod.split)
    qed
  qed
qed simp

subsection \<open>How much one IP gets through\<close>

text \<open>
  \<open>quota_inv\<close> relates the times \<open>hs\<close> granted so far to the bucket: those of the current window are
  counted, the window before holds no more than the limit in its last stretch, and no stretch of
  one window's length holds more than twice the limit.
\<close>

definition between :: "time \<Rightarrow> time \<Rightarrow> time list \<Rightarrow> int" where
  "between a b hs = int (length (filter (\<lambda>h. a \<le> h \<and> h < b) hs))"

definition quota_inv :: "int \<Rightarrow> time \<Rightarrow> time \<Rightarrow> bucket option \<Rightarrow> time list \<Rightarrow> bool" where
  "quota_inv l w now b hs \<longleftrightarrow>
     (\<forall>h \<in> set hs. h \<le> now) \<and> (\<forall>t. between t (t + w) hs \<le> 2 * l)
     \<and> (case b of
          None \<Rightarrow> \<forall>h \<in> set hs. h + w \<le> now
        | Some c \<Rightarrow> bk_windowStart c \<le> now \<and> between (bk_windowStart c) (bk_windowStart c + w) hs = bk_count c
            \<and> bk_count c \<le> l \<and> (\<forall>h \<in> set hs. h < bk_windowStart c + w)
            \<and> (\<forall>t. bk_windowStart c - w < t \<longrightarrow> between t (bk_windowStart c) hs \<le> l))"

lemma between_nonneg: "0 \<le> between a b hs"
  by (simp add: between_def)

lemma between_append [simp]: "between a b (xs @ ys) = between a b xs + between a b ys"
  by (simp add: between_def)

lemma between_single: "between a b [h] = (if a \<le> h \<and> h < b then 1 else 0)"
  by (simp add: between_def)

lemma length_filter_mono: "(\<And>x. x \<in> set xs \<Longrightarrow> P x \<Longrightarrow> Q x) \<Longrightarrow> length (filter P xs) \<le> length (filter Q xs)"
  by (induction xs) auto

lemma between_mono:
  assumes "\<And>h. h \<in> set hs \<Longrightarrow> a \<le> h \<Longrightarrow> h < b \<Longrightarrow> c \<le> h \<and> h < d"
  shows "between a b hs \<le> between c d hs"
  unfolding between_def of_nat_le_iff by (rule length_filter_mono) (use assms in blast)

lemma between_split: "a \<le> m \<Longrightarrow> m \<le> b \<Longrightarrow> between a b hs = between a m hs + between m b hs"
  by (induction hs) (auto simp: between_def)

lemma between_zero: "(\<And>h. h \<in> set hs \<Longrightarrow> \<not> (a \<le> h \<and> h < b)) \<Longrightarrow> between a b hs = 0"
  by (auto simp: between_def filter_empty_conv)

lemma quota_later: "quota_inv l w now b hs \<Longrightarrow> now \<le> t \<Longrightarrow> quota_inv l w t b hs"
  by (force simp: quota_inv_def split: option.splits)

text \<open>A new window opens: no grant of the last \<open>w\<close> is older than the previous window's start.\<close>

lemma quota_reset:
  assumes q: "quota_inv l w now b hs" and l: "0 < l" "0 < w" "now \<le> t"
    and over: "\<And>c. b = Some c \<Longrightarrow> w \<le> t - bk_windowStart c"
  shows "quota_inv l w t (Some \<lparr>bk_count = 1, bk_windowStart = t\<rparr>) (hs @ [t])"
proof -
  have old: "h < t" if "h \<in> set hs" for h
    using q l over that by (cases b) (force simp: quota_inv_def)+
  have recent: "between a t hs \<le> l" if "t - w < a" for a
  proof (cases b)
    case None
    then have "\<forall>h \<in> set hs. h + w \<le> now" using q by (simp add: quota_inv_def)
    then have "between a t hs = 0" using that l(3) by (intro between_zero) force
    then show ?thesis using l by simp
  next
    case (Some c)
    have "between a t hs \<le> between (bk_windowStart c) (bk_windowStart c + w) hs"
      using q Some over [OF Some] that by (intro between_mono) (force simp: quota_inv_def)
    then show ?thesis using q Some by (simp add: quota_inv_def)
  qed
  have "between t (t + w) hs = 0" by (rule between_zero) (use old in force)
  moreover have "between a (a + w) (hs @ [t]) \<le> 2 * l" for a
  proof (cases "a \<le> t \<and> t < a + w")
    case True
    have "between a (a + w) hs \<le> between a t hs" by (rule between_mono) (use old in blast)
    then show ?thesis using True recent [of a] l by (simp add: between_single)
  next
    case False
    then show ?thesis using q by (auto simp: between_single quota_inv_def)
  qed
  ultimately show ?thesis
    using old recent l by (force simp: quota_inv_def between_single)
qed

lemma quota_count:
  assumes q: "quota_inv l w now (Some c) hs" and "now \<le> t" "0 < w"
    and "t - bk_windowStart c < w" "bk_count c < l"
  shows "quota_inv l w t (Some (c\<lparr>bk_count := bk_count c + 1\<rparr>)) (hs @ [t])"
proof -
  let ?s = "bk_windowStart c"
  have s: "?s \<le> t" using q assms(2) by (simp add: quota_inv_def)
  have "between a (a + w) (hs @ [t]) \<le> 2 * l" for a
  proof (cases "a \<le> t \<and> t < a + w")
    case True
    have cur: "between ?s (?s + w) hs = bk_count c" using q by (simp add: quota_inv_def)
    have "between a (a + w) hs \<le> between a ?s hs + between ?s (?s + w) hs"
    proof (cases "a \<le> ?s")
      case True
      have "between a (a + w) hs \<le> between a (?s + w) hs" by (rule between_mono) (use True in force)
      then show ?thesis using between_split [of a ?s "?s + w" hs] True assms(3) by simp
    next
      case False
      have "between a (a + w) hs \<le> between ?s (?s + w) hs"
        using q False by (intro between_mono) (force simp: quota_inv_def)
      then show ?thesis using between_nonneg [of a ?s hs] by linarith
    qed
    moreover have "between a ?s hs \<le> l" using q True s by (simp add: quota_inv_def)
    ultimately show ?thesis using True cur assms(5) by (simp add: between_single)
  next
    case False
    then show ?thesis using q by (auto simp: between_single quota_inv_def)
  qed
  then show ?thesis
    using q assms s by (force simp: quota_inv_def between_single)
qed

lemma quota_drop:
  assumes q: "quota_inv l w now (Some c) hs" and "now \<le> t" "0 \<le> w" "bk_windowStart c < t - 2 * w"
  shows "quota_inv l w t None hs"
  using assms by (force simp: quota_inv_def)

lemma quota_Allow:
  assumes q: "quota_inv (rl_limit rl) (rl_window rl) now (rl_buckets rl ip) hs" and "now \<le> t"
    and "0 < rl_limit rl" "0 < rl_window rl"
  shows "quota_inv (rl_limit rl) (rl_window rl) t (rl_buckets (snd (Allow ip t rl)) ip)
    (hs @ (if fst (fst (Allow ip t rl)) then [t] else []))"
proof (cases "rl_buckets rl ip")
  case None
  then show ?thesis
    using quota_reset [OF q assms(3,4,2)] assms(3) by (simp add: Allow_def)
next
  case (Some c)
  show ?thesis
  proof (cases "rl_window rl \<le> t - bk_windowStart c")
    case True
    then show ?thesis using quota_reset [OF q assms(3,4,2)] assms(3) Some by (simp add: Allow_def)
  next
    case False
    then show ?thesis
      using quota_count [OF q [unfolded Some] assms(2,4)] quota_later [OF q [unfolded Some] assms(2)] assms(3) Some
      by (simp add: Allow_def Let_def)
  qed
qed

lemma quota_granted:
  assumes "quota_inv (rl_limit rl) (rl_window rl) now (rl_buckets rl ip) hs"
    and "sorted (now # map le_time es)" and "0 < rl_limit rl" "0 < rl_window rl"
  shows "between t (t + rl_window rl) (hs @ granted ip es rl) \<le> 2 * rl_limit rl"
  using assms
proof (induction es arbitrary: now rl hs)
  case Nil
  then show ?case by (simp add: quota_inv_def)
next
  case (Cons e es)
  have le: "now \<le> le_time e" "sorted (le_time e # map le_time es)" using Cons.prems(2) by simp_all
  show ?case
  proof (cases e)
    case (Request j c)
    let ?rl = "snd (Allow j c rl)" and ?new = "if fst (fst (Allow j c rl)) \<and> j = ip then [c] else []"
    have "quota_inv (rl_limit ?rl) (rl_window ?rl) c (rl_buckets ?rl ip) (hs @ ?new)"
    proof (cases "j = ip")
      case True
      then show ?thesis
        using quota_Allow [OF Cons.prems(1) _ Cons.prems(3,4)] le Request by (simp add: frame_simps)
    next
      case False
      then have "rl_buckets ?rl ip = rl_buckets rl ip" using Allow_bucket [of j c rl ip] by simp
      then show ?thesis using quota_later [OF Cons.prems(1)] le Request False by (simp add: frame_simps)
    qed
    from Cons.IH [OF this] le Request Cons.prems(3,4) show ?thesis
      by (simp add: frame_simps granted_Request del: granted.simps(2))
  next
    case (Cleaned c)
    have "quota_inv (rl_limit rl) (rl_window rl) c (rl_buckets (Cleanup c rl) ip) hs"
      using Cons.prems le Cleaned quota_drop quota_later
      by (cases "rl_buckets rl ip") (auto simp: Cleanup_def Let_def map_delete_def)
    then show ?thesis
      using Cons.IH [of "Cleanup c rl" c hs] le Cleaned Cons.prems(3,4) by (simp add: frame_simps)
  qed
qed

subsection \<open>Properties of the limiter\<close>

text \<open>
  C29: over any run of requests and cleanups with a clock that does not run backwards, an IP gets at
  most twice the limit through in any stretch of one window's length, wherever it starts.
\<close>

theorem no_more_than_twice_the_limit:
  assumes "sorted (map le_time es)" and "0 < l" and "0 < w"
  shows "int (length (filter (\<lambda>h. t \<le> h \<and> h < t + w) (granted ip es (NewRateLimiter l w)))) \<le> 2 * l"
proof (cases es)
  case Nil
  then show ?thesis using assms(2) by simp
next
  case (Cons e es')
  have "quota_inv l w (le_time e) None []" using assms(2) by (simp add: quota_inv_def between_def)
  then show ?thesis
    using quota_granted [of "NewRateLimiter l w" "le_time e" ip "[]" es t] assms Cons
    by (simp add: NewRateLimiter_def between_def)
qed

theorem no_more_than_twice_the_limit_witness:
  "int (length (filter (\<lambda>h. 0 \<le> h \<and> h < 0 + 10)
     (granted ''ip'' [Request ''ip'' 8, Request ''ip'' 9, Cleaned 9, Request ''ip'' 9] (NewRateLimiter 1 10)))) \<le> 2 * 1"
  by (rule no_more_than_twice_the_limit) simp_all

text \<open>
  C30: what an IP is granted depends on its own requests only: neither the requests of other IPs nor
  the cleanups, whenever they run, change any decision about it.
\<close>

theorem ips_do_not_interfere:
  assumes "sorted (map le_time es)" and "0 \<le> w"
  shows "granted ip es (NewRateLimiter l w) = granted ip (filter (own_request ip) es) (NewRateLimiter l w)"
proof (cases es)
  case (Cons e es')
  have "same_for (le_time e) ip (NewRateLimiter l w) (NewRateLimiter l w)" by (simp add: same_for_def)
  then show ?thesis
    using granted_same_for [of "le_time e" ip "NewRateLimiter l w" "NewRateLimiter l w" es] assms Cons
    by (simp add: NewRateLimiter_def)
qed simp

theorem ips_do_not_interfere_witness:
  "granted ''ip'' [Request ''ip'' 0, Request ''other'' 1, Cleaned 2, Request ''ip'' 3] (NewRateLimiter 1 10)
     = granted ''ip'' [Request ''ip'' 0, Request ''ip'' 3] (NewRateLimiter 1 10)"
  by (subst ips_do_not_interfere) simp_all

text \<open>
  The middleware answers 429 exactly when the limiter is on, the client's window is still open and
  its count has reached the limit; the seconds it asks to wait are at least one and no more than
  the time until the window ends unless that is less than a second, and the request is not counted.
\<close>

theorem middleware_gate:
  "Middleware r now rl =
    (case rl_buckets rl (clientIP r) of
       Some b \<Rightarrow>
         (let left = bk_windowStart b + rl_window rl - now in
          if rl_limit rl \<noteq> 0 \<and> 0 < left \<and> rl_limit rl \<le> bk_count b
          then (RateLimited (max 1 (left div second)), rl)
          else (PassOn, snd (Allow (clientIP r) now rl)))
     | None \<Rightarrow> (PassOn, snd (Allow (clientIP r) now rl)))"
proof (cases "rl_buckets rl (clientIP r)")
  case None
  then show ?thesis by (simp add: Middleware_def Allow_def)
next
  case (Some b)
  show ?thesis
    using Some whole_seconds_nonneg [of "bk_windowStart b + rl_window rl - now"]
    by (auto simp: Middleware_def Allow_def Let_def max_def)
qed

end
