(* ===== verification/Http_Server.thy ===== *)
theory Http_Server
  imports Service_Properties Hub Rate_Limiter
begin

section \<open>The HTTP server: internal/adapters/http/server.go\<close>

text \<open>
  The handlers over the room service, the hub and the two rate limiters.  A request is one of the
  registered routes with what the handler reads of it: the path value, or the JSON body, \<open>None\<close>
  when it does not decode.  Texts are byte strings; the comment of a feedback, which the code counts
  in runes, is a list of code points (decoded JSON strings are valid UTF-8, so the conversion to
  runes and back is exact).  Sockets, timeouts and shutdown are \<open>net/http\<close>'s.
\<close>

record server_config =
  sc_Addr :: string
  sc_ReadTimeout :: time
  sc_WriteTimeout :: time
  sc_ShutdownTimeout :: time
  sc_TurnConfigured :: bool
  sc_APIKeyPresent :: bool
  sc_CodecMode :: string

definition DefaultConfig :: server_config where
  "DefaultConfig = \<lparr>sc_Addr = '':8080'', sc_ReadTimeout = 10 * second, sc_WriteTimeout = 10 * second,
     sc_ShutdownTimeout = 15 * second, sc_TurnConfigured = False, sc_APIKeyPresent = False,
     sc_CodecMode = []\<rparr>"

datatype jval = JString string | JBool bool | JInt int

record response =
  rs_status :: nat
  rs_contentType :: string
  rs_retryAfter :: "int option"
  rs_body :: "(string \<times> jval) list"

text \<open>
  The content type and \<open>Retry-After\<close> are the only headers the handlers set; a 204 has neither and no
  body.  What a handler does with the connection: answer, or upgrade it to the room's WebSocket.
\<close>

datatype outcome = Answer response | Upgrade string

definition writeJSON :: "nat \<Rightarrow> (string \<times> jval) list \<Rightarrow> outcome" where
  "writeJSON status v = Answer \<lparr>rs_status = status, rs_contentType = ''application/json'', rs_retryAfter = None, rs_body = v\<rparr>"

definition writeError :: "nat \<Rightarrow> string \<Rightarrow> outcome" where
  "writeError status m = writeJSON status [(''error'', JString m)]"

definition isLanguageError :: "gerror \<Rightarrow> bool" where
  "isLanguageError e = errors_Is e ErrInvalidLanguageCode"

text \<open>The Spanish text of the 410 answer, in UTF-8.\<close>

definition roomExpiredText :: string where
  "roomExpiredText = ''Esta sala expir'' @ [CHR 0xC3, CHR 0xB3] @ ''. Cre'' @ [CHR 0xC3, CHR 0xA1] @ '' una nueva.''"

definition healthHandler :: "server_config \<Rightarrow> outcome" where
  "healthHandler cfg = writeJSON 200 [(''status'', JString ''ok''),
     (''turn_configured'', JBool (sc_TurnConfigured cfg)),
     (''api_key_present'', JBool (sc_APIKeyPresent cfg)), (''codec_mode'', JString (sc_CodecMode cfg))]"

definition createRoomHandler ::
  "'r room_repository \<Rightarrow> env \<Rightarrow> (string \<times> string) option \<Rightarrow> ('r, 'p) service \<Rightarrow> outcome \<times> ('r, 'p) service" where
  "createRoomHandler R E body w =
     (case body of
        None \<Rightarrow> (writeError 400 ''invalid request body'', w)
      | Some (src, tgt) \<Rightarrow>
          (case CreateRoom R E src tgt w of
             (Inl e, w') \<Rightarrow>
               (if isLanguageError e then writeError 400 (error_text e)
                else if errors_Is e ErrRoomFull then writeError 409 ''Esta sala ya tiene 2 participants''
                else if errors_Is e ErrRoomClosed then writeError 410 roomExpiredText
                else writeError 500 ''internal server error'', w')
           | (Inr p, w') \<Rightarrow>
               (writeJSON 201 [(''room_id'', JString (rm_ID (sv_heap w' p))),
                               (''short_code'', JString (rm_ShortCode (sv_heap w' p)))], w')))"

definition deleteRoomHandler ::
  "'r room_repository \<Rightarrow> 'p webrtc_peer \<Rightarrow> env \<Rightarrow> string \<Rightarrow> ('r, 'p) service \<Rightarrow> outcome \<times> ('r, 'p) service" where
  "deleteRoomHandler R P E roomID w =
     (case DeleteRoom R P E roomID w of
        (Some e, w') \<Rightarrow>
          (if errors_Is e ErrRoomNotFound then writeError 404 ''room not found''
           else writeError 500 ''internal server error'', w')
      | (None, w') \<Rightarrow> (Answer \<lparr>rs_status = 204, rs_contentType = [], rs_retryAfter = None, rs_body = []\<rparr>, w'))"

definition getRoomByShortCodeHandler ::
  "'r room_repository \<Rightarrow> string \<Rightarrow> ('r, 'p) service \<Rightarrow> outcome" where
  "getRoomByShortCodeHandler R code w =
     (if code = [] then writeError 400 ''code is required''
      else case svc_FindByShortCode R code w of
        Inl e \<Rightarrow>
          if errors_Is e ErrRoomNotFound then writeError 404 ''room not found''
          else if errors_Is e ErrRoomClosed then writeError 410 roomExpiredText
          else writeError 500 ''internal server error''
      | Inr p \<Rightarrow> writeJSON 200 [(''room_id'', JString (rm_ID (sv_heap w p))),
                                (''short_code'', JString (rm_ShortCode (sv_heap w p)))])"

definition wsHandler ::
  "'r room_repository \<Rightarrow> bool \<Rightarrow> string \<Rightarrow> ('r, 'p) service \<Rightarrow> outcome" where
  "wsHandler R hub_present roomID w =
     (if roomID = [] then writeError 400 ''roomID is required''
      else case RoomExists R roomID w of
        Some e \<Rightarrow> if errors_Is e ErrRoomNotFound then writeError 404 ''room not found''
                  else writeError 500 ''internal server error''
      | None \<Rightarrow> if \<not> hub_present then writeError 500 ''signaling not configured''
                else Upgrade roomID)"

record feedback =
  fb_SessionID :: string
  fb_Rating :: int
  fb_Comment :: "nat list"

text \<open>The answer and the record logged as \<open>user_feedback\<close>, if any.\<close>

definition feedbackHandler :: "feedback option \<Rightarrow> outcome \<times> feedback option" where
  "feedbackHandler body =
     (case body of
        None \<Rightarrow> (writeError 400 ''invalid request body'', None)
      | Some req \<Rightarrow>
          if fb_SessionID req = [] then (writeError 400 ''session_id is required'', None)
          else if fb_Rating req < 1 \<or> fb_Rating req > 5
          then (writeError 400 ''rating must be between 1 and 5'', None)
          else (let comment = fb_Comment req;
                    cut = (if length comment > 1000 then take 1000 comment else comment)
                in (writeJSON 200 [(''status'', JString ''ok'')], Some (req\<lparr>fb_Comment := cut\<rparr>))))"

subsection \<open>Routes\<close>

datatype route =
    GetHealth
  | DeleteRoomByID string
  | GetRoomByCode string
  | PostFeedback "feedback option"
  | PostRooms "(string \<times> string) option"
  | GetWS string

record ('r, 'p) server =
  sr_cfg :: server_config
  sr_manager :: "('r, 'p) service"
  sr_hub :: bool
  sr_roomLimiter :: "rate_limiter option"
  sr_wsLimiter :: "rate_limiter option"
  sr_feedback :: "feedback list"

definition NewServer ::
  "server_config \<Rightarrow> ('r, 'p) service \<Rightarrow> bool \<Rightarrow> rate_limiter option \<Rightarrow> rate_limiter option \<Rightarrow> ('r, 'p) server" where
  "NewServer cfg manager hub roomLimiter wsLimiter =
     \<lparr>sr_cfg = cfg, sr_manager = manager, sr_hub = hub, sr_roomLimiter = roomLimiter,
      sr_wsLimiter = wsLimiter, sr_feedback = []\<rparr>"

definition limited :: "http_request \<Rightarrow> time \<Rightarrow> rate_limiter option \<Rightarrow> gate \<times> rate_limiter option" where
  "limited rq now l =
     (case l of None \<Rightarrow> (PassOn, None)
      | Some rl \<Rightarrow> (case Middleware rq now rl of (g, rl') \<Rightarrow> (g, Some rl')))"

definition rateLimitedAnswer :: "int \<Rightarrow> outcome" where
  "rateLimitedAnswer retryAfter = Answer \<lparr>rs_status = 429, rs_contentType = ''application/json'',
     rs_retryAfter = Some retryAfter,
     rs_body = [(''error'', JString ''rate-limited''), (''retry_after_seconds'', JInt retryAfter)]\<rparr>"

fun handle ::
  "'r room_repository \<Rightarrow> 'p webrtc_peer \<Rightarrow> env \<Rightarrow> http_request \<Rightarrow> route \<Rightarrow> ('r, 'p) server
     \<Rightarrow> outcome \<times> ('r, 'p) server" where
  "handle R P E rq GetHealth s = (healthHandler (sr_cfg s), s)"
| "handle R P E rq (DeleteRoomByID i) s =
     (case deleteRoomHandler R P E i (sr_manager s) of (out, w) \<Rightarrow> (out, s\<lparr>sr_manager := w\<rparr>))"
| "handle R P E rq (GetRoomByCode c) s = (getRoomByShortCodeHandler R c (sr_manager s), s)"
| "handle R P E rq (PostFeedback b) s =
     (case feedbackHandler b of (out, None) \<Rightarrow> (out, s)
      | (out, Some f) \<Rightarrow> (out, s\<lparr>sr_feedback := sr_feedback s @ [f]\<rparr>))"
| "handle R P E rq (PostRooms b) s =
     (case limited rq (ev_now E) (sr_roomLimiter s) of
        (RateLimited n, l) \<Rightarrow> (rateLimitedAnswer n, s\<lparr>sr_roomLimiter := l\<rparr>)
      | (PassOn, l) \<Rightarrow>
          (case createRoomHandler R E b (sr_manager s) of
             (out, w) \<Rightarrow> (out, s\<lparr>sr_roomLimiter := l, sr_manager := w\<rparr>)))"
| "handle R P E rq (GetWS i) s =
     (case limited rq (ev_now E) (sr_wsLimiter s) of
        (RateLimited n, l) \<Rightarrow> (rateLimitedAnswer n, s\<lparr>sr_wsLimiter := l\<rparr>)
      | (PassOn, l) \<Rightarrow> (wsHandler R (sr_hub s) i (sr_manager s), s\<lparr>sr_wsLimiter := l\<rparr>))"

fun status :: "outcome \<Rightarrow> nat" where
  "status (Answer r) = rs_status r"
| "status (Upgrade i) = 101"

subsection \<open>What the statuses say\<close>

lemma writeError_status [simp]: "status (writeError n m) = n" "status (writeJSON n v) = n"
  by (simp_all add: writeError_def writeJSON_def)

lemma GenerateShortCode_Inl:
  "GenerateShortCode rd = (Inl e, rd') \<Longrightarrow> e = Wrapped ''room.GenerateShortCode'' (rd_err rd)"
  by (auto simp: GenerateShortCode_def ReadFull_def split: if_splits)

lemma GenerateShortCode_err: "GenerateShortCode rd = (x, rd') \<Longrightarrow> rd_err rd' = rd_err rd"
  by (auto simp: GenerateShortCode_def ReadFull_def split: if_splits)

lemma pickShortCode_error:
  assumes "pickShortCode (mem_repository ord) h r n rd = Inl e"
  shows "e = Wrapped ''roomsvc.CreateRoom: generating short code'' (Wrapped ''room.GenerateShortCode'' (rd_err rd))"
  using assms
proof (induction n arbitrary: rd)
  case (Suc n)
  obtain x rd' where g: "GenerateShortCode rd = (x, rd')" by fastforce
  have notfound: "errors_Is e' ErrRoomNotFound"
    if "mem_FindByShortCode (ord r) c h r = Inl e'" for c e'
    using that by (auto simp: mem_FindByShortCode_def Let_def split: option.splits)
  show ?case
    using Suc g notfound GenerateShortCode_err [OF g] GenerateShortCode_Inl [of rd _ rd']
    by (auto split: sum.splits if_splits)
qed simp

lemma CreateRoom_error:
  assumes "CreateRoom (mem_repository ord) E src tgt w = (Inl e, w')" and "rd_err (ev_rand E) = Foreign m"
  shows "(errors_Is e ErrInvalidLanguageCode \<longleftrightarrow> length src \<noteq> 2 \<or> length tgt \<noteq> 2)
    \<and> \<not> errors_Is e ErrRoomFull \<and> \<not> errors_Is e ErrRoomClosed"
  using assms
  by (auto simp: CreateRoom_def Let_def mem_Save_def NewRoom_def split: sum.splits option.splits if_splits prod.splits
      dest!: pickShortCode_error)

text \<open>
  What \<open>POST /rooms\<close> answers: 400 exactly for a body that does not decode or a language that is
  not two bytes long, otherwise 201 or, when no code could be generated, 500; the branches for full
  and closed rooms are never taken.
\<close>

theorem create_room_statuses:
  assumes "rd_err (ev_rand E) = Foreign m"
  shows "status (fst (createRoomHandler (mem_repository ord) E body w)) =
    (case body of
       None \<Rightarrow> 400
     | Some (src, tgt) \<Rightarrow>
         if length src \<noteq> 2 then 400
         else if length tgt \<noteq> 2 then 400
         else if isl (fst (CreateRoom (mem_repository ord) E src tgt w)) then 500 else 201)"
proof (cases body)
  case (Some p)
  obtain src tgt where b: "body = Some (src, tgt)" using Some by (cases p) auto
  obtain x w' where C: "CreateRoom (mem_repository ord) E src tgt w = (x, w')" by fastforce
  show ?thesis
  proof (cases x)
    case (Inl e)
    then show ?thesis using CreateRoom_error [OF _ assms, of ord src tgt w e w'] b C
      by (auto simp: createRoomHandler_def isLanguageError_def)
  next
    case (Inr q)
    have "length src = 2 \<and> length tgt = 2"
      using C Inr by (auto simp: CreateRoom_def NewRoom_def split: if_splits)
    then show ?thesis using b C Inr by (simp add: createRoomHandler_def)
  qed
qed (simp add: createRoomHandler_def)

theorem create_room_statuses_witness:
  "status (fst (createRoomHandler example_repo (example_env 0 ''x'') (Some (''eng'', ''es'')) run3)) = 400"
  by (subst create_room_statuses [where m = "''EOF''"]) (simp_all add: example_env_def zero_reader_def)

text \<open>
  C33: a room that \<open>POST /rooms\<close> has answered with 201 is found under the code in the answer, in any
  case, with the same ID; its WebSocket opens; \<open>DELETE /rooms/{id}\<close> answers 204, and after it
  the code, the WebSocket and a second deletion all answer 404.
\<close>

theorem created_room_round_trip:
  assumes "service_reach ord P w" and "ord_ok ord" and "env_ok E" and "fresh_uuid w (ev_uuid E)" and "env_ok E'"
    and "createRoomHandler (mem_repository ord) E (Some (src, tgt)) w = (out, w')" and "status out = 201"
    and "w'' = snd (deleteRoomHandler (mem_repository ord) P E' (ev_uuid E) w')"
  shows "\<exists>code. code_shaped code
    \<and> out = writeJSON 201 [(''room_id'', JString (ev_uuid E)), (''short_code'', JString code)]
    \<and> (\<forall>c. ToUpper c = code \<longrightarrow> getRoomByShortCodeHandler (mem_repository ord) c w'
          = writeJSON 200 [(''room_id'', JString (ev_uuid E)), (''short_code'', JString code)])
    \<and> wsHandler (mem_repository ord) True (ev_uuid E) w' = Upgrade (ev_uuid E)
    \<and> status (fst (deleteRoomHandler (mem_repository ord) P E' (ev_uuid E) w')) = 204
    \<and> (\<forall>c. ToUpper c = code \<longrightarrow> status (getRoomByShortCodeHandler (mem_repository ord) c w'') = 404)
    \<and> status (wsHandler (mem_repository ord) True (ev_uuid E) w'') = 404
    \<and> status (fst (deleteRoomHandler (mem_repository ord) P E' (ev_uuid E) w'')) = 404"
proof -
  let ?R = "mem_repository ord" and ?i = "ev_uuid E"
  obtain p where C: "CreateRoom ?R E src tgt w = (Inr p, w')"
    using assms(6,7) by (auto simp: createRoomHandler_def split: prod.splits sum.splits if_splits)
  note eff = create_effect [OF assms(1,2,4) C, simplified]
  have r': "service_reach ord P w'"
    using service_reach.call [OF assms(1,3,4), of "CallCreate src tgt"] C by simp
  have c': "consistent (sv_repo w') w'" by (rule service_reach_consistent [OF r'])
  have p: "sv_repo w' ?i = Some p" using eff by simp
  have id: "rm_ID (sv_heap w' p) = ?i" by (rule rooms_soundD(1) [OF consistentD(4) [OF c'] p])
  have ne: "?i \<noteq> []" using assms(4) by (simp add: fresh_uuid_def)
  obtain x where D: "DeleteRoom ?R P E' ?i w' = (x, w'')"
    using assms(8) by (auto simp: deleteRoomHandler_def split: prod.splits option.splits)
  note d = delete_mem [OF c' assms(5) p D]
  have out: "out = writeJSON 201 [(''room_id'', JString ?i), (''short_code'', JString (rm_ShortCode (sv_heap w' p)))]"
    using assms(6) C id by (simp add: createRoomHandler_def)
  have nonempty: "c \<noteq> []" if "ToUpper c = rm_ShortCode (sv_heap w' p)" for c
    using that eff by (auto simp: code_shaped_def shortCodeLen_def ToUpper_def)
  have find: "getRoomByShortCodeHandler ?R c w'
      = writeJSON 200 [(''room_id'', JString ?i), (''short_code'', JString (rm_ShortCode (sv_heap w' p)))]"
    if "ToUpper c = rm_ShortCode (sv_heap w' p)" for c
    using code_lookup [OF r' assms(2) p, of c] that id nonempty [OF that] by (simp add: getRoomByShortCodeHandler_def)
  have gone: "DeleteRoom ?R P E' ?i w'' = (Some (Wrapped ''roomsvc.DeleteRoom''
      (Wrapped ''roomsvc.FindByID'' (Sentinel ErrRoomNotFound))), w'')"
    using d by (simp add: DeleteRoom_def mem_FindByID_def)
  show ?thesis
  proof (intro exI conjI)
    show "code_shaped (rm_ShortCode (sv_heap w' p))" using eff by simp
    show "out = writeJSON 201 [(''room_id'', JString ?i), (''short_code'', JString (rm_ShortCode (sv_heap w' p)))]"
      by (rule out)
    show "\<forall>c. ToUpper c = rm_ShortCode (sv_heap w' p) \<longrightarrow> getRoomByShortCodeHandler ?R c w'
      = writeJSON 200 [(''room_id'', JString ?i), (''short_code'', JString (rm_ShortCode (sv_heap w' p)))]"
      using find by blast
    show "wsHandler ?R True ?i w' = Upgrade ?i"
      using p ne by (simp add: wsHandler_def RoomExists_def mem_FindByID_def)
    show "status (fst (deleteRoomHandler ?R P E' ?i w')) = 204"
      using d D by (simp add: deleteRoomHandler_def)
    show "\<forall>c. ToUpper c = rm_ShortCode (sv_heap w' p) \<longrightarrow> status (getRoomByShortCodeHandler ?R c w'') = 404"
      using deleted_code [OF r' assms(2,5) p D] nonempty by (simp add: getRoomByShortCodeHandler_def)
    show "status (wsHandler ?R True ?i w'') = 404"
      using d ne by (simp add: wsHandler_def RoomExists_def mem_FindByID_def)
    show "status (fst (deleteRoomHandler ?R P E' ?i w'')) = 404"
      using gone by (simp add: deleteRoomHandler_def)
  qed
qed

theorem created_room_round_trip_witness:
  "status (wsHandler example_repo True ''r'' (snd (createRoomHandler example_repo (example_env 0 ''r'')
     (Some (''en'', ''es'')) run0))) = 101"
proof -
  let ?h = "createRoomHandler example_repo (example_env 0 ''r'') (Some (''en'', ''es'')) run0"
  have C: "CreateRoom example_repo (example_env 0 ''r'') ''en'' ''es'' run0 = (Inr 0, run1)" by (rule create_run1)
  then have h: "?h = (fst ?h, snd ?h)" "status (fst ?h) = 201" by (simp_all add: createRoomHandler_def)
  have f: "fresh_uuid run0 (ev_uuid (example_env 0 ''r''))" by (simp add: run0_eq fresh_eval)
  from created_room_round_trip [OF reach0 ord_ok_sorted example_env_ok f example_env_ok h refl, of 1 "''x''"]
  show ?thesis by (auto simp: example_env_def)
qed

text \<open>
  Feedback is accepted and logged exactly when it names a session and rates from 1 to 5; what is
  logged is the request with its comment cut to its first 1000 runes, everything else answers 400
  and logs nothing.
\<close>

theorem feedback_is_validated:
  "feedbackHandler body =
    (case body of
       Some req \<Rightarrow>
         if fb_SessionID req \<noteq> [] \<and> fb_Rating req \<in> {1..5}
         then (writeJSON 200 [(''status'', JString ''ok'')], Some (req\<lparr>fb_Comment := take 1000 (fb_Comment req)\<rparr>))
         else (writeError 400 (if fb_SessionID req = [] then ''session_id is required''
                               else ''rating must be between 1 and 5''), None)
     | None \<Rightarrow> (writeError 400 ''invalid request body'', None))"
  by (auto simp: feedbackHandler_def Let_def split: option.split)

end
