(* ===== verification/Pion_Peer.thy ===== *)
theory Pion_Peer
  imports Ports "HOL-Library.Word"
begin

section \<open>The WebRTC adapter: internal/adapters/webrtc\<close>

text \<open>
  \<open>PionPeer\<close> keeps a peer connection, an outbound track, an audio handler and a live inbound channel
  per session.  The Pion library is the parameter \<open>L\<close>: its calls read and change a state of their own
  and hand out connections and tracks as numbers.  A handler is a number as well; starting a handler
  on a channel is recorded in \<open>pp_started\<close>.
\<close>

record ice_server =
  ice_URLs :: "string list"
  ice_Username :: string
  ice_Credential :: string

definition stunURL :: string where
  "stunURL = ''stun:stun.l.google.com:19302''"

text \<open>\<open>strings.Split\<close> with a one-byte separator.\<close>

fun split_on :: "char \<Rightarrow> string \<Rightarrow> string list" where
  "split_on c [] = [[]]"
| "split_on c (x # xs) =
     (if x = c then [] # split_on c xs
      else (case split_on c xs of [] \<Rightarrow> [[x]] | w # ws \<Rightarrow> (x # w) # ws))"

definition BuildICEConfig :: "string \<Rightarrow> string \<Rightarrow> string \<Rightarrow> ice_server list" where
  "BuildICEConfig turnURLs turnUser turnPass =
     (let servers = [\<lparr>ice_URLs = [stunURL], ice_Username = [], ice_Credential = []\<rparr>] in
      if turnURLs \<noteq> [] then
        servers @ [\<lparr>ice_URLs = split_on CHR '','' turnURLs, ice_Username = turnUser,
                    ice_Credential = turnPass\<rparr>]
      else servers)"

definition pion_DefaultConfig :: "ice_server list" where
  "pion_DefaultConfig = [\<lparr>ice_URLs = [''stun:stun.l.google.com:19302''], ice_Username = [], ice_Credential = []\<rparr>]"

datatype pion_state =
    PCNew | PCConnecting | PCConnected | PCDisconnected | PCFailed | PCClosed | PCUnknown

definition pionStateToDriven :: "pion_state \<Rightarrow> PeerConnectionState" where
  "pionStateToDriven s = (case s of
       PCNew \<Rightarrow> PeerStateNew | PCConnecting \<Rightarrow> PeerStateConnecting | PCConnected \<Rightarrow> PeerStateConnected
     | PCDisconnected \<Rightarrow> PeerStateDisconnected | PCFailed \<Rightarrow> PeerStateFailed | PCClosed \<Rightarrow> PeerStateClosed
     | PCUnknown \<Rightarrow> PeerStateNew)"

record 'x pion_api =
  NewPeerConnection :: "ice_server list \<Rightarrow> 'x \<Rightarrow> (gerror + nat) \<times> 'x"
  NewTrackLocalStaticRTP :: "string \<Rightarrow> 'x \<Rightarrow> (gerror + nat) \<times> 'x"
  AddTrack :: "nat \<Rightarrow> nat \<Rightarrow> 'x \<Rightarrow> gerror option \<times> 'x"
  ClosePC :: "nat \<Rightarrow> 'x \<Rightarrow> gerror option \<times> 'x"
  SetRemoteDescription :: "nat \<Rightarrow> string \<Rightarrow> 'x \<Rightarrow> gerror option \<times> 'x"
  PCCreateAnswer :: "nat \<Rightarrow> 'x \<Rightarrow> (gerror + string) \<times> 'x"
  SetLocalDescription :: "nat \<Rightarrow> string \<Rightarrow> 'x \<Rightarrow> gerror option \<times> 'x"
  GatheredSDP :: "nat \<Rightarrow> 'x \<Rightarrow> string \<times> 'x"
  PCAddICECandidate :: "nat \<Rightarrow> string \<Rightarrow> 'x \<Rightarrow> gerror option \<times> 'x"
  PCOnICECandidate :: "nat \<Rightarrow> 'x \<Rightarrow> 'x"
  PCConnectionState :: "nat \<Rightarrow> 'x \<Rightarrow> pion_state"

record 'x pion_peer =
  pp_cfg :: "ice_server list"
  pp_lib :: 'x
  pp_peers :: "string \<rightharpoonup> nat"
  pp_localTracks :: "string \<rightharpoonup> nat"
  pp_audioHandlers :: "string \<rightharpoonup> nat"
  pp_rawTracks :: "string \<rightharpoonup> nat"
  pp_iceStateHandlers :: "string set"
  pp_nextChan :: nat
  pp_started :: "(nat \<times> nat) list"
  pp_iceFailed :: "string list"

definition NewPionPeer :: "ice_server list \<Rightarrow> 'x \<Rightarrow> 'x pion_peer" where
  "NewPionPeer cfg x = \<lparr>pp_cfg = cfg, pp_lib = x, pp_peers = (\<lambda>_. None), pp_localTracks = (\<lambda>_. None),
     pp_audioHandlers = (\<lambda>_. None), pp_rawTracks = (\<lambda>_. None), pp_iceStateHandlers = {},
     pp_nextChan = 0, pp_started = [], pp_iceFailed = []\<rparr>"

text \<open>The text of the first error is that of \<open>%q\<close> for an ID without characters it escapes.\<close>

definition pion_CreateSession :: "'x pion_api \<Rightarrow> string \<Rightarrow> 'x pion_peer \<Rightarrow> gerror option \<times> 'x pion_peer" where
  "pion_CreateSession L sid p =
     (if pp_peers p sid \<noteq> None
      then (Some (Foreign (''webrtc.CreateSession: session '' @ [CHR 0x22] @ sid @ [CHR 0x22] @ '' already exists'')), p)
      else case NewPeerConnection L (pp_cfg p) (pp_lib p) of
        (Inl e, x1) \<Rightarrow> (Some (Wrapped ''webrtc.CreateSession'' e), p\<lparr>pp_lib := x1\<rparr>)
      | (Inr pc, x1) \<Rightarrow>
      (case NewTrackLocalStaticRTP L (''talkgo-'' @ sid) x1 of
        (Inl e, x2) \<Rightarrow> (Some (Wrapped ''webrtc.CreateSession: create local track'' e),
                        p\<lparr>pp_lib := snd (ClosePC L pc x2)\<rparr>)
      | (Inr track, x2) \<Rightarrow>
      (case AddTrack L pc track x2 of
        (Some e, x3) \<Rightarrow> (Some (Wrapped ''webrtc.CreateSession: add track'' e),
                        p\<lparr>pp_lib := snd (ClosePC L pc x3)\<rparr>)
      | (None, x3) \<Rightarrow>
          (None, p\<lparr>pp_lib := x3, pp_iceStateHandlers := insert sid (pp_iceStateHandlers p),
                   pp_peers := (pp_peers p)(sid \<mapsto> pc),
                   pp_localTracks := (pp_localTracks p)(sid \<mapsto> track)\<rparr>))))"

definition pion_CloseSession :: "'x pion_api \<Rightarrow> string \<Rightarrow> 'x pion_peer \<Rightarrow> gerror option \<times> 'x pion_peer" where
  "pion_CloseSession L sid p =
     (case pp_peers p sid of
        None \<Rightarrow> (None, p)
      | Some pc \<Rightarrow>
          (let p1 = p\<lparr>pp_peers := (pp_peers p)(sid := None),
                      pp_localTracks := (pp_localTracks p)(sid := None),
                      pp_audioHandlers := (pp_audioHandlers p)(sid := None),
                      pp_rawTracks := (pp_rawTracks p)(sid := None),
                      pp_iceStateHandlers := pp_iceStateHandlers p - {sid}\<rparr>
           in case ClosePC L pc (pp_lib p1) of
                (Some e, x) \<Rightarrow> (Some (Wrapped ''webrtc.CloseSession'' e), p1\<lparr>pp_lib := x\<rparr>)
              | (None, x) \<Rightarrow> (None, p1\<lparr>pp_lib := x\<rparr>)))"

subsection \<open>Negotiation\<close>

definition pion_HandleOffer :: "'x pion_api \<Rightarrow> string \<Rightarrow> string \<Rightarrow> 'x pion_peer \<Rightarrow> gerror option \<times> 'x pion_peer" where
  "pion_HandleOffer L sid sdp p =
     (case pp_peers p sid of
        None \<Rightarrow> (Some (Wrapped ''webrtc.HandleOffer'' (Sentinel ErrSessionNotFound)), p)
      | Some pc \<Rightarrow>
          (case SetRemoteDescription L pc sdp (pp_lib p) of
             (Some e, x) \<Rightarrow> (Some (Wrapped ''webrtc.HandleOffer'' e), p\<lparr>pp_lib := x\<rparr>)
           | (None, x) \<Rightarrow> (None, p\<lparr>pp_lib := x\<rparr>)))"

text \<open>\<open>GatheredSDP\<close> is the local description once the gathering promise is fulfilled.\<close>

definition pion_CreateAnswer :: "'x pion_api \<Rightarrow> string \<Rightarrow> 'x pion_peer \<Rightarrow> (gerror + string) \<times> 'x pion_peer" where
  "pion_CreateAnswer L sid p =
     (case pp_peers p sid of
        None \<Rightarrow> (Inl (Wrapped ''webrtc.CreateAnswer'' (Sentinel ErrSessionNotFound)), p)
      | Some pc \<Rightarrow>
          (case PCCreateAnswer L pc (pp_lib p) of
             (Inl e, x1) \<Rightarrow> (Inl (Wrapped ''webrtc.CreateAnswer'' e), p\<lparr>pp_lib := x1\<rparr>)
           | (Inr answer, x1) \<Rightarrow>
               (case SetLocalDescription L pc answer x1 of
                  (Some e, x2) \<Rightarrow>
                    (Inl (Wrapped ''webrtc.CreateAnswer: setting local description'' e), p\<lparr>pp_lib := x2\<rparr>)
                | (None, x2) \<Rightarrow>
                    (case GatheredSDP L pc x2 of (sdp, x3) \<Rightarrow> (Inr sdp, p\<lparr>pp_lib := x3\<rparr>)))))"

definition pion_AddICECandidate :: "'x pion_api \<Rightarrow> string \<Rightarrow> string \<Rightarrow> 'x pion_peer \<Rightarrow> gerror option \<times> 'x pion_peer" where
  "pion_AddICECandidate L sid candidate p =
     (case pp_peers p sid of
        None \<Rightarrow> (Some (Wrapped ''webrtc.AddICECandidate'' (Sentinel ErrSessionNotFound)), p)
      | Some pc \<Rightarrow>
          (case PCAddICECandidate L pc candidate (pp_lib p) of
             (Some e, x) \<Rightarrow> (Some (Wrapped ''webrtc.AddICECandidate'' e), p\<lparr>pp_lib := x\<rparr>)
           | (None, x) \<Rightarrow> (None, p\<lparr>pp_lib := x\<rparr>)))"

definition pion_OnICECandidate :: "'x pion_api \<Rightarrow> string \<Rightarrow> 'x pion_peer \<Rightarrow> gerror option \<times> 'x pion_peer" where
  "pion_OnICECandidate L sid p =
     (case pp_peers p sid of
        None \<Rightarrow> (Some (Wrapped ''webrtc.OnICECandidate'' (Sentinel ErrSessionNotFound)), p)
      | Some pc \<Rightarrow> (None, p\<lparr>pp_lib := PCOnICECandidate L pc (pp_lib p)\<rparr>))"

text \<open>The function registered with Pion: a nil candidate, the end of gathering, is not passed on.\<close>

definition candidateCallback :: "string option \<Rightarrow> string list" where
  "candidateCallback c = (case c of None \<Rightarrow> [] | Some candidate \<Rightarrow> [candidate])"

definition pion_ConnectionState :: "'x pion_api \<Rightarrow> string \<Rightarrow> 'x pion_peer \<Rightarrow> gerror + PeerConnectionState" where
  "pion_ConnectionState L sid p =
     (case pp_peers p sid of
        None \<Rightarrow> Inl (Wrapped ''webrtc.ConnectionState'' (Sentinel ErrSessionNotFound))
      | Some pc \<Rightarrow> Inr (pionStateToDriven (PCConnectionState L pc (pp_lib p))))"

text \<open>The ICE state callback of a session; \<open>hook\<close> tells whether \<open>OnICEFailed\<close> is set.\<close>

definition iceStateChange :: "bool \<Rightarrow> bool \<Rightarrow> string \<Rightarrow> 'x pion_peer \<Rightarrow> 'x pion_peer" where
  "iceStateChange hook failed sid p =
     (if failed \<and> hook then p\<lparr>pp_iceFailed := pp_iceFailed p @ [sid]\<rparr> else p)"

subsection \<open>Inbound audio\<close>

text \<open>Pion's \<open>OnTrack\<close> callback: a fresh channel, and the handler on it if one is registered.\<close>

definition onTrack :: "string \<Rightarrow> 'x pion_peer \<Rightarrow> 'x pion_peer" where
  "onTrack sid p =
     (let ch = pp_nextChan p;
          p1 = p\<lparr>pp_nextChan := ch + 1, pp_rawTracks := (pp_rawTracks p)(sid \<mapsto> ch)\<rparr>
      in case pp_audioHandlers p1 sid of
           None \<Rightarrow> p1
         | Some h \<Rightarrow> p1\<lparr>pp_started := pp_started p1 @ [(h, ch)]\<rparr>)"

text \<open>The reading goroutine ends: the channel is closed and the session's entry deleted.\<close>

definition trackEnds :: "string \<Rightarrow> 'x pion_peer \<Rightarrow> 'x pion_peer" where
  "trackEnds sid p = p\<lparr>pp_rawTracks := (pp_rawTracks p)(sid := None)\<rparr>"

text \<open>One round of the reading goroutine on a channel of 32 frames: empty payloads and frames the
  channel has no room for are dropped.\<close>

definition readFrame :: "'b list \<Rightarrow> 'b list list \<Rightarrow> 'b list list" where
  "readFrame payload buf = (if payload = [] then buf else if length buf < 32 then buf @ [payload] else buf)"

definition pion_OnAudioTrack :: "string \<Rightarrow> nat \<Rightarrow> 'x pion_peer \<Rightarrow> gerror option \<times> 'x pion_peer" where
  "pion_OnAudioTrack sid h p =
     (let p1 = p\<lparr>pp_audioHandlers := (pp_audioHandlers p)(sid \<mapsto> h)\<rparr> in
      (None, case pp_rawTracks p1 sid of
               None \<Rightarrow> p1 | Some ch \<Rightarrow> p1\<lparr>pp_started := pp_started p1 @ [(h, ch)]\<rparr>))"

subsection \<open>Outbound audio\<close>

record rtp_packet =
  rtp_Version :: nat
  rtp_PayloadType :: nat
  rtp_SequenceNumber :: "16 word"
  rtp_Timestamp :: "32 word"
  rtp_SSRC :: nat
  rtp_Payload :: "8 word list"

text \<open>
  One round of the sending loop as the goroutine sees it: the frame received, whether the context is
  done before the frame is written, and how the write ends.  The list ends where the channel is
  closed.
\<close>

record send_round =
  sr_frame :: "8 word list"
  sr_cancelled :: bool
  sr_write :: "gerror option"

text \<open>The packets written and the error returned.\<close>

fun sendLoop :: "16 word \<Rightarrow> 32 word \<Rightarrow> send_round list \<Rightarrow> rtp_packet list \<times> gerror option" where
  "sendLoop seqNum timestamp [] = ([], None)"
| "sendLoop seqNum timestamp (r # rs) =
     (if sr_cancelled r then ([], None)
      else case sr_write r of
        Some e \<Rightarrow> ([], Some (Wrapped ''webrtc.SendAudio: write'' e))
      | None \<Rightarrow>
          (case sendLoop (seqNum + 1) (timestamp + 960) rs of
             (pkts, e) \<Rightarrow>
               (\<lparr>rtp_Version = 2, rtp_PayloadType = 111, rtp_SequenceNumber = seqNum,
                 rtp_Timestamp = timestamp, rtp_SSRC = 1, rtp_Payload = sr_frame r\<rparr> # pkts, e)))"

definition SendAudio :: "string \<Rightarrow> send_round list \<Rightarrow> 'x pion_peer \<Rightarrow> rtp_packet list \<times> gerror option" where
  "SendAudio sid rs p =
     (case pp_localTracks p sid of
        None \<Rightarrow> ([], Some (Foreign (''webrtc.SendAudio: no track for session '' @ sid)))
      | Some _ \<Rightarrow> sendLoop 0 0 rs)"

definition pion_webrtc_peer :: "'x pion_api \<Rightarrow> 'x pion_peer webrtc_peer" where
  "pion_webrtc_peer L =
     \<lparr>CreateSession = pion_CreateSession L, CloseSession = pion_CloseSession L,
      HandleOffer = pion_HandleOffer L, CreateAnswer = pion_CreateAnswer L,
      AddICECandidate = pion_AddICECandidate L, OnICECandidate = pion_OnICECandidate L\<rparr>"

subsection \<open>Properties of the adapter\<close>

text \<open>A Pion whose calls succeed.\<close>

definition quiet_pion :: "unit pion_api" where
  "quiet_pion = \<lparr>NewPeerConnection = (\<lambda>_ x. (Inr 0, x)), NewTrackLocalStaticRTP = (\<lambda>_ x. (Inr 0, x)),
     AddTrack = (\<lambda>_ _ x. (None, x)), ClosePC = (\<lambda>_ x. (None, x)), SetRemoteDescription = (\<lambda>_ _ x. (None, x)),
     PCCreateAnswer = (\<lambda>_ x. (Inr ''v=0'', x)), SetLocalDescription = (\<lambda>_ _ x. (None, x)),
     GatheredSDP = (\<lambda>_ x. (''v=0'', x)), PCAddICECandidate = (\<lambda>_ _ x. (None, x)),
     PCOnICECandidate = (\<lambda>_ x. x), PCConnectionState = (\<lambda>_ _. PCNew)\<rparr>"

text \<open>
  The audio handler and the track may arrive in either order: the handler is started once, on the
  track's channel.  A handler registered again while the track is live is started on the same
  channel, beside the first one.
\<close>

theorem handler_starts_in_either_order:
  assumes "pp_audioHandlers p sid = None" and "pp_rawTracks p sid = None"
  shows "pp_started (snd (pion_OnAudioTrack sid h (onTrack sid p))) = pp_started p @ [(h, pp_nextChan p)]
    \<and> pp_started (onTrack sid (snd (pion_OnAudioTrack sid h p))) = pp_started p @ [(h, pp_nextChan p)]
    \<and> pp_started (snd (pion_OnAudioTrack sid h' (onTrack sid (snd (pion_OnAudioTrack sid h p)))))
       = pp_started p @ [(h, pp_nextChan p), (h', pp_nextChan p)]"
  using assms by (simp add: pion_OnAudioTrack_def onTrack_def Let_def)

theorem handler_starts_in_either_order_witness:
  "pp_started (snd (pion_OnAudioTrack ''s'' 7 (onTrack ''s'' (NewPionPeer [] ())))) = [(7, 0)]"
  using handler_starts_in_either_order [of "NewPionPeer [] ()" "''s''" 7 8] by (simp add: NewPionPeer_def)

definition round_ok :: "send_round \<Rightarrow> bool" where
  "round_ok r \<longleftrightarrow> \<not> sr_cancelled r \<and> sr_write r = None"

lemma sendLoop_packets:
  assumes "k = length (takeWhile round_ok rs)"
  shows "map rtp_SequenceNumber (fst (sendLoop s t rs)) = map (\<lambda>n. s + of_nat n) [0..<k]
    \<and> map rtp_Timestamp (fst (sendLoop s t rs)) = map (\<lambda>n. t + 960 * of_nat n) [0..<k]
    \<and> map rtp_Payload (fst (sendLoop s t rs)) = map sr_frame (takeWhile round_ok rs)"
  using assms
proof (induction rs arbitrary: s t k)
  case (Cons r rs)
  show ?case
  proof (cases "round_ok r")
    case True
    have up: "map f [0..<Suc n] = f 0 # map (\<lambda>i. f (Suc i)) [0..<n]" for f :: "nat \<Rightarrow> 'b" and n
      by (simp add: upt_conv_Cons map_Suc_upt [symmetric] comp_def del: upt_Suc)
    obtain pkts e where sl: "sendLoop (s + 1) (t + 960) rs = (pkts, e)" by fastforce
    show ?thesis
      using True Cons.IH [OF refl, of "s + 1" "t + 960", unfolded sl] Cons.prems
      by (simp add: round_ok_def up sl add.assoc distrib_left del: upt_Suc)
  next
    case False
    then show ?thesis using Cons.prems by (auto simp: round_ok_def split: option.split)
  qed
qed simp

text \<open>
  A call of \<open>SendAudio\<close> writes the frames it receives in order until the context is done or a
  write fails; the n-th packet of the call has sequence number n modulo $2^16$ and timestamp 960 n
  modulo $2^32$, in every call: two calls on one track use the same numbers.
\<close>

theorem packets_are_numbered_from_zero:
  assumes "pp_localTracks p sid = Some track" and "k = length (takeWhile round_ok rs)"
  shows "map (unat \<circ> rtp_SequenceNumber) (fst (SendAudio sid rs p)) = map (\<lambda>n. n mod 2 ^ 16) [0..<k]
    \<and> map (unat \<circ> rtp_Timestamp) (fst (SendAudio sid rs p)) = map (\<lambda>n. (960 * n) mod 2 ^ 32) [0..<k]
    \<and> map rtp_Payload (fst (SendAudio sid rs p)) = map sr_frame (takeWhile round_ok rs)"
proof -
  note k = sendLoop_packets [OF assms(2), of 0 0]
  have "map (unat \<circ> rtp_SequenceNumber) (fst (sendLoop 0 0 rs)) = map unat (map rtp_SequenceNumber (fst (sendLoop 0 0 rs)))"
    by simp
  also have "\<dots> = map (\<lambda>n. n mod 2 ^ 16) [0..<k]" unfolding k [THEN conjunct1] by (simp add: unsigned_of_nat take_bit_eq_mod)
  finally have s: "map (unat \<circ> rtp_SequenceNumber) (fst (sendLoop 0 0 rs)) = map (\<lambda>n. n mod 2 ^ 16) [0..<k]" .
  have "map (unat \<circ> rtp_Timestamp) (fst (sendLoop 0 0 rs)) = map unat (map rtp_Timestamp (fst (sendLoop 0 0 rs)))"
    by simp
  also have "\<dots> = map (\<lambda>n. unat (of_nat (960 * n) :: 32 word)) [0..<k]"
    unfolding k [THEN conjunct2, THEN conjunct1] by simp
  also have "\<dots> = map (\<lambda>n. (960 * n) mod 2 ^ 32) [0..<k]"
    by (simp add: unsigned_of_nat take_bit_eq_mod del: of_nat_mult)
  finally show ?thesis using s k assms(1) by (simp add: SendAudio_def)
qed

theorem packets_are_numbered_from_zero_witness:
  "map (unat \<circ> rtp_Timestamp) (fst (SendAudio ''s''
     [\<lparr>sr_frame = [1], sr_cancelled = False, sr_write = None\<rparr>, \<lparr>sr_frame = [2], sr_cancelled = False, sr_write = None\<rparr>]
     ((NewPionPeer [] ())\<lparr>pp_localTracks := [''s'' \<mapsto> 0]\<rparr>))) = [0, 960]"
proof -
  let ?rs = "[\<lparr>sr_frame = [1], sr_cancelled = False, sr_write = None\<rparr>,
     \<lparr>sr_frame = [2], sr_cancelled = False, sr_write = None\<rparr>] :: send_round list"
  let ?p = "(NewPionPeer [] ())\<lparr>pp_localTracks := [''s'' \<mapsto> 0]\<rparr>"
  have "pp_localTracks ?p ''s'' = Some 0" by simp
  from packets_are_numbered_from_zero [OF this refl, of ?rs] show ?thesis
    by (simp add: round_ok_def upt_rec)
qed

text \<open>
  The ICE configuration always starts with the public STUN server; a TURN entry follows exactly
  when TURN URLs are configured, with the user name and credential, and joining its URLs with
  commas gives back the configured text.
\<close>

fun join_with :: "char \<Rightarrow> string list \<Rightarrow> string" where
  "join_with c [] = []"
| "join_with c [w] = w"
| "join_with c (w # v # ws) = w @ c # join_with c (v # ws)"

lemma split_on_ne: "split_on c s \<noteq> []"
  by (induction s) (auto split: list.split)

lemma join_split: "join_with c (split_on c s) = s"
proof (induction s)
  case (Cons x s)
  obtain w ws where s: "split_on c s = w # ws" using split_on_ne [of c s] by (cases "split_on c s") auto
  show ?case using Cons s by (cases ws) auto
qed simp

lemma split_on_free: "w \<in> set (split_on c s) \<Longrightarrow> c \<notin> set w"
  by (induction s arbitrary: w) (auto split: list.splits if_splits)

theorem ice_configuration:
  "\<exists>urls. BuildICEConfig t u pw =
      \<lparr>ice_URLs = [stunURL], ice_Username = [], ice_Credential = []\<rparr>
        # (if t = [] then [] else [\<lparr>ice_URLs = urls, ice_Username = u, ice_Credential = pw\<rparr>])
    \<and> join_with CHR '','' urls = t \<and> filter (\<lambda>w. CHR '','' \<in> set w) urls = []"
  using join_split [of "CHR '',''" t] split_on_free [of _ "CHR '',''" t]
  by (intro exI [of _ "split_on CHR '','' t"]) (auto simp: BuildICEConfig_def filter_empty_conv)

end
