(* ===== verification/Peer_Sessions.thy ===== *)
theory Peer_Sessions
  imports Example_Run Pion_Peer
begin

section \<open>Peer connections and sessions\<close>

text \<open>
  What the service relies on from a \<open>WebRTCPeer\<close> to keep connections and sessions together, as the
  locale \<open>peer_port\<close> over the set of sessions a peer holds open; the service's side proved from it for
  any repository; and the Pion adapter as the provider.
\<close>

locale peer_port =
  fixes opened :: "'p \<Rightarrow> string set" and P :: "'p webrtc_peer"
  assumes create_opens: "CreateSession P s p = (None, p') \<Longrightarrow> opened p' = insert s (opened p)"
    and create_fails: "CreateSession P s p = (Some e, p') \<Longrightarrow> opened p' = opened p"
    and close_closes: "opened (snd (CloseSession P s p)) = opened p - {s}"
    and offer_keeps: "opened (snd (HandleOffer P s d p)) = opened p"
    and answer_keeps: "opened (snd (CreateAnswer P s p)) = opened p"
    and candidate_keeps: "opened (snd (AddICECandidate P s d p)) = opened p"
    and callback_keeps: "opened (snd (OnICECandidate P s p)) = opened p"
begin

lemma openSession_covers:
  assumes "opened (sv_peer w) \<subseteq> dom (sv_sessions w)" and "openSession R P E p b i u lang w = (x, w')"
  shows "opened (sv_peer w') \<subseteq> dom (sv_sessions w')"
  using assms
  by (auto simp: openSession_def Let_def NewSession_def close_closes
      dest!: create_opens create_fails split: prod.splits option.splits if_splits)

lemma JoinRoom_covers:
  assumes "opened (sv_peer w) \<subseteq> dom (sv_sessions w)" and "JoinRoom R P E i u lang w = (x, w')"
  shows "opened (sv_peer w') \<subseteq> dom (sv_sessions w')"
  using assms
  by (auto simp: JoinRoom_def Let_def frame_simps dest!: openSession_covers [rotated]
      split: if_splits sum.splits option.splits)

lemma LeaveRoom_covers:
  assumes "opened (sv_peer w) \<subseteq> dom (sv_sessions w)" and "LeaveRoom R P E i u w = (x, w')"
  shows "opened (sv_peer w') \<subseteq> dom (sv_sessions w')"
  using assms
  by (auto simp: LeaveRoom_def Let_def frame_simps close_closes
      split: if_splits sum.splits option.splits prod.splits)

lemma dropLookupKey_covers:
  "opened (sv_peer w) \<subseteq> dom (sv_sessions w) \<Longrightarrow>
     opened (sv_peer (dropLookupKey P x k w)) \<subseteq> dom (sv_sessions (dropLookupKey P x k w))"
  by (auto simp: dropLookupKey_def Let_def close_closes split: option.splits)

lemma dropLoop_covers:
  "opened (sv_peer w) \<subseteq> dom (sv_sessions w) \<Longrightarrow>
     opened (sv_peer (fold (dropLookupKey P x) ks w)) \<subseteq> dom (sv_sessions (fold (dropLookupKey P x) ks w))"
  by (induction ks arbitrary: w) (simp_all add: dropLookupKey_covers)

lemma DeleteRoom_covers:
  assumes "opened (sv_peer w) \<subseteq> dom (sv_sessions w)"
  shows "opened (sv_peer (snd (DeleteRoom R P E i w))) \<subseteq> dom (sv_sessions (snd (DeleteRoom R P E i w)))"
proof (cases "FindByID R i (sv_heap w) (sv_repo w)")
  case (Inr p)
  let ?w1 = "w\<lparr>sv_heap := (sv_heap w)(p := Close (sv_heap w p))\<rparr>"
  have "opened (sv_peer ?w1) \<subseteq> dom (sv_sessions ?w1)" using assms by simp
  from dropLoop_covers [OF this, of "i @ '':''" "ev_ord_lookup E (sv_lookup ?w1)"] Inr show ?thesis
    by (simp add: DeleteRoom_def Let_def frame_simps split: prod.split option.split)
qed (simp add: DeleteRoom_def assms)

lemma sweepLoop_covers:
  "opened (sv_peer w) \<subseteq> dom (sv_sessions w) \<Longrightarrow>
     opened (sv_peer (sweepLoop R P E ps w)) \<subseteq> dom (sv_sessions (sweepLoop R P E ps w))"
  by (induction ps arbitrary: w) (simp_all add: DeleteRoom_covers)

lemma graceTimerFires_covers:
  "opened (sv_peer w) \<subseteq> dom (sv_sessions w) \<Longrightarrow>
     opened (sv_peer (graceTimerFires R P E sid t w)) \<subseteq> dom (sv_sessions (graceTimerFires R P E sid t w))"
  by (simp add: graceTimerFires_def Let_def frame_simps DeleteRoom_covers)

lemma handleJoin_covers:
  assumes "opened (sv_peer w) \<subseteq> dom (sv_sessions w)"
  shows "opened (sv_peer (snd (handleJoin R P E m w))) \<subseteq> dom (sv_sessions (snd (handleJoin R P E m w)))"
proof (cases "JoinRoom R P E (msg_RoomID m) (msg_UserID m) (msg_Lang m) w")
  case (Pair x w1)
  from JoinRoom_covers [OF assms Pair] Pair show ?thesis
    by (auto simp: handleJoin_def Let_def frame_simps split: sum.split option.split)
qed

lemma handleOffer_peer: "opened (sv_peer (snd (handleOffer P m w))) = opened (sv_peer w)"
proof -
  obtain x p1 where 1: "HandleOffer P (msg_SessionID m) (msg_SDP m) (sv_peer w) = (x, p1)" by fastforce
  obtain y p3 where 3: "CreateAnswer P (msg_SessionID m) (snd (OnICECandidate P (msg_SessionID m) p1)) = (y, p3)"
    by fastforce
  have "opened p1 = opened (sv_peer w)" using offer_keeps 1 by (metis snd_conv)
  moreover have "opened p3 = opened p1" using answer_keeps callback_keeps 3 by (metis snd_conv)
  ultimately show ?thesis using 1 3 by (simp add: handleOffer_def Let_def split: option.split sum.split)
qed

lemma HandleSignaling_covers:
  assumes "opened (sv_peer w) \<subseteq> dom (sv_sessions w)"
  shows "opened (sv_peer (snd (HandleSignaling R P E m w))) \<subseteq> dom (sv_sessions (snd (HandleSignaling R P E m w)))"
proof -
  have off: "handleOffer P m w = (y, v) \<Longrightarrow> opened (sv_peer v) \<subseteq> dom (sv_sessions v)" for y v
    using handleOffer_peer [of m w] handleOffer_frame [of P m w] assms by simp
  have jn: "handleJoin R P E m w = (y, v) \<Longrightarrow> opened (sv_peer v) \<subseteq> dom (sv_sessions v)" for y v
    using handleJoin_covers [OF assms, of R E m] by simp
  show ?thesis
    using off jn assms candidate_keeps LeaveRoom_covers [OF assms]
    by (simp add: HandleSignaling_def split: prod.split option.split go_result.split)
qed

lemma perform_covers:
  assumes "opened (sv_peer w) \<subseteq> dom (sv_sessions w)"
  shows "opened (sv_peer (perform R P E k w)) \<subseteq> dom (sv_sessions (perform R P E k w))"
proof (cases k)
  case (CallCreate s t)
  then show ?thesis using CreateRoom_frame [OF prod.collapse, of R E s t w] assms by simp
next
  case (CallJoin i u l)
  then show ?thesis using JoinRoom_covers [OF assms prod.collapse [symmetric]] by simp
next
  case (CallLeave i u)
  then show ?thesis using LeaveRoom_covers [OF assms prod.collapse [symmetric]] by simp
next
  case (CallTimer sid)
  then show ?thesis using graceTimerFires_covers [OF assms] assms by (simp add: runTimer_def split: option.split)
next
  case CallSweep
  then show ?thesis using sweepLoop_covers [OF assms] assms by (simp add: sweepExpiredRooms_def split: sum.split)
next
  case (CallTouch i)
  then show ?thesis using assms by (simp add: svc_UpdateLastActivity_def split: prod.split option.split)
next
  case (CallDrop sid)
  then show ?thesis using assms by (auto simp: OnDisconnect_def split: option.split)
next
  case (CallHalf a)
  have "dom (sv_sessions w) \<subseteq> dom (sv_sessions (applyAction a w)) \<and> sv_peer (applyAction a w) = sv_peer w"
    by (cases a) (auto simp: NotifySession_def logSessionError_def Let_def split: option.split)
  then show ?thesis using assms CallHalf by auto
next
  case (CallTranscripts sid ts)
  have "sv_peer (forwardTranscripts sid ts w) = sv_peer w"
    by (induction ts arbitrary: w) (simp_all add: forwardTranscripts_def NotifySession_def)
  then show ?thesis using assms CallTranscripts by (simp add: frame_simps)
next
  case (CallSpawned n)
  have "sv_peer (runSpawned n w) = sv_peer w"
    by (simp add: runSpawned_def startPipeline_def Let_def split: prod.split)
  then show ?thesis using assms CallSpawned by (simp add: frame_simps)
qed (use assms in \<open>simp_all add: DeleteRoom_covers HandleSignaling_covers localCandidate_def frame_simps\<close>)

end

interpretation pion: peer_port "\<lambda>p. dom (pp_peers p)" "pion_webrtc_peer L" for L
  by unfold_locales
    (auto simp: pion_webrtc_peer_def pion_CreateSession_def pion_CloseSession_def pion_HandleOffer_def
      pion_CreateAnswer_def pion_AddICECandidate_def pion_OnICECandidate_def Let_def
      split: option.splits sum.splits prod.splits if_splits)

text \<open>
  With the Pion adapter and any repository, no call, timer, sweep or goroutine of the service
  leaves a peer connection open that no registered session owns.
\<close>

theorem no_connection_leaks:
  assumes "dom (pp_peers (sv_peer w)) \<subseteq> dom (sv_sessions w)"
  shows "dom (pp_peers (sv_peer (perform R (pion_webrtc_peer L) E k w)))
    \<subseteq> dom (sv_sessions (perform R (pion_webrtc_peer L) E k w))"
  by (rule pion.perform_covers [OF assms])

definition idle_service :: "(mem_repo, unit pion_peer) service" where
  "idle_service = (case NewService DefaultServiceConfig (Some NewInMemoryRoomRepository) (Some (NewPionPeer [] ())) True True True of
     Inr w \<Rightarrow> w)"

theorem no_connection_leaks_witness:
  "dom (pp_peers (sv_peer (perform example_repo (pion_webrtc_peer quiet_pion) (example_env 0 ''a'')
       (CallJoin ''r'' ''alice'' ''en'') idle_service)))
    \<subseteq> dom (sv_sessions (perform example_repo (pion_webrtc_peer quiet_pion) (example_env 0 ''a'')
       (CallJoin ''r'' ''alice'' ''en'') idle_service))"
  by (rule no_connection_leaks) (simp add: idle_service_def NewService_def NewPionPeer_def DefaultServiceConfig_def)

end
