(* ===== verification/Server_Main.thy ===== *)
theory Server_Main
  imports Http_Server Peer_Sessions
begin

section \<open>The server program: cmd/server/main.go\<close>

text \<open>
  The configuration read from the environment and the wiring of \<open>run\<close>: which components are built with
  what, up to the point where the server listens; the states the running server can reach; how it is
  left.  The environment is a function, empty where a variable is not set.  Logging and the start of
  the background loops (whose steps are those of the service and the limiters) are not modelled.
\<close>

record app_config =
  ac_Port :: string
  ac_LogLevel :: string
  ac_CodecMode :: string
  ac_OpenAIAPIKey :: string
  ac_TurnURLs :: string
  ac_TurnUsername :: string
  ac_TurnPassword :: string
  ac_RateLimitRooms :: int
  ac_RateLimitWS :: int

text \<open>A limit that is set and reads as a number, else the default (with a warning if it is set).\<close>

definition limitFrom :: "int \<Rightarrow> string \<Rightarrow> int" where
  "limitFrom dflt v = (if v \<noteq> [] then case Atoi v of None \<Rightarrow> dflt | Some n \<Rightarrow> n else dflt)"

text \<open>The text of the second error is that of \<open>%q\<close> for a mode without characters it escapes.\<close>

definition loadConfig :: "(string \<Rightarrow> string) \<Rightarrow> gerror + app_config" where
  "loadConfig getenv =
     (let apiKey = getenv ''OPENAI_API_KEY'';
          codecMode = (if getenv ''CODEC_MODE'' = [] then ''opus'' else getenv ''CODEC_MODE'') in
      if apiKey = [] then Inl (Foreign ''OPENAI_API_KEY is required but not set'')
      else if codecMode \<noteq> ''opus'' \<and> codecMode \<noteq> ''passthrough''
      then Inl (Foreign (''CODEC_MODE='' @ [CHR 0x22] @ codecMode @ [CHR 0x22] @ '' is invalid: must be '' @
                         [CHR 0x22] @ ''opus'' @ [CHR 0x22] @ '' or '' @ [CHR 0x22] @ ''passthrough'' @ [CHR 0x22]))
      else Inr \<lparr>ac_Port = (if getenv ''PORT'' = [] then ''8080'' else getenv ''PORT''),
                ac_LogLevel = (if getenv ''LOG_LEVEL'' = [] then ''info'' else getenv ''LOG_LEVEL''),
                ac_CodecMode = codecMode, ac_OpenAIAPIKey = apiKey,
                ac_TurnURLs = getenv ''TURN_URLS'', ac_TurnUsername = getenv ''TURN_USERNAME'',
                ac_TurnPassword = getenv ''TURN_PASSWORD'',
                ac_RateLimitRooms = limitFrom 10 (getenv ''RATE_LIMIT_ROOMS''),
                ac_RateLimitWS = limitFrom 20 (getenv ''RATE_LIMIT_WS'')\<rparr>)"

datatype log_level = LevelDebug | LevelInfo | LevelWarn | LevelError

definition parseLogLevel :: "string \<Rightarrow> log_level" where
  "parseLogLevel level =
     (if level = ''debug'' then LevelDebug
      else if level = ''info'' then LevelInfo
      else if level = ''warn'' then LevelWarn
      else if level = ''error'' then LevelError
      else LevelInfo)"

datatype codec_choice = UseOpus | UsePassthrough

definition selectCodec :: "string \<Rightarrow> codec_choice" where
  "selectCodec mode = (if mode = ''opus'' then UseOpus else UsePassthrough)"

definition mainServiceConfig :: service_config where
  "mainServiceConfig = \<lparr>GracePeriod = 30 * second, RoomTTL = 600 * second, SweepInterval = 60 * second,
     MaxShortCodeRetries = 5\<rparr>"

definition mainHttpConfig :: "app_config \<Rightarrow> server_config" where
  "mainHttpConfig cfg = DefaultConfig\<lparr>sc_Addr := CHR '':'' # ac_Port cfg,
     sc_TurnConfigured := ac_TurnURLs cfg \<noteq> [], sc_APIKeyPresent := ac_OpenAIAPIKey cfg \<noteq> [],
     sc_CodecMode := ac_CodecMode cfg\<rparr>"

text \<open>
  \<open>run\<close> up to the call of \<open>ListenAndServe\<close>: the exit code 1, or the server and the hub it listens with.  \<open>x\<close>
  is the initial state of the Pion library.
\<close>

definition wire_up :: "(string \<Rightarrow> string) \<Rightarrow> 'x \<Rightarrow> int + (mem_repo, 'x pion_peer) server \<times> hub \<times> codec_choice" where
  "wire_up getenv x =
     (case loadConfig getenv of
        Inl err \<Rightarrow> Inl 1
      | Inr appCfg \<Rightarrow>
          (let iceConfig = BuildICEConfig (ac_TurnURLs appCfg) (ac_TurnUsername appCfg) (ac_TurnPassword appCfg);
               peer = NewPionPeer iceConfig x;
               roomLimiter = NewRateLimiter (ac_RateLimitRooms appCfg) (3600 * second);
               wsLimiter = NewRateLimiter (ac_RateLimitWS appCfg) (3600 * second)
           in case NewService mainServiceConfig (Some NewInMemoryRoomRepository) (Some peer) True True True of
                Inl err \<Rightarrow> Inl 1
              | Inr svc \<Rightarrow>
                  Inr (NewServer (mainHttpConfig appCfg) svc True (Some roomLimiter) (Some wsLimiter), NewHub,
                       selectCodec (ac_CodecMode appCfg))))"

text \<open>The \<open>OnICEFailed\<close> hook.\<close>

definition onICEFailed :: "string \<Rightarrow> hub \<Rightarrow> hub" where
  "onICEFailed sessionID h =
     hub_NotifySession sessionID ''error''
       [(''code'', ''ice-failed''), (''message'', ''ICE connection failed''), (''session_id'', sessionID)] h"

subsection \<open>The running server\<close>

text \<open>
  What the server can reach: requests, each with the clock and the random values it sees, interleaved
  with the other calls of the service (signaling, timers, sweeps, pipelines) and the cleanup of the
  limiters.
\<close>

inductive server_reach ::
  "(string \<Rightarrow> string) \<Rightarrow> (mem_repo \<Rightarrow> string list) \<Rightarrow> 'x pion_api \<Rightarrow> (mem_repo, 'x pion_peer) server \<Rightarrow> bool"
  for getenv ord L where
  listening: "wire_up getenv x = Inr (s, h, c) \<Longrightarrow> server_reach getenv ord L s"
| request: "server_reach getenv ord L s \<Longrightarrow> env_ok E \<Longrightarrow> fresh_uuid (sr_manager s) (ev_uuid E)
    \<Longrightarrow> server_reach getenv ord L (snd (handle (mem_repository ord) (pion_webrtc_peer L) E rq r s))"
| background: "server_reach getenv ord L s \<Longrightarrow> env_ok E \<Longrightarrow> fresh_uuid (sr_manager s) (ev_uuid E)
    \<Longrightarrow> server_reach getenv ord L
      (s\<lparr>sr_manager := perform (mem_repository ord) (pion_webrtc_peer L) E k (sr_manager s)\<rparr>)"
| room_cleanup: "server_reach getenv ord L s
    \<Longrightarrow> server_reach getenv ord L (s\<lparr>sr_roomLimiter := map_option (Cleanup t) (sr_roomLimiter s)\<rparr>)"
| ws_cleanup: "server_reach getenv ord L s
    \<Longrightarrow> server_reach getenv ord L (s\<lparr>sr_wsLimiter := map_option (Cleanup t) (sr_wsLimiter s)\<rparr>)"

lemma handle_manager:
  "sr_manager (snd (handle R P E rq r s)) =
     (case r of
        DeleteRoomByID i \<Rightarrow> snd (DeleteRoom R P E i (sr_manager s))
      | PostRooms (Some (src, tgt)) \<Rightarrow>
          if fst (limited rq (ev_now E) (sr_roomLimiter s)) = PassOn then snd (CreateRoom R E src tgt (sr_manager s))
          else sr_manager s
      | _ \<Rightarrow> sr_manager s)"
  by (cases r)
    (auto simp: deleteRoomHandler_def createRoomHandler_def split: prod.split option.split gate.split sum.split)

lemma handle_hub: "sr_hub (snd (handle R P E rq r s)) = sr_hub s"
  by (cases r) (auto split: prod.split option.split gate.split)

lemma server_reach_service:
  "server_reach getenv ord L s \<Longrightarrow> service_reach ord (pion_webrtc_peer L) (sr_manager s) \<and> sr_hub s"
proof (induction rule: server_reach.induct)
  case (listening x s h c)
  then obtain cfg peer where
    "NewService mainServiceConfig (Some NewInMemoryRoomRepository) (Some peer) True True True = Inr (sr_manager s)"
    "sr_hub s"
    by (auto simp: wire_up_def Let_def NewServer_def split: sum.splits)
  then show ?case by (blast intro: service_reach.boot)
next
  case (request s E rq r)
  let ?P = "pion_webrtc_peer L" and ?R = "mem_repository ord"
  have step: "service_reach ord ?P (perform ?R ?P E k (sr_manager s))" for k
    using request by (blast intro: service_reach.call)
  have "service_reach ord ?P (snd (DeleteRoom ?R ?P E i (sr_manager s)))" for i using step [of "CallDelete i"] by simp
  moreover have "service_reach ord ?P (snd (CreateRoom ?R E a b (sr_manager s)))" for a b
    using step [of "CallCreate a b"] by simp
  ultimately show ?case
    using request by (auto simp: handle_manager handle_hub split: route.split option.split)
qed (auto intro: service_reach.call)

definition example_getenv :: "string \<Rightarrow> string" where
  "example_getenv v = (if v = ''OPENAI_API_KEY'' then ''key'' else if v = ''RATE_LIMIT_WS'' then ''many'' else [])"

lemma example_starts: "\<exists>s h. wire_up example_getenv () = Inr (s, h, UseOpus)"
  by (simp add: wire_up_def loadConfig_def example_getenv_def NewService_def selectCodec_def)

text \<open>
  C31: the running server leaks no peer connection: after any requests, signaling, timers, sweeps and
  pipelines, every connection the Pion adapter holds belongs to a session that is still registered.
\<close>

theorem server_leaks_no_connection:
  assumes "server_reach getenv ord L s"
  shows "dom (pp_peers (sv_peer (sr_manager s))) \<subseteq> dom (sv_sessions (sr_manager s))"
  using assms
proof (induction rule: server_reach.induct)
  case (listening x s h c)
  then show ?case
    by (auto simp: wire_up_def Let_def NewServer_def NewService_def NewPionPeer_def split: sum.splits if_splits)
next
  case (request s E rq r)
  note step = pion.perform_covers [OF request.IH, of "mem_repository ord" L E]
  show ?case using request.IH step [of "CallDelete _"] step [of "CallCreate _ _"]
    by (auto simp: handle_manager split: route.split option.split)
next
  case (background s E k)
  then show ?case using pion.perform_covers [OF background.IH] by simp
qed simp_all

theorem server_leaks_no_connection_witness:
  "\<exists>s. server_reach example_getenv sorted_keys quiet_pion s
    \<and> dom (pp_peers (sv_peer (sr_manager s))) \<subseteq> dom (sv_sessions (sr_manager s))"
proof -
  obtain s h where "wire_up example_getenv () = Inr (s, h, UseOpus)" using example_starts by blast
  then have "server_reach example_getenv sorted_keys quiet_pion s" by (rule server_reach.listening)
  from this server_leaks_no_connection [OF this] show ?thesis by blast
qed

subsection \<open>What the running server answers\<close>

fun answers :: "route \<Rightarrow> nat set" where
  "answers GetHealth = {200}"
| "answers (DeleteRoomByID i) = {204, 404}"
| "answers (GetRoomByCode c) = {200, 400, 404}"
| "answers (PostFeedback b) = {200, 400}"
| "answers (PostRooms b) = {201, 400, 429, 500}"
| "answers (GetWS i) = {101, 400, 404, 429}"

lemma delete_status:
  assumes "service_reach ord P w" and "env_ok E"
  shows "status (fst (deleteRoomHandler (mem_repository ord) P E i w)) = (if sv_repo w i = None then 404 else 204)"
proof (cases "sv_repo w i")
  case None
  then show ?thesis by (simp add: deleteRoomHandler_def DeleteRoom_def mem_FindByID_def)
next
  case (Some p)
  obtain x w' where D: "DeleteRoom (mem_repository ord) P E i w = (x, w')" by fastforce
  from delete_mem [OF service_reach_consistent [OF assms(1)] assms(2) Some D] D Some show ?thesis
    by (simp add: deleteRoomHandler_def)
qed

lemma code_status: "status (getRoomByShortCodeHandler (mem_repository ord) c w) \<in> {200, 400, 404}"
  by (auto simp: getRoomByShortCodeHandler_def svc_FindByShortCode_def mem_FindByShortCode_def Let_def
      split: sum.split option.split)

lemma ws_status: "status (wsHandler (mem_repository ord) True i w) \<in> {101, 400, 404}"
  by (simp add: wsHandler_def RoomExists_def mem_FindByID_def split: option.split)

lemma create_status:
  assumes "rd_err (ev_rand E) = Foreign m"
  shows "status (fst (createRoomHandler (mem_repository ord) E b w)) \<in> {201, 400, 500}"
  using CreateRoom_error [OF _ assms, of ord _ _ w]
  by (auto simp: createRoomHandler_def isLanguageError_def split: option.split prod.split sum.split)

lemma rateLimited_status [simp]: "status (rateLimitedAnswer n) = 429"
  by (simp add: rateLimitedAnswer_def)

text \<open>
  C13: a server started by \<open>run\<close> answers, after any requests, signaling, timers, sweeps and cleanups, only
  with the statuses of its routes: never with a server error except when a room could not get a
  code, and never with 409 or 410, for which the handlers have branches.
\<close>

theorem server_answers:
  assumes "server_reach getenv ord L s" and "env_ok E" and "rd_err (ev_rand E) = Foreign m"
  shows "status (fst (handle (mem_repository ord) (pion_webrtc_peer L) E rq r s)) \<in> answers r"
proof -
  note sr = server_reach_service [OF assms(1)]
  show ?thesis
  proof (cases r)
    case (DeleteRoomByID i)
    show ?thesis using delete_status [OF sr [THEN conjunct1] assms(2), of i] DeleteRoomByID
      by (auto split: prod.splits if_splits)
  next
    case (GetRoomByCode c)
    then show ?thesis using code_status [of ord c] by simp
  next
    case (PostFeedback b)
    then show ?thesis by (simp add: feedbackHandler_def Let_def split: option.split)
  next
    case (PostRooms b)
    then show ?thesis using create_status [OF assms(3), of ord b "sr_manager s"]
      by (auto split: prod.splits gate.split)
  next
    case (GetWS i)
    then show ?thesis using ws_status [of ord i] sr by (auto split: prod.splits gate.split)
  qed (simp add: healthHandler_def)
qed

theorem server_answers_witness:
  "\<exists>s. server_reach example_getenv sorted_keys quiet_pion s
    \<and> status (fst (handle (mem_repository sorted_keys) (pion_webrtc_peer quiet_pion) (example_env 0 ''r'')
         \<lparr>rq_header = (\<lambda>_. []), rq_remote = ''1.2.3.4:5''\<rparr> (DeleteRoomByID ''r'') s)) \<in> {204, 404}"
proof -
  obtain s h where "wire_up example_getenv () = Inr (s, h, UseOpus)" using example_starts by blast
  then have r: "server_reach example_getenv sorted_keys quiet_pion s" by (rule server_reach.listening)
  have "rd_err (ev_rand (example_env 0 ''r'')) = Foreign ''EOF''" by (simp add: example_env_def zero_reader_def)
  from server_answers [OF r example_env_ok this, of "\<lparr>rq_header = (\<lambda>_. []), rq_remote = ''1.2.3.4:5''\<rparr>" "DeleteRoomByID ''r''"]
  show ?thesis using r by auto
qed

text \<open>
  The program starts exactly when there is an API key and the codec mode is empty or one of the two;
  otherwise its exit code is 1.  It starts with the codec the mode names, a fresh hub and the limits of the environment,
  by default 10 rooms and 20 connections per client and hour.
\<close>

theorem start_up:
  "(wire_up getenv x \<noteq> Inl 1 \<longleftrightarrow>
      getenv ''OPENAI_API_KEY'' \<noteq> [] \<and> getenv ''CODEC_MODE'' \<in> {[], ''opus'', ''passthrough''})
   \<and> (case wire_up getenv x of
        Inl code \<Rightarrow> code = 1
      | Inr (s, h, c) \<Rightarrow> h = NewHub \<and> (c = UsePassthrough \<longleftrightarrow> getenv ''CODEC_MODE'' = ''passthrough'')
          \<and> sr_roomLimiter s = Some (NewRateLimiter (limitFrom 10 (getenv ''RATE_LIMIT_ROOMS'')) (3600 * second))
          \<and> sr_wsLimiter s = Some (NewRateLimiter (limitFrom 20 (getenv ''RATE_LIMIT_WS'')) (3600 * second)))"
  by (auto simp: wire_up_def loadConfig_def Let_def NewService_def NewServer_def selectCodec_def)

lemma limitFrom_Itoa: "- (2 ^ 63) \<le> n \<Longrightarrow> n < 2 ^ 63 \<Longrightarrow> limitFrom dflt (Itoa n) = n"
proof -
  have "Itoa n \<noteq> []" using digits_head [of "nat n"] by (auto simp: Itoa_def)
  then show "- (2 ^ 63) \<le> n \<Longrightarrow> n < 2 ^ 63 \<Longrightarrow> limitFrom dflt (Itoa n) = n" by (simp add: limitFrom_def Atoi_Itoa)
qed

subsection \<open>Serving and shutting down\<close>

text \<open>
  \<open>http.Server.Shutdown\<close> looks again and again whether all connections have become idle, and returns the
  context's error when it finds the context done first.  A poll is what it sees of both; the list ends
  where it is still waiting.
\<close>

record poll =
  all_idle :: bool
  ctx_done :: bool

fun http_Shutdown :: "poll list \<Rightarrow> gerror option option" where
  "http_Shutdown [] = None"
| "http_Shutdown (p # ps) =
     (if all_idle p then Some None
      else if ctx_done p then Some (Some (Foreign ''context canceled'')) else http_Shutdown ps)"

text \<open>
  \<open>ListenAndServe\<close> waits for a signal whatever becomes of the listening goroutine, whose error
  \<open>serveErr\<close> is only logged; \<open>run\<close> turns the result into the exit code.
\<close>

definition ListenAndServe :: "gerror option \<Rightarrow> bool \<Rightarrow> poll list \<Rightarrow> gerror option option" where
  "ListenAndServe serveErr signalled polls = (if signalled then http_Shutdown polls else None)"

definition runExit :: "gerror option \<Rightarrow> bool \<Rightarrow> poll list \<Rightarrow> int option" where
  "runExit serveErr signalled polls =
     map_option (\<lambda>r. case r of None \<Rightarrow> 0 | Some err \<Rightarrow> 1) (ListenAndServe serveErr signalled polls)"

lemma ex_le_Suc_shift: "(\<exists>i\<le>Suc m. Q i) \<longleftrightarrow> Q 0 \<or> (\<exists>i\<le>m. Q (Suc i))"
proof
  assume "\<exists>i\<le>Suc m. Q i"
  then obtain i where "i \<le> Suc m" "Q i" by blast
  then show "Q 0 \<or> (\<exists>i\<le>m. Q (Suc i))" by (cases i) auto
qed auto

lemma http_Shutdown_decided:
  "n < length polls \<Longrightarrow> ctx_done (polls ! n) \<Longrightarrow> \<forall>i<n. \<not> ctx_done (polls ! i) \<Longrightarrow>
    http_Shutdown polls = Some (if \<exists>i\<le>n. all_idle (polls ! i) then None else Some (Foreign ''context canceled''))"
proof (induction polls arbitrary: n)
  case (Cons p ps)
  show ?case
  proof (cases n)
    case 0
    then show ?thesis using Cons.prems by simp
  next
    case (Suc m)
    have p: "\<not> ctx_done p" using Cons.prems(3) Suc by auto
    have ih: "http_Shutdown ps = Some (if \<exists>i\<le>m. all_idle (ps ! i) then None else Some (Foreign ''context canceled''))"
      using Cons.prems Suc by (intro Cons.IH) auto
    have "(\<exists>i\<le>n. all_idle ((p # ps) ! i)) \<longleftrightarrow> all_idle p \<or> (\<exists>i\<le>m. all_idle (ps ! i))"
      unfolding Suc ex_le_Suc_shift by simp
    then show ?thesis using p ih by simp
  qed
qed simp

text \<open>
  The program leaves its server only by a signal, also when the server could not listen at all.  After
  it the exit code is decided when the context is done, at poll \<open>n\<close>: it is 0 if the connections have
  become idle by then and 1 otherwise.  As \<open>run\<close> cancels that very context on the same signal, \<open>n\<close> is
  the first poll or so, and the shutdown timeout plays no part.
\<close>

theorem shutdown_is_decided_by_the_context:
  assumes "n < length polls" and "ctx_done (polls ! n)" and "\<forall>i<n. \<not> ctx_done (polls ! i)"
  shows "runExit serveErr True polls = Some (if \<exists>i\<le>n. all_idle (polls ! i) then 0 else 1)
    \<and> runExit serveErr False polls = None"
  by (simp add: runExit_def ListenAndServe_def http_Shutdown_decided [OF assms])

theorem shutdown_is_decided_by_the_context_witness:
  "runExit None True [\<lparr>all_idle = False, ctx_done = True\<rparr>, \<lparr>all_idle = True, ctx_done = True\<rparr>] = Some 1"
  using shutdown_is_decided_by_the_context [of 0 "[\<lparr>all_idle = False, ctx_done = True\<rparr>, \<lparr>all_idle = True, ctx_done = True\<rparr>]" None]
  by simp

end
