(* ===== verification/Base64.thy ===== *)
theory Base64
  imports Prelude
begin

section \<open>Standard base64\<close>

text \<open>
  \<open>encoding/base64\<close>'s \<open>StdEncoding\<close>, in which the adapters send and receive audio: three bytes are
  four characters, the last group is padded.  The decoder skips line ends and wants every group
  complete; \<open>None\<close> is its error.
\<close>

definition b64_alphabet :: string where
  "b64_alphabet = ''ABCDEFGHIJKLMNOPQRSTUVWXYZabcdefghijklmnopqrstuvwxyz0123456789'' @ ''+/''"

definition b64_char :: "nat \<Rightarrow> char" where
  "b64_char n = b64_alphabet ! n"

definition b64_index :: "char \<Rightarrow> nat option" where
  "b64_index c = List.find (\<lambda>n. b64_char n = c) [0..<64]"

definition sextets :: "nat \<Rightarrow> nat list" where
  "sextets n = [n div 262144, n div 4096 mod 64, n div 64 mod 64, n mod 64]"

definition octets :: "nat \<Rightarrow> 8 word list" where
  "octets n = [of_nat (n div 65536), of_nat (n div 256), of_nat n]"

definition group_of :: "8 word \<Rightarrow> 8 word \<Rightarrow> 8 word \<Rightarrow> nat" where
  "group_of a b c = 65536 * unat a + 256 * unat b + unat c"

fun EncodeToString :: "8 word list \<Rightarrow> string" where
  "EncodeToString [] = []"
| "EncodeToString [a] = map b64_char (take 2 (sextets (group_of a 0 0))) @ ''==''"
| "EncodeToString [a, b] = map b64_char (take 3 (sextets (group_of a b 0))) @ ''=''"
| "EncodeToString (a # b # c # bs) = map b64_char (sextets (group_of a b c)) @ EncodeToString bs"

text \<open>The value of a group of four characters; the padding counts as zeros.\<close>

definition group_value :: "char \<Rightarrow> char \<Rightarrow> char \<Rightarrow> char \<Rightarrow> nat option" where
  "group_value p q r s =
     (case (b64_index p, b64_index q, b64_index r, b64_index s) of
        (Some i, Some j, Some k, Some l) \<Rightarrow> Some (((64 * i + j) * 64 + k) * 64 + l)
      | _ \<Rightarrow> None)"

fun decode_groups :: "string \<Rightarrow> 8 word list option" where
  "decode_groups [] = Some []"
| "decode_groups (p # q # r # s # cs) =
     (if cs = [] \<and> r = CHR ''='' \<and> s = CHR ''='' then
        (case group_value p q CHR ''A'' CHR ''A'' of None \<Rightarrow> None | Some n \<Rightarrow> Some (take 1 (octets n)))
      else if cs = [] \<and> s = CHR ''='' then
        (case group_value p q r CHR ''A'' of None \<Rightarrow> None | Some n \<Rightarrow> Some (take 2 (octets n)))
      else
        (case group_value p q r s of None \<Rightarrow> None
         | Some n \<Rightarrow> (case decode_groups cs of None \<Rightarrow> None | Some bs \<Rightarrow> Some (octets n @ bs))))"
| "decode_groups _ = None"

definition DecodeString :: "string \<Rightarrow> 8 word list option" where
  "DecodeString s = decode_groups (filter (\<lambda>c. c \<noteq> CHR 0x0A \<and> c \<noteq> CHR 0x0D) s)"

subsection \<open>The round trip\<close>

lemma b64_index_char: "n < 64 \<Longrightarrow> b64_index (b64_char n) = Some n"
proof -
  have "list_all (\<lambda>n. b64_index (b64_char n) = Some n) [0..<64]" by code_simp
  then show "n < 64 \<Longrightarrow> ?thesis" by (simp add: list_all_iff)
qed

lemma b64_char_text: "n < 64 \<Longrightarrow> b64_char n \<notin> {CHR ''='', CHR 0x0A, CHR 0x0D}"
proof -
  have "list_all (\<lambda>n. b64_char n \<noteq> CHR ''='' \<and> b64_char n \<noteq> CHR 0x0A \<and> b64_char n \<noteq> CHR 0x0D) [0..<64]" by code_simp
  then show "n < 64 \<Longrightarrow> ?thesis" by (simp add: list_all_iff)
qed

lemma b64_char_A: "CHR ''A'' = b64_char 0"
  by (simp add: b64_char_def b64_alphabet_def)

lemma unat_byte: "unat (a :: 8 word) < 256"
  using unsigned_less [of a] by simp

lemma group_less: "group_of a b c < 16777216"
  using unat_byte [of a] unat_byte [of b] unat_byte [of c] by (simp add: group_of_def)

lemma sextets_less: "(n :: nat) < 16777216 \<Longrightarrow> n div 262144 < 64"
  by (rule less_mult_imp_div_less) simp

lemma sextets_value:
  "((64 * (n div 262144) + n div 4096 mod 64) * 64 + n div 64 mod 64) * 64 + n mod 64 = (n :: nat)"
proof -
  have "n div 64 div 64 div 64 = n div 262144" "n div 64 div 64 = n div 4096" by (simp_all add: div_mult2_eq [symmetric])
  then show ?thesis
    using mult_div_mod_eq [of 64 n] mult_div_mod_eq [of 64 "n div 64"] mult_div_mod_eq [of 64 "n div 64 div 64"]
    by (simp add: algebra_simps)
qed

lemma octets_group: "octets (group_of a b c) = [a, b, c]"
proof -
  have 1: "group_of a b c div 65536 = unat a" and 2: "group_of a b c div 256 = 256 * unat a + unat b"
    using unat_byte [of a] unat_byte [of b] unat_byte [of c] by (simp_all add: group_of_def)
  have 256: "(256 :: 8 word) = 0" "(65536 :: 8 word) = 0" by simp_all
  show ?thesis unfolding octets_def 1 2 by (simp add: group_of_def 256)
qed

lemma group_value_sextets:
  assumes "n < 16777216" and "sextets n = [i, j, k, l]"
  shows "group_value (b64_char i) (b64_char j) (b64_char k) (b64_char l) = Some n"
  using assms sextets_less [OF assms(1)] sextets_value [of n]
  by (auto simp: sextets_def group_value_def b64_index_char)

lemma sextets_range: "n < 16777216 \<Longrightarrow> sextets n = [i, j, k, l] \<Longrightarrow> i < 64 \<and> j < 64 \<and> k < 64 \<and> l < 64"
  using sextets_less [of n] by (auto simp: sextets_def)

lemma low_sextets: "sextets (group_of a 0 0) ! 2 = 0" "sextets (group_of a 0 0) ! 3 = 0" "sextets (group_of a b 0) ! 3 = 0"
proof -
  have 1: "group_of a 0 0 = 64 * (64 * (16 * unat a))" "group_of a b 0 = 64 * (1024 * unat a + 4 * unat b)"
    by (simp_all add: group_of_def)
  show "sextets (group_of a 0 0) ! 2 = 0" "sextets (group_of a 0 0) ! 3 = 0" "sextets (group_of a b 0) ! 3 = 0"
    unfolding sextets_def 1 by simp_all
qed

lemma decode_encode_groups: "decode_groups (EncodeToString bs) = Some bs"
proof (induction bs rule: EncodeToString.induct)
  case (2 a)
  obtain i j where s: "sextets (group_of a 0 0) = [i, j, 0, 0]"
    using low_sextets(1,2) [of a] by (simp add: sextets_def numeral_2_eq_2 numeral_3_eq_3)
  show ?case
    using group_value_sextets [OF group_less s] octets_group [of a 0 0] s by (simp add: b64_char_A)
next
  case (3 a b)
  obtain i j k where s: "sextets (group_of a b 0) = [i, j, k, 0]"
    using low_sextets(3) [of a b] by (simp add: sextets_def numeral_2_eq_2 numeral_3_eq_3)
  show ?case
    using group_value_sextets [OF group_less s] sextets_range [OF group_less s] octets_group [of a b 0] s b64_char_text [of k]
    by (simp add: b64_char_A)
next
  case (4 a b c bs)
  obtain i j k l where s: "sextets (group_of a b c) = [i, j, k, l]" by (simp add: sextets_def)
  show ?case
    using group_value_sextets [OF group_less s] sextets_range [OF group_less s] octets_group [of a b c] s b64_char_text [of l] 4
    by simp
qed simp

lemma EncodeToString_text: "list_all (\<lambda>c. c \<noteq> CHR 0x0A \<and> c \<noteq> CHR 0x0D) (EncodeToString bs)"
proof -
  have g: "list_all (\<lambda>c. c \<noteq> CHR 0x0A \<and> c \<noteq> CHR 0x0D) (map b64_char (sextets (group_of a b c)))" for a b c
  proof -
    obtain i j k l where s: "sextets (group_of a b c) = [i, j, k, l]" by (simp add: sextets_def)
    show ?thesis using sextets_range [OF group_less s] b64_char_text s by simp
  qed
  have t: "list_all P xs \<Longrightarrow> list_all P (take n xs)" for P :: "char \<Rightarrow> bool" and xs n
    by (auto simp: list_all_iff dest: in_set_takeD)
  show ?thesis
    using g t [OF g] by (induction bs rule: EncodeToString.induct) (simp_all add: take_map)
qed

lemma Decode_Encode: "DecodeString (EncodeToString bs) = Some bs"
proof -
  have "filter (\<lambda>c. c \<noteq> CHR 0x0A \<and> c \<noteq> CHR 0x0D) (EncodeToString bs) = EncodeToString bs"
    using EncodeToString_text [of bs] by (simp add: filter_id_conv list_all_iff)
  then show ?thesis by (simp add: DecodeString_def decode_encode_groups)
qed

end
