(* ===== verification/Realtime.thy ===== *)
theory Realtime
  imports Go_Text Base64
begin

section \<open>Speech to speech: adapters/translator/openai\_realtime.go\<close>

text \<open>
  \<open>OpenAIRealtimeTranslator\<close>: one WebSocket, a sender that appends audio and forces a commit every five
  seconds and at the end, a receiver that collects audio and transcripts, and between them the flag
  \<open>responseActive\<close>.  A run is the sequence of what the two goroutines do, in the order they do it; a
  commit (the test of the flag and the two writes it allows) is one step, since what the receiver
  does in the middle of it has no effect on it.
\<close>

record realtime_config =
  rc_APIKey :: string
  rc_Model :: string
  rc_BaseURL :: string

definition realtime_applyDefaults :: "realtime_config \<Rightarrow> realtime_config" where
  "realtime_applyDefaults c =
     (let c1 = (if rc_Model c = [] then c\<lparr>rc_Model := ''gpt-realtime''\<rparr> else c)
      in if rc_BaseURL c1 = [] then c1\<lparr>rc_BaseURL := ''wss://api.openai.com/v1/realtime''\<rparr> else c1)"

definition NewOpenAIRealtimeTranslator :: "realtime_config \<Rightarrow> realtime_config" where
  "NewOpenAIRealtimeTranslator cfg = realtime_applyDefaults cfg"

text \<open>The instructions of the session; the dash of the first rule is U+2014 in UTF-8.\<close>

definition realtimeInstructions :: "string \<Rightarrow> string \<Rightarrow> string" where
  "realtimeInstructions sourceLang targetLang =
     ''You are a simultaneous interpreter. INPUT language: '' @ sourceLang @ ''. OUTPUT language: '' @ targetLang @ ''. '' @
     ''RULES: (1) Translate ONLY what you hear '' @ [CHR 0xE2, CHR 0x80, CHR 0x94] @
     '' word for word, meaning for meaning. '' @
     ''(2) Output ONLY in '' @ targetLang @ ''. NEVER speak '' @ sourceLang @
     ''. NEVER add greetings, comments, or acknowledgements. '' @
     ''(3) If you hear silence or noise with no speech, output nothing. '' @
     ''(4) Do NOT act as an assistant. Do NOT answer questions. ONLY translate.''"

datatype rt_out = SessionUpdate string string | Append string | Commit | ResponseCreate | CloseFrame

record 'x rt_socket =
  rt_Dial :: "string \<Rightarrow> string \<Rightarrow> 'x \<Rightarrow> gerror option \<times> 'x"
  rt_WriteJSON :: "rt_out \<Rightarrow> 'x \<Rightarrow> gerror option \<times> 'x"
  rt_CloseConn :: "'x \<Rightarrow> 'x"

text \<open>\<open>TranslateStream\<close> up to the start of its goroutines.\<close>

definition rt_TranslateStream ::
  "'x rt_socket \<Rightarrow> realtime_config \<Rightarrow> string \<Rightarrow> string \<Rightarrow> 'x \<Rightarrow> gerror option \<times> 'x" where
  "rt_TranslateStream W cfg sourceLang targetLang x =
     (let url = rc_BaseURL cfg @ ''?model='' @ rc_Model cfg in
      case rt_Dial W url (''Bearer '' @ rc_APIKey cfg) x of
        (Some err, x1) \<Rightarrow> (Some (Wrapped (''openai realtime: dial '' @ url) err), x1)
      | (None, x1) \<Rightarrow>
          (case rt_WriteJSON W (SessionUpdate ''realtime'' (realtimeInstructions sourceLang targetLang)) x1 of
             (Some err, x2) \<Rightarrow> (Some (Wrapped ''openai realtime: send session.update'' err), rt_CloseConn W x2)
           | (None, x2) \<Rightarrow> (None, x2)))"

subsection \<open>The two goroutines\<close>

record realtime =
  rt_pendingFrames :: nat
  rt_responseActive :: bool
  rt_written :: "rt_out list"
  rt_senderDone :: bool
  rt_transcriptBuf :: string
  rt_audio :: "8 word list list"
  rt_transcripts :: "string list"
  rt_receiverDone :: bool

definition rt_start :: realtime where
  "rt_start = \<lparr>rt_pendingFrames = 0, rt_responseActive = False, rt_written = [], rt_senderDone = False,
     rt_transcriptBuf = [], rt_audio = [], rt_transcripts = [], rt_receiverDone = False\<rparr>"

definition rt_commit :: "realtime \<Rightarrow> realtime" where
  "rt_commit s =
     (if rt_pendingFrames s = 0 \<or> rt_responseActive s then s
      else s\<lparr>rt_pendingFrames := 0, rt_written := rt_written s @ [Commit, ResponseCreate]\<rparr>)"

text \<open>The deferred end of the sender.\<close>

definition rt_senderEnds :: "realtime \<Rightarrow> realtime" where
  "rt_senderEnds s = s\<lparr>rt_senderDone := True, rt_written := rt_written s @ [CloseFrame]\<rparr>"

datatype rt_sender_event =
    SenderCtxDone
  | CommitTick
  | AudioFrame "8 word list" bool
  | AudioInClosed

text \<open>The flag of \<open>AudioFrame\<close> tells whether the write succeeds.\<close>

fun rt_sender :: "rt_sender_event \<Rightarrow> realtime \<Rightarrow> realtime" where
  "rt_sender SenderCtxDone s = rt_senderEnds s"
| "rt_sender CommitTick s = rt_commit s"
| "rt_sender AudioInClosed s = rt_senderEnds (rt_commit s)"
| "rt_sender (AudioFrame frame ok) s =
     (let s1 = s\<lparr>rt_pendingFrames := rt_pendingFrames s + 1\<rparr>
      in if ok then s1\<lparr>rt_written := rt_written s1 @ [Append (EncodeToString frame)]\<rparr> else rt_senderEnds s1)"

record content_part =
  cp_Audio :: string
  cp_Transcript :: string
  cp_Text :: string

text \<open>
  A received message: the fields the receiver reads, with the part and the error code decoded; a part
  is absent, or does not parse, or is there.
\<close>

datatype part = NoPart | BadPart | Part content_part

record rt_message =
  rm_Type :: string
  rm_Delta :: string
  rm_Part :: part
  rm_ErrorCode :: string

text \<open>
  What the receiver meets in a round: the context is done, the read fails, or a message, with whether
  a blocking send of audio succeeds (it fails only by the context) and whether the transcript
  channel has room.
\<close>

datatype rt_receiver_event = ReceiverCtxDone | ReadFails | Message rt_message bool bool

definition sendTranscript :: "bool \<Rightarrow> string \<Rightarrow> realtime \<Rightarrow> realtime" where
  "sendTranscript room t s = (if room then s\<lparr>rt_transcripts := rt_transcripts s @ [t]\<rparr> else s)"

definition rt_nonfatal :: "string \<Rightarrow> bool" where
  "rt_nonfatal code \<longleftrightarrow> code = ''unknown_parameter'' \<or> code = ''invalid_value''
     \<or> code = ''input_audio_buffer_commit_empty'' \<or> code = ''conversation_already_has_active_response''"

definition contentPartDone :: "content_part \<Rightarrow> bool \<Rightarrow> bool \<Rightarrow> realtime \<Rightarrow> realtime" where
  "contentPartDone p sent room s =
     (let txt = (if cp_Transcript p = [] then cp_Text p else cp_Transcript p);
          say = (\<lambda>s. if txt \<noteq> [] then sendTranscript room txt s else s)
      in if cp_Audio p = [] then say s
         else case DecodeString (cp_Audio p) of
           None \<Rightarrow> say s
         | Some decoded \<Rightarrow>
             if decoded = [] then say s
             else if sent then say (s\<lparr>rt_audio := rt_audio s @ [decoded]\<rparr>)
             else s\<lparr>rt_receiverDone := True\<rparr>)"

fun rt_receiver :: "rt_receiver_event \<Rightarrow> realtime \<Rightarrow> realtime" where
  "rt_receiver ReceiverCtxDone s = s\<lparr>rt_receiverDone := True\<rparr>"
| "rt_receiver ReadFails s = s\<lparr>rt_receiverDone := True\<rparr>"
| "rt_receiver (Message m sent room) s =
     (if rm_Type m = ''response.output_audio.delta'' then
        (if rm_Delta m = [] then s
         else case DecodeString (rm_Delta m) of
           None \<Rightarrow> s
         | Some decoded \<Rightarrow>
             if sent then s\<lparr>rt_audio := rt_audio s @ [decoded]\<rparr> else s\<lparr>rt_receiverDone := True\<rparr>)
      else if rm_Type m = ''response.output_audio_transcript.delta'' then
        s\<lparr>rt_transcriptBuf := rt_transcriptBuf s @ rm_Delta m\<rparr>
      else if rm_Type m = ''response.output_audio_transcript.done'' then
        (if rt_transcriptBuf s \<noteq> []
         then (sendTranscript room (rt_transcriptBuf s) s)\<lparr>rt_transcriptBuf := []\<rparr> else s)
      else if rm_Type m = ''response.content_part.done'' then
        (case rm_Part m of Part p \<Rightarrow> contentPartDone p sent room s | _ \<Rightarrow> s)
      else if rm_Type m = ''error'' then
        (if rt_nonfatal (rm_ErrorCode m) then s else s\<lparr>rt_receiverDone := True\<rparr>)
      else if rm_Type m = ''response.created'' then s\<lparr>rt_responseActive := True\<rparr>
      else if rm_Type m = ''response.done'' then s\<lparr>rt_responseActive := False\<rparr>
      else s)"

datatype rt_event = Sender rt_sender_event | Receiver rt_receiver_event

definition rt_step :: "rt_event \<Rightarrow> realtime \<Rightarrow> realtime" where
  "rt_step e s =
     (case e of
        Sender a \<Rightarrow> if rt_senderDone s then s else rt_sender a s
      | Receiver b \<Rightarrow> if rt_receiverDone s then s else rt_receiver b s)"

definition rt_run :: "rt_event list \<Rightarrow> realtime" where
  "rt_run es = fold rt_step es rt_start"

subsection \<open>What is written\<close>

text \<open>
  The state of the conversation as the messages written determine it: the number of frames appended
  since the last commit, or \<open>None\<close> when a commit had nothing to commit, was not followed by the
  request for a response, or something came after the close frame.
\<close>

datatype wire_state = Collecting nat | Committed | Ended

fun wire_step :: "rt_out \<Rightarrow> wire_state option \<Rightarrow> wire_state option" where
  "wire_step (Append a) (Some (Collecting n)) = Some (Collecting (n + 1))"
| "wire_step Commit (Some (Collecting n)) = (if n = 0 then None else Some Committed)"
| "wire_step ResponseCreate (Some Committed) = Some (Collecting 0)"
| "wire_step CloseFrame (Some (Collecting n)) = Some Ended"
| "wire_step _ _ = None"

definition wire :: "rt_out list \<Rightarrow> wire_state option" where
  "wire ms = fold wire_step ms (Some (Collecting 0))"

definition wire_ok :: "realtime \<Rightarrow> bool" where
  "wire_ok s \<longleftrightarrow> wire (rt_written s) = Some (if rt_senderDone s then Ended else Collecting (rt_pendingFrames s))"

lemma wire_snoc: "wire (ms @ [m]) = wire_step m (wire ms)" "wire [] = Some (Collecting 0)"
  by (simp_all add: wire_def)

lemma wire_commit: "wire_ok s \<Longrightarrow> \<not> rt_senderDone s \<Longrightarrow> wire_ok (rt_commit s)"
  using wire_snoc(1) [of "rt_written s @ [Commit]" ResponseCreate]
  by (auto simp: wire_ok_def rt_commit_def wire_snoc)

lemma commit_frame: "rt_senderDone (rt_commit s) = rt_senderDone s" "rt_receiverDone (rt_commit s) = rt_receiverDone s"
  "rt_responseActive (rt_commit s) = rt_responseActive s" "rt_audio (rt_commit s) = rt_audio s"
  "rt_transcripts (rt_commit s) = rt_transcripts s" "rt_transcriptBuf (rt_commit s) = rt_transcriptBuf s"
  by (simp_all add: rt_commit_def)

lemma wire_ends: "wire_ok s \<Longrightarrow> \<not> rt_senderDone s \<Longrightarrow> wire_ok (rt_senderEnds s)"
  by (simp add: wire_ok_def rt_senderEnds_def wire_snoc)

lemma receiver_frame: "rt_written (rt_receiver b s) = rt_written s" "rt_pendingFrames (rt_receiver b s) = rt_pendingFrames s"
  "rt_senderDone (rt_receiver b s) = rt_senderDone s"
  by (cases b; auto simp: contentPartDone_def sendTranscript_def Let_def split: option.split part.split)+

lemma wire_step_ok: "wire_ok s \<Longrightarrow> wire_ok (rt_step e s)"
proof (cases e)
  case (Sender a)
  then show "wire_ok s \<Longrightarrow> ?thesis"
    using wire_commit [of s] wire_ends [of s] wire_ends [of "rt_commit s"]
    by (cases a) (auto simp: rt_step_def Let_def commit_frame wire_ok_def wire_snoc rt_senderEnds_def)
next
  case (Receiver b)
  then show "wire_ok s \<Longrightarrow> ?thesis" by (simp add: rt_step_def wire_ok_def receiver_frame)
qed

lemma wire_run: "wire_ok (rt_run es)"
proof -
  have "wire_ok s \<Longrightarrow> wire_ok (fold rt_step es s)" for s
    by (induction es arbitrary: s) (simp_all add: wire_step_ok)
  moreover have "wire_ok rt_start" by (simp add: wire_ok_def rt_start_def wire_snoc)
  ultimately show ?thesis by (simp add: rt_run_def)
qed

subsection \<open>Properties of the realtime translator\<close>

text \<open>
  C34: however the goroutines interleave, what is written to the socket follows the protocol: a commit
  always has at least one appended frame to commit and is followed at once by the request for a
  response, nothing comes after the close frame, and the counter of the sender is the number of
  frames appended since the last commit.
\<close>

theorem commits_are_never_empty:
  "wire (rt_written (rt_run es)) =
     Some (if rt_senderDone (rt_run es) then Ended else Collecting (rt_pendingFrames (rt_run es)))"
  using wire_run [of es] by (simp add: wire_ok_def)

text \<open>
  When the audio ends, the frames since the last commit are committed only if no response is
  active; otherwise they are left behind.  Either way the close frame follows immediately, so the
  response asked for last is not waited for.
\<close>

theorem end_of_audio:
  assumes "\<not> rt_senderDone s"
  shows "rt_written (rt_step (Sender AudioInClosed) s) =
    rt_written s @ (if 0 < rt_pendingFrames s \<and> \<not> rt_responseActive s then [Commit, ResponseCreate, CloseFrame]
                    else [CloseFrame])
    \<and> rt_senderDone (rt_step (Sender AudioInClosed) s)"
  using assms by (auto simp: rt_step_def rt_senderEnds_def rt_commit_def)

theorem end_of_audio_witness:
  "rt_written (rt_step (Sender AudioInClosed) (rt_start\<lparr>rt_pendingFrames := 3, rt_responseActive := True\<rparr>)) = [CloseFrame]"
  by (subst end_of_audio) (simp_all add: rt_start_def)

lemma sender_frame: "rt_audio (rt_sender a s) = rt_audio s" "rt_transcripts (rt_sender a s) = rt_transcripts s"
  "rt_transcriptBuf (rt_sender a s) = rt_transcriptBuf s" "rt_receiverDone (rt_sender a s) = rt_receiverDone s"
  "rt_responseActive (rt_sender a s) = rt_responseActive s"
  by (cases a; simp add: Let_def commit_frame rt_senderEnds_def)+

definition same_output :: "realtime \<Rightarrow> realtime \<Rightarrow> bool" where
  "same_output s t \<longleftrightarrow> rt_audio s = rt_audio t \<and> rt_transcripts s = rt_transcripts t
     \<and> rt_transcriptBuf s = rt_transcriptBuf t \<and> rt_receiverDone s = rt_receiverDone t
     \<and> rt_responseActive s = rt_responseActive t"

lemma same_output_receiver: "same_output s t \<Longrightarrow> same_output (rt_receiver b s) (rt_receiver b t)"
  by (cases b; auto simp: same_output_def contentPartDone_def sendTranscript_def Let_def split: option.split part.split)

lemma same_output_run:
  "same_output s t \<Longrightarrow> same_output (fold rt_step es s) (fold rt_step (filter (\<lambda>e. \<exists>b. e = Receiver b) es) t)"
proof (induction es arbitrary: s t)
  case (Cons e es)
  show ?case
  proof (cases e)
    case (Sender a)
    have "same_output (rt_step e s) t"
      using Cons.prems Sender by (simp add: rt_step_def same_output_def sender_frame)
    then show ?thesis using Cons.IH Sender by simp
  next
    case (Receiver b)
    have "same_output (rt_step e s) (rt_step e t)"
      using Cons.prems Receiver same_output_receiver [of s t b] by (auto simp: rt_step_def same_output_def)
    then show ?thesis using Cons.IH Receiver by simp
  qed
qed simp

text \<open>
  The translation delivered does not depend on how the sender interleaves with the receiver: the
  audio and the transcripts of a run are those of its received messages alone.
\<close>

theorem output_depends_on_messages_only:
  "rt_audio (rt_run es) = rt_audio (rt_run (filter (\<lambda>e. \<exists>b. e = Receiver b) es))
    \<and> rt_transcripts (rt_run es) = rt_transcripts (rt_run (filter (\<lambda>e. \<exists>b. e = Receiver b) es))"
  using same_output_run [of rt_start rt_start es] by (simp add: same_output_def rt_run_def)

end
