(* ===== verification/Streams.thy ===== *)
theory Streams
  imports Prelude "HOL-Library.Sublist"
begin

section \<open>Goroutines that carry a channel to another\<close>

text \<open>
  Most adapters answer a call with a channel and start a goroutine of one shape: select between
  receiving from the input and \<open>ctx.Done()\<close>, compute, send what was computed in a select with
  \<open>ctx.Done()\<close>, close the output at the end.  A run of such a loop is fixed by what each receiving
  select gives, \<open>recv\<close>, and by the number \<open>k\<close> of sends that succeed before a sending select picks
  \<open>ctx.Done()\<close>.  Its result is what was sent and whether the loop has ended, that is, whether the
  output is closed; the end of the list is a loop still waiting.
\<close>

datatype 'a recv = Recv 'a | RecvClosed | RecvDone

fun pump :: "('a \<Rightarrow> 's \<Rightarrow> 'b list \<times> 's) \<Rightarrow> nat \<Rightarrow> 'a recv list \<Rightarrow> 's \<Rightarrow> 'b list \<times> bool" where
  "pump f k [] s = ([], False)"
| "pump f k (RecvClosed # rs) s = ([], True)"
| "pump f k (RecvDone # rs) s = ([], True)"
| "pump f k (Recv x # rs) s =
     (case f x s of (ys, s') \<Rightarrow>
        if k < length ys then (take k ys, True)
        else (case pump f (k - length ys) rs s' of (out, ended) \<Rightarrow> (ys @ out, ended)))"

subsection \<open>The contract of a stage\<close>

text \<open>
  A stage reads a stream and writes another.  It promises that it ends when its input is closed or
  the context is done, and that it never takes back what it has sent.  A chain of stages keeps the
  promise: \<open>feed\<close> is what the next stage receives of a stage's output.
\<close>

definition ending :: "'a recv list \<Rightarrow> bool" where
  "ending rs \<longleftrightarrow> RecvClosed \<in> set rs \<or> RecvDone \<in> set rs"

definition feed :: "'b list \<times> bool \<Rightarrow> 'b recv list" where
  "feed p = map Recv (fst p) @ (if snd p then [RecvClosed] else [])"

lemma ending_Recv [simp]: "ending (Recv x # rs) = ending rs" "ending (RecvClosed # rs)" "ending (RecvDone # rs)"
  "\<not> ending []"
  by (auto simp: ending_def)

lemma ending_feed [simp]: "ending (feed p) = snd p"
  by (auto simp: ending_def feed_def)

locale stage =
  fixes run :: "'a recv list \<Rightarrow> 'b list \<times> bool"
  assumes ends: "ending rs \<Longrightarrow> snd (run rs)"
    and sent_stays: "prefix (fst (run rs)) (fst (run (rs @ rs')))"
    and ended_stays: "snd (run rs) \<Longrightarrow> run (rs @ rs') = run rs"
begin

lemma feed_grows: "prefix (map Recv (fst (run rs))) (feed (run (rs @ rs')))"
  using map_mono_prefix [OF sent_stays [of rs rs'], of Recv]
  by (auto simp: feed_def prefix_def)

lemma feed_extends: "\<exists>q. feed (run (rs @ rs')) = feed (run rs) @ q"
proof (cases "snd (run rs)")
  case True
  then show ?thesis using ended_stays by fastforce
next
  case False
  then have "feed (run rs) = map Recv (fst (run rs))" by (simp add: feed_def)
  then show ?thesis using feed_grows [of rs rs'] by (auto simp: prefix_def)
qed

end

text \<open>Two stages in a row are a stage.\<close>

locale stage_chain = one: stage run1 + two: stage run2
  for run1 :: "'a recv list \<Rightarrow> 'b list \<times> bool" and run2 :: "'b recv list \<Rightarrow> 'c list \<times> bool"
begin

lemma chain_ends: "ending rs \<Longrightarrow> snd (run2 (feed (run1 rs)))"
  by (rule two.ends) (simp add: one.ends)

lemma chain_stage: "stage (\<lambda>rs. run2 (feed (run1 rs)))"
proof
  fix rs rs' :: "'a recv list"
  show "ending rs \<Longrightarrow> snd (run2 (feed (run1 rs)))" by (rule chain_ends)
  obtain q where q: "feed (run1 (rs @ rs')) = feed (run1 rs) @ q" using one.feed_extends by blast
  show "prefix (fst (run2 (feed (run1 rs)))) (fst (run2 (feed (run1 (rs @ rs')))))"
    unfolding q by (rule two.sent_stays)
  show "snd (run2 (feed (run1 rs))) \<Longrightarrow> run2 (feed (run1 (rs @ rs'))) = run2 (feed (run1 rs))"
    unfolding q by (rule two.ended_stays)
qed

end

lemma pump_Recv:
  "pump f k (Recv x # rs) s =
     (if k < length (fst (f x s)) then (take k (fst (f x s)), True)
      else (fst (f x s) @ fst (pump f (k - length (fst (f x s))) rs (snd (f x s))),
            snd (pump f (k - length (fst (f x s))) rs (snd (f x s)))))"
  by (simp split: prod.split)

declare pump.simps(4) [simp del]
declare pump_Recv [simp]

lemma pump_ends: "ending rs \<Longrightarrow> snd (pump f k rs s)"
proof (induction rs arbitrary: k s)
  case (Cons r rs)
  then show ?case by (cases r) auto
qed simp

lemma pump_stays: "snd (pump f k rs s) \<Longrightarrow> pump f k (rs @ rs') s = pump f k rs s"
proof (induction rs arbitrary: k s)
  case (Cons r rs)
  then show ?case by (cases r) (auto split: if_splits)
qed simp

lemma pump_sent_stays: "prefix (fst (pump f k rs s)) (fst (pump f k (rs @ rs') s))"
proof (induction rs arbitrary: k s)
  case (Cons r rs)
  then show ?case by (cases r) auto
qed simp

interpretation pumping: stage "\<lambda>rs. pump f k rs s" for f k s
  by unfold_locales (rule pump_ends pump_sent_stays pump_stays; assumption?)+

text \<open>A run in which every send succeeds, up to the close of the input.\<close>

fun outputs :: "('a \<Rightarrow> 's \<Rightarrow> 'b list \<times> 's) \<Rightarrow> 'a list \<Rightarrow> 's \<Rightarrow> 'b list" where
  "outputs f [] s = []"
| "outputs f (x # xs) s = (case f x s of (ys, s') \<Rightarrow> ys @ outputs f xs s')"

lemma pump_closed:
  "pump f k (map Recv xs @ [RecvClosed]) s = (take k (outputs f xs s), True)"
proof (induction xs arbitrary: k s)
  case (Cons x xs)
  obtain ys s' where f: "f x s = (ys, s')" by fastforce
  show ?case using Cons f by simp
qed simp

end
