(* ===== verification/Codec.thy ===== *)
theory Codec
  imports Streams "HOL-Library.Word"
begin

unbundle bit_operations_syntax

section \<open>The audio codecs: internal/adapters/codec\<close>

text \<open>
  \<open>OpusCodec\<close> and \<open>PassthroughCodec\<close> as pumps.  libopus is the parameter \<open>L\<close>: constructors that may
  fail and the two calls on a decoder and an encoder, which change its state; \<open>dec_Decode\<close> gives the
  \<open>n\<close> samples the call has put into the caller's buffer.  Both \<open>Decode\<close> and \<open>Encode\<close> always return a
  channel and no error; what goes wrong later only shows in what the channel carries.
\<close>

type_synonym bytes = "8 word list"

type_synonym sample = "16 word"

definition opusSampleRate :: int where "opusSampleRate = 24000"

definition opusChannels :: int where "opusChannels = 1"

definition opusFrameSize :: nat where "opusFrameSize = 480"

record ('d, 'e) opus_lib =
  NewDecoder :: "int \<Rightarrow> int \<Rightarrow> gerror + 'd"
  NewEncoder :: "int \<Rightarrow> int \<Rightarrow> gerror + 'e"
  dec_Decode :: "bytes \<Rightarrow> 'd \<Rightarrow> (gerror + sample list) \<times> 'd"
  enc_Encode :: "sample list \<Rightarrow> 'e \<Rightarrow> (gerror + bytes) \<times> 'e"

text \<open>PCM16, little endian.  The samples are signed: the shift that gives the high byte is arithmetic.\<close>

definition marshalSample :: "sample \<Rightarrow> bytes" where
  "marshalSample s = [ucast s, ucast (signed_drop_bit 8 s)]"

definition marshalPCM :: "sample list \<Rightarrow> bytes" where
  "marshalPCM ss = concat (map marshalSample ss)"

definition unmarshalSample :: "8 word \<Rightarrow> 8 word \<Rightarrow> sample" where
  "unmarshalSample lo hi = ucast lo OR push_bit 8 (ucast hi)"

fun unmarshalPCM :: "bytes \<Rightarrow> sample list" where
  "unmarshalPCM (lo # hi # bs) = unmarshalSample lo hi # unmarshalPCM bs"
| "unmarshalPCM bs = []"

definition decodeFrame :: "('d, 'e) opus_lib \<Rightarrow> bytes \<Rightarrow> 'd \<Rightarrow> bytes list \<times> 'd" where
  "decodeFrame L frame dec =
     (case dec_Decode L frame dec of
        (Inl decErr, dec') \<Rightarrow> ([], dec')
      | (Inr out16, dec') \<Rightarrow> ([marshalPCM out16], dec'))"

definition opus_Decode :: "('d, 'e) opus_lib \<Rightarrow> nat \<Rightarrow> bytes recv list \<Rightarrow> bytes list \<times> bool" where
  "opus_Decode L k opusIn =
     (case NewDecoder L opusSampleRate opusChannels of
        Inl err \<Rightarrow> ([], True)
      | Inr dec \<Rightarrow> pump (decodeFrame L) k opusIn dec)"

text \<open>
  The closure \<open>encode\<close>: as long as the accumulated samples hold a frame, encode it and cut it off.  A
  frame the encoder refuses is dropped.
\<close>

function encode_accum ::
  "('d, 'e) opus_lib \<Rightarrow> sample list \<Rightarrow> 'e \<Rightarrow> bytes list \<times> sample list \<times> 'e" where
  "encode_accum L accumBuf enc =
     (if length accumBuf < opusFrameSize then ([], accumBuf, enc)
      else (case enc_Encode L (take opusFrameSize accumBuf) enc of
              (Inl encErr, enc') \<Rightarrow> encode_accum L (drop opusFrameSize accumBuf) enc'
            | (Inr pkt, enc') \<Rightarrow>
                (case encode_accum L (drop opusFrameSize accumBuf) enc' of
                   (pkts, rest) \<Rightarrow> (pkt # pkts, rest))))"
  by pat_completeness auto
termination
  by (relation "measure (\<lambda>(L, accumBuf, enc). length accumBuf)") (auto simp: opusFrameSize_def)

declare encode_accum.simps [simp del]

definition encodeChunk ::
  "('d, 'e) opus_lib \<Rightarrow> bytes \<Rightarrow> sample list \<times> 'e \<Rightarrow> bytes list \<times> (sample list \<times> 'e)" where
  "encodeChunk L pcm st =
     (if length pcm mod 2 \<noteq> 0 then ([], st)
      else encode_accum L (fst st @ unmarshalPCM pcm) (snd st))"

definition opus_Encode :: "('d, 'e) opus_lib \<Rightarrow> nat \<Rightarrow> bytes recv list \<Rightarrow> bytes list \<times> bool" where
  "opus_Encode L k pcmIn =
     (case NewEncoder L opusSampleRate opusChannels of
        Inl err \<Rightarrow> ([], True)
      | Inr enc \<Rightarrow> pump (encodeChunk L) k pcmIn ([], enc))"

definition passthrough :: "nat \<Rightarrow> 'a recv list \<Rightarrow> 'a list \<times> bool" where
  "passthrough k inp = pump (\<lambda>frame s. ([frame], s)) k inp ()"

definition passthrough_Decode :: "nat \<Rightarrow> bytes recv list \<Rightarrow> bytes list \<times> bool" where
  "passthrough_Decode k opusIn = passthrough k opusIn"

definition passthrough_Encode :: "nat \<Rightarrow> bytes recv list \<Rightarrow> bytes list \<times> bool" where
  "passthrough_Encode k pcmIn = passthrough k pcmIn"

subsection \<open>The codecs as stages\<close>

interpretation opus_dec: stage "opus_Decode L k" for L k
  by unfold_locales
    (auto simp: opus_Decode_def pumping.ends pumping.sent_stays pumping.ended_stays split: sum.split)

interpretation opus_enc: stage "opus_Encode L k" for L k
  by unfold_locales
    (auto simp: opus_Encode_def pumping.ends pumping.sent_stays pumping.ended_stays split: sum.split)

interpretation pass: stage "passthrough k" for k
  by unfold_locales (auto simp: passthrough_def pumping.ends pumping.sent_stays pumping.ended_stays)

lemma outputs_id: "outputs (\<lambda>x s. ([x], s)) xs s = xs"
  by (induction xs) simp_all

subsection \<open>Samples and bytes\<close>

lemma marshal_unmarshal: "unmarshalSample lo hi = s \<longleftrightarrow> marshalSample s = [lo, hi]"
proof
  assume "unmarshalSample lo hi = s"
  moreover have "\<not> bit lo (8 + n)" for n using bit_imp_le_length [of lo "8 + n"] by auto
  ultimately show "marshalSample s = [lo, hi]"
    by (auto simp: marshalSample_def unmarshalSample_def bit_simps intro!: bit_word_eqI)
next
  assume "marshalSample s = [lo, hi]"
  then show "unmarshalSample lo hi = s"
    by (auto simp: marshalSample_def unmarshalSample_def bit_simps intro!: bit_word_eqI)
qed

lemma unmarshal_marshal_PCM: "unmarshalPCM (marshalPCM ss @ bs) = ss @ unmarshalPCM bs"
proof (induction ss)
  case (Cons s ss)
  have "unmarshalSample (ucast s) (ucast (signed_drop_bit 8 s)) = s"
    by (simp add: marshal_unmarshal marshalSample_def)
  then show ?case using Cons by (simp add: marshalPCM_def marshalSample_def)
qed (simp add: marshalPCM_def)

lemma marshal_unmarshal_PCM: "even (length bs) \<Longrightarrow> marshalPCM (unmarshalPCM bs) = bs"
proof (induction bs rule: unmarshalPCM.induct)
  case (1 lo hi bs)
  then show ?case using marshal_unmarshal [of lo hi "unmarshalSample lo hi"] by (simp add: marshalPCM_def)
qed (simp_all add: marshalPCM_def)

subsection \<open>Framing\<close>

text \<open>
  The reference: the consecutive full frames of a sample stream, and the packets an encoder makes of
  a list of frames, with its state afterwards.
\<close>

definition frames :: "sample list \<Rightarrow> sample list list" where
  "frames ss = map (\<lambda>i. take opusFrameSize (drop (opusFrameSize * i) ss)) [0..<length ss div opusFrameSize]"

fun packets :: "('d, 'e) opus_lib \<Rightarrow> sample list list \<Rightarrow> 'e \<Rightarrow> bytes list \<times> 'e" where
  "packets L [] enc = ([], enc)"
| "packets L (f # fs) enc =
     (case enc_Encode L f enc of
        (Inl e, enc') \<Rightarrow> packets L fs enc'
      | (Inr p, enc') \<Rightarrow> (case packets L fs enc' of (ps, enc'') \<Rightarrow> (p # ps, enc'')))"

definition rest_of :: "sample list \<Rightarrow> sample list" where
  "rest_of ss = drop (opusFrameSize * (length ss div opusFrameSize)) ss"

lemma frame_pos [simp]: "0 < opusFrameSize"
  by (simp add: opusFrameSize_def)

lemma frames_short: "length ss < opusFrameSize \<Longrightarrow> frames ss = [] \<and> rest_of ss = ss"
  by (simp add: frames_def rest_of_def)

lemma frames_step:
  assumes "opusFrameSize \<le> length ss"
  shows "frames ss = take opusFrameSize ss # frames (drop opusFrameSize ss)
    \<and> rest_of ss = rest_of (drop opusFrameSize ss)"
proof -
  have d: "length ss div opusFrameSize = Suc ((length ss - opusFrameSize) div opusFrameSize)"
    using assms by (simp add: le_div_geq)
  have m: "[0..<Suc n] = 0 # map Suc [0..<n]" for n by (simp add: upt_conv_Cons map_Suc_upt del: upt_Suc)
  show ?thesis unfolding frames_def rest_of_def d m by (simp add: add.commute)
qed

lemma encode_accum_packets:
  "encode_accum L acc enc = (fst (packets L (frames acc) enc), rest_of acc, snd (packets L (frames acc) enc))"
proof (induction L acc enc rule: encode_accum.induct)
  case (1 L acc enc)
  show ?case
  proof (cases "length acc < opusFrameSize")
    case True
    then show ?thesis using frames_short by (simp add: encode_accum.simps [of L acc])
  next
    case False
    obtain x enc' where e: "enc_Encode L (take opusFrameSize acc) enc = (x, enc')" by fastforce
    show ?thesis
      using 1 False frames_step [of acc] e
      by (cases x) (simp_all add: encode_accum.simps [of L acc] split: prod.split)
  qed
qed

lemma frames_append: "frames (a @ b) = frames a @ frames (rest_of a @ b) \<and> rest_of (a @ b) = rest_of (rest_of a @ b)"
proof (induction a rule: measure_induct_rule [where f = length])
  case (less a)
  show ?case
  proof (cases "length a < opusFrameSize")
    case True
    then show ?thesis by (simp add: frames_short)
  next
    case False
    then show ?thesis
      using less [of "drop opusFrameSize a"] frames_step [of a] frames_step [of "a @ b"]
      by (simp add: not_less opusFrameSize_def)
  qed
qed

lemma packets_append:
  "packets L (fs @ gs) enc =
     (fst (packets L fs enc) @ fst (packets L gs (snd (packets L fs enc))), snd (packets L gs (snd (packets L fs enc))))"
  by (induction fs arbitrary: enc) (simp_all split: prod.split sum.split)

lemma rest_short: "frames (rest_of a) = []"
  using minus_mult_div_eq_mod [of "length a" opusFrameSize] by (simp add: rest_of_def frames_def)

lemma unmarshal_append: "even (length xs) \<Longrightarrow> unmarshalPCM (xs @ ys) = unmarshalPCM xs @ unmarshalPCM ys"
  by (induction xs rule: unmarshalPCM.induct) simp_all

lemma outputs_encode:
  "outputs (encodeChunk L) chunks (rest_of a, snd (packets L (frames a) enc)) =
     fst (packets L (frames (rest_of a @ unmarshalPCM (concat (filter (\<lambda>c. even (length c)) chunks))))
            (snd (packets L (frames a) enc)))"
proof (induction chunks arbitrary: a)
  case Nil
  then show ?case by (simp add: rest_short)
next
  case (Cons c cs)
  show ?case
  proof (cases "even (length c)")
    case True
    let ?b = "a @ unmarshalPCM c" and ?s = "snd (packets L (frames a) enc)"
    have "outputs (encodeChunk L) (c # cs) (rest_of a, ?s)
        = fst (packets L (frames (rest_of a @ unmarshalPCM c)) ?s)
          @ outputs (encodeChunk L) cs (rest_of ?b, snd (packets L (frames ?b) enc))"
      using True frames_append [of a "unmarshalPCM c"]
      by (simp add: encodeChunk_def encode_accum_packets packets_append even_iff_mod_2_eq_zero)
    also have "\<dots> = fst (packets L (frames (rest_of a @ unmarshalPCM c @
        unmarshalPCM (concat (filter (\<lambda>c. even (length c)) cs)))) ?s)"
      unfolding Cons.IH
      using frames_append [of "rest_of a @ unmarshalPCM c"] frames_append [of a "unmarshalPCM c"]
      by (simp add: packets_append)
    finally show ?thesis using True by (simp add: unmarshal_append)
  next
    case False
    then have "encodeChunk L c st = ([], st)" for st by (simp add: encodeChunk_def odd_iff_mod_2_eq_one)
    then show ?thesis using False Cons.IH by simp
  qed
qed

lemma opus_Encode_closed:
  assumes "NewEncoder L opusSampleRate opusChannels = Inr enc"
  shows "opus_Encode L k (map Recv chunks @ [RecvClosed]) =
    (take k (fst (packets L (frames (unmarshalPCM (concat (filter (\<lambda>c. even (length c)) chunks)))) enc)), True)"
  using outputs_encode [of L chunks "[]" enc] frames_short [of "[]"] assms
  by (simp add: opus_Encode_def pump_closed)

text \<open>Decoder and encoder in a row, as the passthrough translation would chain them, are a stage again.\<close>

interpretation opus_loop: stage_chain "opus_Decode L k" "opus_Encode L' k'" for L k L' k'
  by unfold_locales

interpretation opus_loop_stage: stage "\<lambda>rs. opus_Encode L' k' (feed (opus_Decode L k rs))" for L k L' k'
  by (rule opus_loop.chain_stage)

subsection \<open>Properties of the codecs\<close>

text \<open>
  C32: what the Opus encoder sends does not depend on how the PCM stream is cut into chunks: it sends
  the packets of the consecutive 480-sample frames of the stream made of its even-length chunks,
  up to the send at which the context is done; a last partial frame is never sent.
\<close>

theorem encoding_ignores_chunking:
  assumes "NewEncoder L opusSampleRate opusChannels = Inr enc"
  shows "opus_Encode L k (map Recv chunks @ [RecvClosed]) =
    (take k (fst (packets L (frames (unmarshalPCM (concat (filter (\<lambda>c. even (length c)) chunks)))) enc)), True)"
  by (rule opus_Encode_closed [OF assms])

definition silent_opus :: "(unit, nat) opus_lib" where
  "silent_opus = \<lparr>NewDecoder = (\<lambda>_ _. Inr ()), NewEncoder = (\<lambda>_ _. Inr 0),
     dec_Decode = (\<lambda>p d. (Inr (replicate 480 0), d)), enc_Encode = (\<lambda>f e. (Inr [of_nat e], Suc e))\<rparr>"

theorem encoding_ignores_chunking_witness:
  "opus_Encode silent_opus 9 (map Recv [replicate 950 0, [7], replicate 12 0, replicate 4 0] @ [RecvClosed])
     = ([[0]], True)"
proof -
  have e: "NewEncoder silent_opus opusSampleRate opusChannels = Inr 0" by (simp add: silent_opus_def)
  have f: "frames ss = [take opusFrameSize ss]" if "length ss = 483" for ss
    using that by (simp add: frames_def opusFrameSize_def)
  have l: "length (unmarshalPCM bs) = length bs div 2" for bs
    by (induction bs rule: unmarshalPCM.induct) simp_all
  show ?thesis
    using encoding_ignores_chunking [OF e, of 9 "[replicate 950 0, [7], replicate 12 0, replicate 4 0]"]
    by (simp add: f l silent_opus_def)
qed

text \<open>
  PCM crosses the byte boundary of the codec unchanged: reading the bytes of samples gives the
  samples back, and writing the samples read from an even number of bytes gives the bytes back.
\<close>

theorem pcm_round_trip:
  assumes "even (length bs)"
  shows "unmarshalPCM (marshalPCM ss) = ss \<and> marshalPCM (unmarshalPCM bs) = bs"
  using unmarshal_marshal_PCM [of ss "[]"] marshal_unmarshal_PCM [OF assms] by simp

theorem pcm_round_trip_witness:
  "unmarshalPCM (marshalPCM [0xFFFE, 1]) = [0xFFFE, 1] \<and> marshalPCM (unmarshalPCM [0xFE, 0xFF]) = [0xFE, 0xFF]"
  by (rule pcm_round_trip) simp

text \<open>
  Closing the inbound audio, or cancelling the context anywhere on the way, closes the whole
  audio path: with any translator that keeps the contract of a stage, the output of decoder,
  translator and encoder is closed in the end.
\<close>

theorem audio_path_closes:
  assumes "stage translate" and "ending rs"
  shows "snd (opus_Encode L k' (feed (translate (feed (opus_Decode L k rs)))))"
  by (rule opus_enc.ends) (simp add: stage.ends [OF assms(1)] opus_dec.ends assms(2))

theorem audio_path_closes_witness:
  "snd (opus_Encode silent_opus 9 (feed (passthrough 9 (feed (opus_Decode silent_opus 9 [Recv [1], RecvClosed])))))"
  by (rule audio_path_closes [OF pass.stage_axioms]) simp

end
