(* ===== verification/Whisper_STT.thy ===== *)
theory Whisper_STT
  imports Go_Text Base64 Streams
begin

section \<open>Speech to text: adapters/translator/openai\_whisper\_stt.go\<close>

text \<open>
  \<open>WhisperSTT\<close> opens a WebSocket, configures the transcription and starts two goroutines: the sender,
  which turns audio frames into append messages, and the receiver, which forwards the finished
  transcripts.  Dialling and writing are the parameter \<open>W\<close>; a received message is what the decoder
  makes of the JSON, with the code of its error part (empty when there is none or it does not
  decode).
\<close>

record stt_config =
  wc_APIKey :: string
  wc_TranscriptionModel :: string
  wc_BaseURL :: string

definition stt_applyDefaults :: "stt_config \<Rightarrow> stt_config" where
  "stt_applyDefaults c =
     (let c1 = (if wc_TranscriptionModel c = [] then c\<lparr>wc_TranscriptionModel := ''gpt-4o-mini-transcribe''\<rparr> else c)
      in if wc_BaseURL c1 = [] then c1\<lparr>wc_BaseURL := ''wss://api.openai.com/v1/realtime''\<rparr> else c1)"

definition NewWhisperSTT :: "stt_config \<Rightarrow> stt_config" where
  "NewWhisperSTT cfg = stt_applyDefaults cfg"

text \<open>The prompts in UTF-8; a language without one has the empty text.\<close>

definition sttPromptForLang :: "string \<Rightarrow> string" where
  "sttPromptForLang lang =
     (if lang = ''es'' then ''Conversaci'' @ [CHR 0xC3, CHR 0xB3] @ ''n en espa'' @ [CHR 0xC3, CHR 0xB1] @ ''ol.''
      else if lang = ''en'' then ''Conversation in English.''
      else if lang = ''fr'' then ''Conversation en fran'' @ [CHR 0xC3, CHR 0xA7] @ ''ais.''
      else if lang = ''pt'' then ''Conversa em portugu'' @ [CHR 0xC3, CHR 0xAA] @ ''s.''
      else if lang = ''de'' then ''Gespr'' @ [CHR 0xC3, CHR 0xA4] @ ''ch auf Deutsch.''
      else if lang = ''it'' then ''Conversazione in italiano.''
      else if lang = ''zh'' then [CHR 0xE4, CHR 0xB8, CHR 0xAD, CHR 0xE6, CHR 0x96, CHR 0x87, CHR 0xE5, CHR 0xAF, CHR 0xB9, CHR
        0xE8, CHR 0xAF, CHR 0x9D, CHR 0xE3, CHR 0x80, CHR 0x82]
      else if lang = ''ja'' then [CHR 0xE6, CHR 0x97, CHR 0xA5, CHR 0xE6, CHR 0x9C, CHR 0xAC, CHR 0xE8, CHR 0xAA, CHR 0x9E, CHR
        0xE3, CHR 0x81, CHR 0xAE, CHR 0xE4, CHR 0xBC, CHR 0x9A, CHR 0xE8, CHR 0xA9, CHR 0xB1, CHR 0xE3,
        CHR 0x80, CHR 0x82]
      else if lang = ''ko'' then [CHR 0xED, CHR 0x95, CHR 0x9C, CHR 0xEA, CHR 0xB5, CHR 0xAD, CHR 0xEC, CHR 0x96, CHR 0xB4] @ '' '' @ [CHR 0xEB, CHR 0x8C, CHR 0x80, CHR 0xED, CHR 0x99, CHR 0x94] @ ''.''
      else if lang = ''ar'' then [CHR 0xD9, CHR 0x85, CHR 0xD8, CHR 0xAD, CHR 0xD8, CHR 0xA7, CHR 0xD8, CHR 0xAF, CHR 0xD8, CHR
        0xAB, CHR 0xD8, CHR 0xA9] @ '' '' @ [CHR 0xD8, CHR 0xA8, CHR 0xD8, CHR 0xA7, CHR 0xD9, CHR 0x84,
        CHR 0xD9, CHR 0x84, CHR 0xD8, CHR 0xBA, CHR 0xD8, CHR 0xA9] @ '' '' @ [CHR 0xD8, CHR 0xA7, CHR
        0xD9, CHR 0x84, CHR 0xD8, CHR 0xB9, CHR 0xD8, CHR 0xB1, CHR 0xD8, CHR 0xA8, CHR 0xD9, CHR 0x8A,
        CHR 0xD8, CHR 0xA9] @ ''.''
      else if lang = ''ru'' then [CHR 0xD0, CHR 0xA0, CHR 0xD0, CHR 0xB0, CHR 0xD0, CHR 0xB7, CHR 0xD0, CHR 0xB3, CHR 0xD0, CHR
        0xBE, CHR 0xD0, CHR 0xB2, CHR 0xD0, CHR 0xBE, CHR 0xD1, CHR 0x80] @ '' '' @ [CHR 0xD0, CHR 0xBD,
        CHR 0xD0, CHR 0xB0] @ '' '' @ [CHR 0xD1, CHR 0x80, CHR 0xD1, CHR 0x83, CHR 0xD1, CHR 0x81, CHR
        0xD1, CHR 0x81, CHR 0xD0, CHR 0xBA, CHR 0xD0, CHR 0xBE, CHR 0xD0, CHR 0xBC] @ '' '' @ [CHR 0xD1,
        CHR 0x8F, CHR 0xD0, CHR 0xB7, CHR 0xD1, CHR 0x8B, CHR 0xD0, CHR 0xBA, CHR 0xD0, CHR 0xB5] @
        ''.''
      else [])"

text \<open>The session payload and the messages written.\<close>

record stt_session =
  ss_Type :: string
  ss_FormatType :: string
  ss_FormatRate :: int
  ss_Model :: string
  ss_Language :: string
  ss_Prompt :: string
  ss_TurnDetection :: string

datatype stt_out = SttSessionUpdate stt_session | SttAppend string | SttCloseFrame

record 'x stt_socket =
  Dial :: "string \<Rightarrow> string \<Rightarrow> 'x \<Rightarrow> gerror option \<times> 'x"
  WriteJSON :: "stt_out \<Rightarrow> 'x \<Rightarrow> gerror option \<times> 'x"
  CloseConn :: "'x \<Rightarrow> 'x"

definition sttSession :: "stt_config \<Rightarrow> string \<Rightarrow> stt_session" where
  "sttSession cfg lang = \<lparr>ss_Type = ''transcription'', ss_FormatType = ''audio/pcm'', ss_FormatRate = 24000,
     ss_Model = wc_TranscriptionModel cfg, ss_Language = lang, ss_Prompt = sttPromptForLang lang,
     ss_TurnDetection = ''server_vad''\<rparr>"

text \<open>
  \<open>Transcribe\<close> up to the start of its goroutines: an error, or success.  The payload is a structure of
  texts and numbers, which always marshals.
\<close>

definition Transcribe :: "'x stt_socket \<Rightarrow> stt_config \<Rightarrow> string \<Rightarrow> 'x \<Rightarrow> gerror option \<times> 'x" where
  "Transcribe W cfg lang x =
     (case Dial W (wc_BaseURL cfg @ ''?intent=transcription'') (''Bearer '' @ wc_APIKey cfg) x of
        (Some err, x1) \<Rightarrow> (Some (Wrapped ''whisper stt: dial'' err), x1)
      | (None, x1) \<Rightarrow>
          (case WriteJSON W (SttSessionUpdate (sttSession cfg lang)) x1 of
             (Some err, x2) \<Rightarrow> (Some (Wrapped ''whisper stt: send session.update'' err), CloseConn W x2)
           | (None, x2) \<Rightarrow> (None, x2)))"

text \<open>
  The sender: each frame received comes with the outcome of the write it leads to.  The result is the
  messages written; the close frame is the deferred one.
\<close>

fun sttSender :: "(8 word list \<times> gerror option) recv list \<Rightarrow> stt_out list \<times> bool" where
  "sttSender [] = ([], False)"
| "sttSender (RecvDone # rs) = ([SttCloseFrame], True)"
| "sttSender (RecvClosed # rs) = ([SttCloseFrame], True)"
| "sttSender (Recv (frame, err) # rs) =
     (case err of
        Some e \<Rightarrow> ([SttCloseFrame], True)
      | None \<Rightarrow> (case sttSender rs of (ms, ended) \<Rightarrow> (SttAppend (EncodeToString frame) # ms, ended)))"

record stt_message =
  sm_Type :: string
  sm_Transcript :: string
  sm_ErrorCode :: string

definition stt_nonfatal :: "string \<Rightarrow> bool" where
  "stt_nonfatal code \<longleftrightarrow> code = ''unknown_parameter'' \<or> code = ''invalid_value''"

text \<open>
  The receiver: \<open>RecvClosed\<close> is a failing read, \<open>RecvDone\<close> a context found done before a read, and
  \<open>k\<close> the number of sends before one finds the context done.  Every other message only logs.
\<close>

fun sttReceiver :: "nat \<Rightarrow> stt_message recv list \<Rightarrow> string list \<times> bool" where
  "sttReceiver k [] = ([], False)"
| "sttReceiver k (RecvDone # rs) = ([], True)"
| "sttReceiver k (RecvClosed # rs) = ([], True)"
| "sttReceiver k (Recv msg # rs) =
     (if sm_Type msg = ''conversation.item.input_audio_transcription.completed'' then
        (if rune_count (sm_Transcript msg) \<ge> 3 then
           (if k = 0 then ([], True)
            else (case sttReceiver (k - 1) rs of (ts, ended) \<Rightarrow> (sm_Transcript msg # ts, ended)))
         else sttReceiver k rs)
      else if sm_Type msg = ''error'' then
        (if stt_nonfatal (sm_ErrorCode msg) then sttReceiver k rs else ([], True))
      else sttReceiver k rs)"

subsection \<open>What is forwarded\<close>

definition stt_fatal :: "stt_message \<Rightarrow> bool" where
  "stt_fatal m \<longleftrightarrow> sm_Type m = ''error'' \<and> \<not> stt_nonfatal (sm_ErrorCode m)"

definition stt_final :: "stt_message \<Rightarrow> bool" where
  "stt_final m \<longleftrightarrow> sm_Type m = ''conversation.item.input_audio_transcription.completed''
     \<and> 3 \<le> rune_count (sm_Transcript m)"

lemma sttReceiver_cases:
  "sttReceiver k (r # rs) =
     (case r of
        Recv m \<Rightarrow>
          if stt_fatal m then ([], True)
          else if stt_final m then
            if k = 0 then ([], True)
            else (sm_Transcript m # fst (sttReceiver (k - 1) rs), snd (sttReceiver (k - 1) rs))
          else sttReceiver k rs
      | _ \<Rightarrow> ([], True))"
  by (auto simp: stt_fatal_def stt_final_def split: recv.split prod.split)

lemma sttReceiver_spec:
  "sttReceiver k (map Recv ms @ [RecvClosed]) =
     (take k (map sm_Transcript (filter stt_final (takeWhile (\<lambda>m. \<not> stt_fatal m) ms))), True)"
proof (induction ms arbitrary: k)
  case (Cons m ms)
  have "\<not> (stt_final m \<and> sm_Type m = ''error'')" by (simp add: stt_final_def)
  then show ?case using Cons by (cases k) (auto simp: stt_final_def stt_fatal_def)
qed simp

interpretation stt_receiver: stage "sttReceiver k" for k
proof
  show "ending rs \<Longrightarrow> snd (sttReceiver k rs)" for rs
    by (induction k rs rule: sttReceiver.induct) (auto split: prod.split)
  show "prefix (fst (sttReceiver k rs)) (fst (sttReceiver k (rs @ rs')))" for rs rs'
    by (induction k rs rule: sttReceiver.induct) (auto split: prod.splits)
  show "snd (sttReceiver k rs) \<Longrightarrow> sttReceiver k (rs @ rs') = sttReceiver k rs" for rs rs'
    by (induction rs arbitrary: k) (auto simp: sttReceiver_cases split: recv.splits if_splits)
qed

text \<open>What the server can decode of the append messages.\<close>

fun appended :: "stt_out list \<Rightarrow> 8 word list option list" where
  "appended [] = []"
| "appended (SttAppend a # ms) = DecodeString a # appended ms"
| "appended (_ # ms) = appended ms"

lemma sttSender_spec:
  "appended (fst (sttSender (map Recv fs @ [RecvClosed]))) = map (Some \<circ> fst) (takeWhile (\<lambda>p. snd p = None) fs)
    \<and> last (fst (sttSender (map Recv fs @ [RecvClosed]))) = SttCloseFrame
    \<and> snd (sttSender (map Recv fs @ [RecvClosed]))"
proof (induction fs)
  case (Cons p fs)
  obtain f e where p: "p = (f, e)" by fastforce
  obtain ms b where s: "sttSender (map Recv fs @ [RecvClosed]) = (ms, b)" by fastforce
  have "ms \<noteq> []" using s by (cases fs) (auto split: prod.splits option.splits recv.splits)
  then show ?case using Cons p s by (cases e) (auto simp: Decode_Encode)
qed simp

subsection \<open>Properties of the transcription\<close>

text \<open>
  The transcription forwards, in order, exactly the finished transcripts of three runes or more that
  come before the first fatal error (every error but the two about parameters), as many as the
  consumer takes before the context is done, and then closes the channel; the audio frames reach
  the server as they were, up to the first write that fails, followed by a close frame.
\<close>

theorem transcription_forwards_final_texts:
  "sttReceiver k (map Recv ms @ [RecvClosed]) =
     (take k (map sm_Transcript (filter stt_final (takeWhile (\<lambda>m. \<not> stt_fatal m) ms))), True)
   \<and> appended (fst (sttSender (map Recv fs @ [RecvClosed]))) = map (Some \<circ> fst) (takeWhile (\<lambda>p. snd p = None) fs)
   \<and> last (fst (sttSender (map Recv fs @ [RecvClosed]))) = SttCloseFrame"
  using sttReceiver_spec sttSender_spec by blast

end
