(* ===== verification/Openai_Http.thy ===== *)
theory Openai_Http
  imports Go_Text Streams
begin

section \<open>OpenAI over HTTP: adapters/tts/openai\_tts.go, adapters/translator/openai\_translate.go\<close>

text \<open>
  The two adapters that make one HTTP request per call.  \<open>net/http\<close> and the service behind it are the
  parameter \<open>H\<close>: whether a URL makes a request, and what a request is answered; an answer is its status
  and what the reads of its body give, one after the other.  A request body is the structure the code
  marshals, which cannot fail as it holds texts only; \<open>decodeChat\<close> is \<open>encoding/json\<close> on the reads of a
  chat answer, giving the contents of the choices.
\<close>

datatype read_end = ReadOn | ReadEOF | ReadFailed gerror

record http_response =
  re_StatusCode :: int
  re_reads :: "(string \<times> read_end) list"

text \<open>\<open>io.ReadAll\<close> with its error ignored: what is read before the end.\<close>

fun ReadAll :: "(string \<times> read_end) list \<Rightarrow> string" where
  "ReadAll [] = []"
| "ReadAll ((b, ReadOn) # rs) = b @ ReadAll rs"
| "ReadAll ((b, e) # rs) = b"

record 'b post =
  po_url :: string
  po_authorization :: string
  po_body :: 'b

record ('b, 'x) http_lib =
  NewRequest :: "string \<Rightarrow> gerror option"
  Do :: "'b post \<Rightarrow> 'x \<Rightarrow> (gerror + http_response) \<times> 'x"

subsection \<open>Text to speech\<close>

record tts_config =
  tc_APIKey :: string
  tc_Model :: string
  tc_Voice :: string
  tc_BaseURL :: string

definition tts_applyDefaults :: "tts_config \<Rightarrow> tts_config" where
  "tts_applyDefaults c =
     (let c1 = (if tc_Model c = [] then c\<lparr>tc_Model := ''gpt-4o-mini-tts-2025-12-15''\<rparr> else c);
          c2 = (if tc_Voice c1 = [] then c1\<lparr>tc_Voice := ''alloy''\<rparr> else c1)
      in if tc_BaseURL c2 = [] then c2\<lparr>tc_BaseURL := ''https://api.openai.com/v1/audio/speech''\<rparr> else c2)"

definition NewOpenAITTS :: "tts_config \<Rightarrow> tts_config" where
  "NewOpenAITTS cfg = tts_applyDefaults cfg"

record tts_request =
  tq_Model :: string
  tq_Input :: string
  tq_Voice :: string
  tq_ResponseFormat :: string

text \<open>
  The streaming goroutine: what its reads give, and \<open>k\<close> as for a pump.  The result is what was sent
  and whether the goroutine has ended.
\<close>

fun ttsStream :: "nat \<Rightarrow> (string \<times> read_end) list \<Rightarrow> string list \<times> bool" where
  "ttsStream k [] = ([], False)"
| "ttsStream k ((b, readErr) # rs) =
     (if b \<noteq> [] \<and> k = 0 then ([], True)
      else (case (case readErr of ReadOn \<Rightarrow> ttsStream (if b \<noteq> [] then k - 1 else k) rs | _ \<Rightarrow> ([], True)) of
              (out, ended) \<Rightarrow> (if b \<noteq> [] then b # out else out, ended)))"

definition Synthesize ::
  "(tts_request, 'x) http_lib \<Rightarrow> tts_config \<Rightarrow> string \<Rightarrow> string \<Rightarrow> 'x
     \<Rightarrow> (gerror + (string \<times> read_end) list) \<times> 'x" where
  "Synthesize H cfg txt lang x =
     (let body = \<lparr>tq_Model = tc_Model cfg, tq_Input = txt, tq_Voice = tc_Voice cfg, tq_ResponseFormat = ''pcm''\<rparr> in
      case NewRequest H (tc_BaseURL cfg) of
        Some err \<Rightarrow> (Inl (Wrapped ''tts: create request'' err), x)
      | None \<Rightarrow>
          (case Do H \<lparr>po_url = tc_BaseURL cfg, po_authorization = ''Bearer '' @ tc_APIKey cfg, po_body = body\<rparr> x of
             (Inl err, x') \<Rightarrow> (Inl (Wrapped ''tts: http request'' err), x')
           | (Inr resp, x') \<Rightarrow>
               (if re_StatusCode resp \<noteq> 200
                then (Inl (Foreign (''tts: api error '' @ Itoa (re_StatusCode resp) @ '': '' @ ReadAll (re_reads resp))), x')
                else (Inr (re_reads resp), x'))))"

subsection \<open>Text translation\<close>

record translate_config =
  xc_APIKey :: string
  xc_Model :: string
  xc_BaseURL :: string

definition translate_applyDefaults :: "translate_config \<Rightarrow> translate_config" where
  "translate_applyDefaults c =
     (let c1 = (if xc_Model c = [] then c\<lparr>xc_Model := ''gpt-4o-mini''\<rparr> else c)
      in if xc_BaseURL c1 = [] then c1\<lparr>xc_BaseURL := ''https://api.openai.com/v1/chat/completions''\<rparr> else c1)"

definition NewTextTranslator :: "translate_config \<Rightarrow> translate_config" where
  "NewTextTranslator cfg = translate_applyDefaults cfg"

record chat_message =
  cm_Role :: string
  cm_Content :: string

record chat_request =
  cq_Model :: string
  cq_Messages :: "chat_message list"

definition interpreterPrompt :: "string \<Rightarrow> string \<Rightarrow> string" where
  "interpreterPrompt sourceLang targetLang =
     ''You are a professional interpreter. '' @
     ''Translate the following text from '' @ sourceLang @ '' to '' @ targetLang @ ''. '' @
     ''Output ONLY the translation. No explanations, no alternatives, no notes.''"

definition Translate ::
  "(chat_request, 'x) http_lib \<Rightarrow> ((string \<times> read_end) list \<Rightarrow> gerror + string list) \<Rightarrow> translate_config
     \<Rightarrow> string \<Rightarrow> string \<Rightarrow> string \<Rightarrow> 'x \<Rightarrow> (gerror + string) \<times> 'x" where
  "Translate H decodeChat cfg txt sourceLang targetLang x =
     (let body = \<lparr>cq_Model = xc_Model cfg,
                  cq_Messages = [\<lparr>cm_Role = ''system'', cm_Content = interpreterPrompt sourceLang targetLang\<rparr>,
                                 \<lparr>cm_Role = ''user'', cm_Content = txt\<rparr>]\<rparr> in
      case NewRequest H (xc_BaseURL cfg) of
        Some err \<Rightarrow> (Inl (Wrapped ''translate: create request'' err), x)
      | None \<Rightarrow>
          (case Do H \<lparr>po_url = xc_BaseURL cfg, po_authorization = ''Bearer '' @ xc_APIKey cfg, po_body = body\<rparr> x of
             (Inl err, x') \<Rightarrow> (Inl (Wrapped ''translate: http'' err), x')
           | (Inr resp, x') \<Rightarrow>
               (if re_StatusCode resp \<noteq> 200
                then (Inl (Foreign (''translate: api error '' @ Itoa (re_StatusCode resp) @ '': '' @ ReadAll (re_reads resp))), x')
                else (case decodeChat (re_reads resp) of
                        Inl err \<Rightarrow> (Inl (Wrapped ''translate: decode response'' err), x')
                      | Inr [] \<Rightarrow> (Inl (Foreign ''translate: empty response''), x')
                      | Inr (content # _) \<Rightarrow> (Inr content, x')))))"

subsection \<open>What the stream carries\<close>

definition finished :: "(string \<times> read_end) list \<Rightarrow> bool" where
  "finished rs \<longleftrightarrow> list_ex (\<lambda>r. snd r \<noteq> ReadOn) rs"

lemma finished_simps [simp]:
  "\<not> finished []" "finished ((b, ReadOn) # rs) = finished rs" "finished ((b, ReadEOF) # rs)"
  "finished ((b, ReadFailed e) # rs)"
  by (simp_all add: finished_def)

lemma ttsStream_ends: "finished rs \<Longrightarrow> snd (ttsStream k rs)"
  by (induction k rs rule: ttsStream.induct) (auto split: prod.split read_end.splits)

lemma ttsStream_data: "length rs \<le> k \<Longrightarrow> concat (fst (ttsStream k rs)) = ReadAll rs"
  by (induction k rs rule: ttsStream.induct) (auto split: prod.splits read_end.splits)

lemma ttsStream_chunks:
  "list_all (\<lambda>r. length (fst r) \<le> n) rs \<Longrightarrow> list_all (\<lambda>c. c \<noteq> [] \<and> length c \<le> n) (fst (ttsStream k rs))"
  by (induction k rs rule: ttsStream.induct) (auto split: prod.splits read_end.splits)

lemma ttsStream_prefix: "prefix (concat (fst (ttsStream k rs))) (ReadAll rs)"
  by (induction k rs rule: ttsStream.induct) (auto split: prod.splits read_end.splits)

text \<open>
  When the speech API answers 200, the audio channel carries the body as it arrives, in non-empty
  chunks no longer than a read, an initial part of the body if the context is cancelled and all of it
  otherwise; the channel is closed at the end of the body and at a failing read alike, so that a
  broken answer looks like a complete one.
\<close>

theorem synthesis_streams_the_body:
  assumes "list_all (\<lambda>r. length (fst r) \<le> 3840) rs"
    and "Synthesize H cfg txt lang x = (Inr rs, x')"
  shows "prefix (concat (fst (ttsStream k rs))) (ReadAll rs)
    \<and> list_all (\<lambda>c. c \<noteq> [] \<and> length c \<le> 3840) (fst (ttsStream k rs))
    \<and> (length rs \<le> k \<longrightarrow> concat (fst (ttsStream k rs)) = ReadAll rs)
    \<and> (finished rs \<longrightarrow> snd (ttsStream k rs))
    \<and> (\<exists>resp. Do H \<lparr>po_url = tc_BaseURL cfg, po_authorization = ''Bearer '' @ tc_APIKey cfg,
          po_body = \<lparr>tq_Model = tc_Model cfg, tq_Input = txt, tq_Voice = tc_Voice cfg, tq_ResponseFormat = ''pcm''\<rparr>\<rparr> x
          = (Inr resp, x') \<and> re_StatusCode resp = 200 \<and> re_reads resp = rs)"
  using assms ttsStream_prefix ttsStream_chunks [OF assms(1)] ttsStream_data ttsStream_ends
  by (auto simp: Synthesize_def Let_def split: option.splits prod.splits sum.splits if_splits)

definition speaking :: "(tts_request, unit) http_lib" where
  "speaking = \<lparr>NewRequest = (\<lambda>_. None), Do = (\<lambda>q x. (Inr \<lparr>re_StatusCode = 200,
     re_reads = [(''abc'', ReadOn), ([], ReadOn), (''de'', ReadFailed (Foreign ''reset''))]\<rparr>, x))\<rparr>"

theorem synthesis_streams_the_body_witness:
  "concat (fst (ttsStream 9 [(''abc'', ReadOn), ([], ReadOn), (''de'', ReadFailed (Foreign ''reset''))])) = ''abcde''
    \<and> snd (ttsStream 9 [(''abc'', ReadOn), ([], ReadOn), (''de'', ReadFailed (Foreign ''reset''))])"
proof -
  let ?rs = "[(''abc'', ReadOn), ([], ReadOn), (''de'', ReadFailed (Foreign ''reset''))]"
  have "Synthesize speaking (NewOpenAITTS \<lparr>tc_APIKey = ''k'', tc_Model = [], tc_Voice = [], tc_BaseURL = []\<rparr>) ''hola'' ''es'' ()
      = (Inr ?rs, ())"
    by (simp add: Synthesize_def speaking_def)
  from synthesis_streams_the_body [OF _ this, of 9] show ?thesis by simp
qed

text \<open>
  A text is translated exactly when the API answers 200 with a decodable body that holds at least
  one choice, and then to the content of the first one; every other answer is an error.
\<close>

theorem translation_is_the_first_choice:
  assumes "NewRequest H (xc_BaseURL cfg) = None"
  shows "fst (Translate H decodeChat cfg txt src tgt x) = Inr translated \<longleftrightarrow>
    (\<exists>resp x' others. Do H \<lparr>po_url = xc_BaseURL cfg, po_authorization = ''Bearer '' @ xc_APIKey cfg,
        po_body = \<lparr>cq_Model = xc_Model cfg,
          cq_Messages = [\<lparr>cm_Role = ''system'', cm_Content = interpreterPrompt src tgt\<rparr>,
                         \<lparr>cm_Role = ''user'', cm_Content = txt\<rparr>]\<rparr>\<rparr> x = (Inr resp, x')
      \<and> re_StatusCode resp = 200 \<and> decodeChat (re_reads resp) = Inr (translated # others))"
  using assms
  by (auto simp: Translate_def Let_def split: prod.split sum.split list.split)

definition choosing :: "(chat_request, unit) http_lib" where
  "choosing = \<lparr>NewRequest = (\<lambda>_. None), Do = (\<lambda>q x. (Inr \<lparr>re_StatusCode = 200, re_reads = [(''hi'', ReadEOF)]\<rparr>, x))\<rparr>"

theorem translation_is_the_first_choice_witness:
  "fst (Translate choosing (\<lambda>rs. Inr [ReadAll rs]) (NewTextTranslator \<lparr>xc_APIKey = ''k'', xc_Model = [], xc_BaseURL = []\<rparr>)
     ''hola'' ''es'' ''en'' ()) = Inr ''hi''"
  by (subst translation_is_the_first_choice) (simp_all add: choosing_def)

end
