(* ===== verification/Pipeline_Translator.thy ===== *)
theory Pipeline_Translator
  imports Whisper_STT Openai_Http "HOL-Library.Multiset" "HOL-Library.Finite_Map"
begin

section \<open>The three-stage translator: adapters/translator/pipeline\_translator.go\<close>

text \<open>
  \<open>TranslateStream\<close> chains transcription, translation and speech.  Accepted transcripts are numbered and
  translated concurrently; the results arrive in any order and an ordered drainer emits them by
  number, speaking one after the other.  The language detector is the parameter \<open>detect\<close>: the ISO
  639-1 code of a text, \<open>None\<close> when it is inconclusive.
\<close>

record pipeline_translator =
  pt_stt :: stt_config
  pt_translate :: translate_config
  pt_ttsClient :: tts_config

definition NewPipelineTranslator :: "string \<Rightarrow> pipeline_translator" where
  "NewPipelineTranslator apiKey =
     \<lparr>pt_stt = NewWhisperSTT \<lparr>wc_APIKey = apiKey, wc_TranscriptionModel = [], wc_BaseURL = []\<rparr>,
      pt_translate = NewTextTranslator \<lparr>xc_APIKey = apiKey, xc_Model = [], xc_BaseURL = []\<rparr>,
      pt_ttsClient = NewOpenAITTS \<lparr>tc_APIKey = apiKey, tc_Model = [], tc_Voice = [], tc_BaseURL = []\<rparr>\<rparr>"

text \<open>\<open>TranslateStream\<close> up to the start of its goroutines: it fails exactly when the transcription does.\<close>

definition pt_TranslateStream ::
  "'x stt_socket \<Rightarrow> pipeline_translator \<Rightarrow> string \<Rightarrow> 'x \<Rightarrow> gerror option \<times> 'x" where
  "pt_TranslateStream W p sourceLang x = Transcribe W (pt_stt p) sourceLang x"

definition isPromptEcho :: "string \<Rightarrow> string \<Rightarrow> bool" where
  "isPromptEcho txt lang =
     (let prompt = sttPromptForLang lang in prompt \<noteq> [] \<and> TrimSpace txt = TrimSpace prompt)"

definition isExpectedLanguage :: "(string \<Rightarrow> string option) \<Rightarrow> string \<Rightarrow> string \<Rightarrow> bool" where
  "isExpectedLanguage detect txt sourceLang =
     (if rune_count txt < 8 then True
      else case detect txt of None \<Rightarrow> True | Some detected \<Rightarrow> EqualFold detected sourceLang)"

subsection \<open>Fan-out\<close>

text \<open>
  The first goroutine: \<open>RecvClosed\<close> is the end of the transcripts, \<open>RecvDone\<close> the context.  Its result is
  the numbered texts for which a translation is started, and whether it has ended; the result
  channel is closed once those translations are done.
\<close>

fun fanOut :: "(string \<Rightarrow> string option) \<Rightarrow> string \<Rightarrow> nat \<Rightarrow> string recv list \<Rightarrow> (nat \<times> string) list \<times> bool" where
  "fanOut detect sourceLang seq [] = ([], False)"
| "fanOut detect sourceLang seq (RecvDone # rs) = ([], True)"
| "fanOut detect sourceLang seq (RecvClosed # rs) = ([], True)"
| "fanOut detect sourceLang seq (Recv original # rs) =
     (if original = [] then fanOut detect sourceLang seq rs
      else if isPromptEcho original sourceLang then fanOut detect sourceLang seq rs
      else if \<not> isExpectedLanguage detect original sourceLang then fanOut detect sourceLang seq rs
      else (case fanOut detect sourceLang (seq + 1) rs of (js, ended) \<Rightarrow> ((seq, original) # js, ended)))"

record translation_result =
  tr_seq :: nat
  tr_translated :: string
  tr_skipped :: bool

text \<open>One translating goroutine, given what its call of \<open>Translate\<close> returns for a number and a text.\<close>

definition translateOne :: "(nat \<Rightarrow> string \<Rightarrow> gerror + string) \<Rightarrow> nat \<times> string \<Rightarrow> translation_result" where
  "translateOne translate j =
     (case translate (fst j) (snd j) of
        Inl err \<Rightarrow> \<lparr>tr_seq = fst j, tr_translated = [], tr_skipped = True\<rparr>
      | Inr translated \<Rightarrow> \<lparr>tr_seq = fst j, tr_translated = translated, tr_skipped = False\<rparr>)"

subsection \<open>The ordered drainer\<close>

text \<open>
  The output side: the transcripts and the audio sent so far, the number of audio sends that succeed
  before the context is done, and whether the drainer has returned.  \<open>synth\<close> gives for each
  number and text the chunks the call of \<open>Synthesize\<close> delivers, or its error; \<open>room\<close> tells for each number whether the transcript channel
  has room at that moment.
\<close>

record speaker =
  sp_transcripts :: "string list"
  sp_audio :: "string list"
  sp_left :: nat
  sp_returned :: bool

definition emitResult ::
  "(nat \<Rightarrow> string \<Rightarrow> gerror + string list) \<Rightarrow> (nat \<Rightarrow> bool) \<Rightarrow> translation_result \<Rightarrow> speaker \<Rightarrow> speaker" where
  "emitResult synth room r s =
     (if tr_skipped r then s
      else
        let s1 = (if room (tr_seq r) then s\<lparr>sp_transcripts := sp_transcripts s @ [tr_translated r]\<rparr> else s)
        in case synth (tr_seq r) (tr_translated r) of
             Inl err \<Rightarrow> s1
           | Inr pcms \<Rightarrow>
               if sp_left s1 < length pcms
               then s1\<lparr>sp_audio := sp_audio s1 @ take (sp_left s1) pcms, sp_left := 0, sp_returned := True\<rparr>
               else s1\<lparr>sp_audio := sp_audio s1 @ pcms, sp_left := sp_left s1 - length pcms\<rparr>)"

text \<open>
  The drainer holds the results that came too early and the number it waits for.  \<open>drainReady\<close> is its
  inner loop, left for good when \<open>emitResult\<close> has returned from the goroutine.
\<close>

record drainer =
  dr_pending :: "(nat, translation_result) fmap"
  dr_nextExpected :: nat
  dr_out :: speaker

function drainReady ::
  "(nat \<Rightarrow> string \<Rightarrow> gerror + string list) \<Rightarrow> (nat \<Rightarrow> bool) \<Rightarrow> drainer \<Rightarrow> drainer" where
  "drainReady synth room d =
     (if sp_returned (dr_out d) then d
      else case fmlookup (dr_pending d) (dr_nextExpected d) of
        None \<Rightarrow> d
      | Some r \<Rightarrow> drainReady synth room
          \<lparr>dr_pending = fmdrop (dr_nextExpected d) (dr_pending d), dr_nextExpected = dr_nextExpected d + 1,
           dr_out = emitResult synth room r (dr_out d)\<rparr>)"
  by pat_completeness auto
termination
proof (relation "measure (\<lambda>(synth, room, d). fcard (fmdom (dr_pending d)))")
  fix synth :: "nat \<Rightarrow> string \<Rightarrow> gerror + string list" and room :: "nat \<Rightarrow> bool" and d :: drainer and r
  assume "fmlookup (dr_pending d) (dr_nextExpected d) = Some r"
  then have "dr_nextExpected d |\<in>| fmdom (dr_pending d)" by (rule fmdomI)
  then have "fmdom (fmdrop (dr_nextExpected d) (dr_pending d)) |\<subset>| fmdom (dr_pending d)" by auto
  then show "((synth, room, \<lparr>dr_pending = fmdrop (dr_nextExpected d) (dr_pending d),
        dr_nextExpected = dr_nextExpected d + 1, dr_out = emitResult synth room r (dr_out d)\<rparr>), (synth, room, d))
      \<in> measure (\<lambda>(synth, room, d). fcard (fmdom (dr_pending d)))"
    by (simp add: pfsubset_fcard_mono)
qed simp

declare drainReady.simps [simp del]

definition drainResult ::
  "(nat \<Rightarrow> string \<Rightarrow> gerror + string list) \<Rightarrow> (nat \<Rightarrow> bool) \<Rightarrow> translation_result \<Rightarrow> drainer \<Rightarrow> drainer" where
  "drainResult synth room result d =
     (if sp_returned (dr_out d) then d
      else drainReady synth room (d\<lparr>dr_pending := fmupd (tr_seq result) result (dr_pending d)\<rparr>))"

definition drain ::
  "(nat \<Rightarrow> string \<Rightarrow> gerror + string list) \<Rightarrow> (nat \<Rightarrow> bool) \<Rightarrow> translation_result list \<Rightarrow> speaker \<Rightarrow> speaker" where
  "drain synth room results s =
     dr_out (fold (drainResult synth room) results \<lparr>dr_pending = fmempty, dr_nextExpected = 0, dr_out = s\<rparr>)"

subsection \<open>The drainer restores the order\<close>

text \<open>The reference: emit in the order of the list, until the goroutine has returned.\<close>

definition speak ::
  "(nat \<Rightarrow> string \<Rightarrow> gerror + string list) \<Rightarrow> (nat \<Rightarrow> bool) \<Rightarrow> translation_result \<Rightarrow> speaker \<Rightarrow> speaker" where
  "speak synth room r s = (if sp_returned s then s else emitResult synth room r s)"

lemma speak_returned: "sp_returned s \<Longrightarrow> fold (speak synth room) rs s = s"
  by (induction rs) (simp_all add: speak_def)

text \<open>
  The state of a drainer that has received the results \<open>g\<close> (a map by number): those from the awaited
  number on are pending, the ones below have been emitted in order.  Once the goroutine has
  returned, only the output counts.
\<close>

definition drained ::
  "(nat \<Rightarrow> string \<Rightarrow> gerror + string list) \<Rightarrow> (nat \<Rightarrow> bool) \<Rightarrow> speaker \<Rightarrow> (nat \<rightharpoonup> translation_result) \<Rightarrow> nat \<Rightarrow> drainer \<Rightarrow> bool" where
  "drained synth room s0 g n d \<longleftrightarrow>
     {..<n} \<subseteq> dom g \<and> dr_out d = fold (speak synth room) (map (the \<circ> g) [0..<n]) s0
     \<and> (sp_returned (dr_out d) \<or>
         (dr_nextExpected d = n \<and> (\<forall>i. fmlookup (dr_pending d) i = (if i < n then None else g i))))"

lemma drained_more:
  assumes "drained synth room s0 g n d" and "sp_returned (dr_out d)" and "n \<le> m" and "{..<m} \<subseteq> dom g"
  shows "drained synth room s0 g m d"
proof -
  have "[0..<m] = [0..<n] @ [n..<m]" using assms(3) by (metis le0 upt_add_eq_append le_iff_add)
  then show ?thesis using assms by (simp add: drained_def speak_returned)
qed

lemma drainReady_drained:
  assumes "drained synth room s0 g n d"
  shows "\<exists>m \<ge> n. drained synth room s0 g m (drainReady synth room d)
    \<and> (sp_returned (dr_out (drainReady synth room d)) \<or> g m = None)"
  using assms
proof (induction synth room d arbitrary: n rule: drainReady.induct)
  case (1 synth room d)
  show ?case
  proof (cases "sp_returned (dr_out d)")
    case True
    then show ?thesis using 1(2) by (subst (1 2) drainReady.simps) auto
  next
    case run: False
    then have d: "dr_nextExpected d = n" "\<And>i. fmlookup (dr_pending d) i = (if i < n then None else g i)"
      using 1(2) by (auto simp: drained_def)
    show ?thesis
    proof (cases "g n")
      case None
      then have "drainReady synth room d = d" using d run by (subst drainReady.simps) simp
      then show ?thesis using 1(2) None by auto
    next
      case (Some r)
      let ?d = "\<lparr>dr_pending = fmdrop (dr_nextExpected d) (dr_pending d), dr_nextExpected = dr_nextExpected d + 1,
           dr_out = emitResult synth room r (dr_out d)\<rparr>"
      have look: "fmlookup (dr_pending d) (dr_nextExpected d) = Some r" using d Some by simp
      have "{..<Suc n} \<subseteq> dom g" using 1(2) Some by (auto simp: drained_def less_Suc_eq)
      then have "drained synth room s0 g (Suc n) ?d"
        using 1(2) d Some run by (auto simp: drained_def speak_def)
      from 1(1) [OF run look this] obtain m where
        m: "Suc n \<le> m" "drained synth room s0 g m (drainReady synth room ?d)"
           "sp_returned (dr_out (drainReady synth room ?d)) \<or> g m = None" by blast
      have "drainReady synth room d = drainReady synth room ?d"
        using run look by (subst drainReady.simps) simp
      then show ?thesis using m by (metis Suc_leD)
    qed
  qed
qed

lemma drainResult_drained:
  assumes "drained synth room s0 g n d" and "g (tr_seq r) = None"
  shows "\<exists>m \<ge> n. drained synth room s0 (g(tr_seq r \<mapsto> r)) m (drainResult synth room r d)
    \<and> (sp_returned (dr_out (drainResult synth room r d)) \<or> (g(tr_seq r \<mapsto> r)) m = None)"
proof -
  have k: "n \<le> tr_seq r" using assms by (force simp: drained_def not_le [symmetric])
  have same: "map (the \<circ> g(tr_seq r \<mapsto> r)) [0..<n] = map (the \<circ> g) [0..<n]"
    by (rule map_cong) (use k in auto)
  show ?thesis
  proof (cases "sp_returned (dr_out d)")
    case True
    then have "drained synth room s0 (g(tr_seq r \<mapsto> r)) n d" using assms(1) unfolding drained_def same by auto
    then show ?thesis using True by (auto simp: drainResult_def)
  next
    case False
    have "drained synth room s0 (g(tr_seq r \<mapsto> r)) n (d\<lparr>dr_pending := fmupd (tr_seq r) r (dr_pending d)\<rparr>)"
      using assms(1) k False unfolding drained_def same by auto
    from drainReady_drained [OF this] show ?thesis using False by (simp add: drainResult_def)
  qed
qed

definition received :: "translation_result list \<Rightarrow> nat \<rightharpoonup> translation_result" where
  "received rs = fold (\<lambda>r g. g(tr_seq r \<mapsto> r)) rs (\<lambda>_. None)"

lemma received_snoc: "received (rs @ [r]) = (received rs)(tr_seq r \<mapsto> r)"
  by (simp add: received_def)

lemma received_mem: "distinct (map tr_seq rs) \<Longrightarrow> received rs i = Some r \<longleftrightarrow> r \<in> set rs \<and> tr_seq r = i"
proof (induction rs rule: rev_induct)
  case (snoc x xs)
  then show ?case by (auto simp: received_snoc image_iff)
qed (simp add: received_def)

lemma received_None:
  assumes "distinct (map tr_seq rs)"
  shows "received rs i = None \<longleftrightarrow> i \<notin> tr_seq ` set rs"
proof (cases "received rs i")
  case None
  then show ?thesis using received_mem [OF assms, of i] by auto
next
  case (Some r)
  then have "r \<in> set rs" "tr_seq r = i" using received_mem [OF assms, of i r] by simp_all
  then show ?thesis using Some by auto
qed

lemma drain_drained:
  assumes "distinct (map tr_seq rs)"
  shows "\<exists>m. drained synth room s (received rs) m
      (fold (drainResult synth room) rs \<lparr>dr_pending = fmempty, dr_nextExpected = 0, dr_out = s\<rparr>)
    \<and> (sp_returned (drain synth room rs s) \<or> received rs m = None)"
  using assms
proof (induction rs rule: rev_induct)
  case Nil
  then show ?case by (intro exI [of _ 0]) (simp add: drained_def received_def)
next
  case (snoc r rs)
  let ?d = "fold (drainResult synth room) rs \<lparr>dr_pending = fmempty, dr_nextExpected = 0, dr_out = s\<rparr>"
  obtain m where "drained synth room s (received rs) m ?d" using snoc by auto
  moreover have "received rs (tr_seq r) = None" using snoc.prems by (simp add: received_None)
  ultimately show ?case using drainResult_drained [of synth room s "received rs" m ?d r]
    unfolding received_snoc drain_def by (simp del: fun_upd_apply) blast
qed

lemma drain_in_order:
  assumes "mset rs = mset js" and "map tr_seq js = [0..<length js]"
  shows "drain synth room rs s = fold (speak synth room) js s"
proof -
  let ?d = "fold (drainResult synth room) rs \<lparr>dr_pending = fmempty, dr_nextExpected = 0, dr_out = s\<rparr>"
  have seqs: "mset (map tr_seq rs) = mset [0..<length js]" using assms by (metis mset_map)
  then have dist: "distinct (map tr_seq rs)" by (metis distinct_upt mset_eq_imp_distinct_iff)
  have set: "tr_seq ` set rs = {..<length js}" using mset_eq_setD [OF seqs] by auto
  have nth: "received rs i = Some (js ! i)" if "i < length js" for i
  proof -
    have "tr_seq (js ! i) = i" using assms(2) that by (metis add_0 nth_map nth_upt)
    moreover have "js ! i \<in> set rs" using that mset_eq_setD [OF assms(1)] by simp
    ultimately show ?thesis by (simp add: received_mem [OF dist])
  qed
  obtain m where m: "drained synth room s (received rs) m ?d" "sp_returned (drain synth room rs s) \<or> received rs m = None"
    using drain_drained [OF dist] by blast
  have dom: "{..<length js} \<subseteq> dom (received rs)" using nth by blast
  have "dom (received rs) = {..<length js}" using set received_None [OF dist] by (auto simp: dom_def)
  moreover have "{..<m} \<subseteq> dom (received rs)" using m(1) by (simp add: drained_def)
  ultimately have "{..<m} \<subseteq> {..<length js}" by simp
  then have le: "m \<le> length js" by (simp add: lessThan_subset_iff)
  have "drained synth room s (received rs) (length js) ?d"
  proof (cases "sp_returned (dr_out ?d)")
    case True
    then show ?thesis by (rule drained_more [OF m(1) _ le dom])
  next
    case False
    then have "received rs m = None" using m(2) by (simp add: drain_def)
    then have "m = length js" using le nth [of m] by force
    then show ?thesis using m(1) by simp
  qed
  moreover have "map (the \<circ> received rs) [0..<length js] = js" by (rule nth_equalityI) (simp_all add: nth)
  ultimately show ?thesis by (simp add: drained_def drain_def)
qed

subsection \<open>What the fan-out accepts\<close>

definition accepted :: "(string \<Rightarrow> string option) \<Rightarrow> string \<Rightarrow> string \<Rightarrow> bool" where
  "accepted detect sourceLang t \<longleftrightarrow>
     t \<noteq> [] \<and> \<not> isPromptEcho t sourceLang \<and> isExpectedLanguage detect t sourceLang"

fun heard :: "string recv list \<Rightarrow> string list" where
  "heard [] = []"
| "heard (Recv t # rs) = t # heard rs"
| "heard (_ # rs) = []"

lemma fanOut_Recv:
  "fanOut detect lang n (Recv t # rs) =
     (if accepted detect lang t then ((n, t) # fst (fanOut detect lang (n + 1) rs), snd (fanOut detect lang (n + 1) rs))
      else fanOut detect lang n rs)"
  by (simp add: accepted_def split: prod.split)

lemma fanOut_spec:
  "fst (fanOut detect lang n rs) = enumerate n (filter (accepted detect lang) (heard rs))"
  by (induction rs arbitrary: n rule: heard.induct) (simp_all add: fanOut_Recv del: fanOut.simps(4))

lemma fanOut_ends: "snd (fanOut detect lang n rs) = ending rs"
  by (induction rs arbitrary: n rule: heard.induct) (simp_all add: fanOut_Recv del: fanOut.simps(4))

lemma heard_feed: "heard (feed (ts, b)) = ts"
  by (induction ts) (simp_all add: feed_def)

lemma translateOne_seq [simp]: "tr_seq (translateOne translate j) = fst j"
  by (simp add: translateOne_def split: sum.split)

lemma numbered: "map tr_seq (map (translateOne translate) (enumerate 0 ts)) = [0..<length ts]"
  by (simp add: comp_def enumerate_eq_zip)

subsection \<open>Properties of the translator\<close>

text \<open>
  In whatever order the concurrent translations finish, what the drainer emits (transcripts, audio,
  and where a cancelled context cuts it off) is what translating and speaking the accepted phrases
  one after the other, in the order they were spoken, would emit; every phrase that is not empty,
  not an echo of the prompt and not in a foreign language is accepted.
\<close>

theorem speech_keeps_its_order:
  assumes "mset rs = mset (map (translateOne translate) (fst (fanOut detect sourceLang 0 transcripts)))"
  shows "drain synth room rs s =
    fold (speak synth room)
      (map (translateOne translate) (enumerate 0 (filter (accepted detect sourceLang) (heard transcripts)))) s"
proof (rule drain_in_order)
  show "mset rs = mset (map (translateOne translate) (enumerate 0 (filter (accepted detect sourceLang) (heard transcripts))))"
    using assms by (simp add: fanOut_spec)
qed (simp add: numbered del: map_map)

definition echo_translate :: "nat \<Rightarrow> string \<Rightarrow> gerror + string" where
  "echo_translate n t = (if t = ''dos'' then Inl (Foreign ''timeout'') else Inr t)"

theorem speech_keeps_its_order_witness:
  "sp_transcripts (drain (\<lambda>n t. Inr [t]) (\<lambda>_. True)
      [translateOne echo_translate (2, ''tres''), translateOne echo_translate (1, ''dos''),
       translateOne echo_translate (0, ''uno'')]
      \<lparr>sp_transcripts = [], sp_audio = [], sp_left = 9, sp_returned = False\<rparr>) = [''uno'', ''tres'']"
proof -
  let ?hs = "[Recv ''uno'', Recv [], Recv ''dos'', Recv ''tres'', RecvClosed]"
  have short: "isExpectedLanguage (\<lambda>_. None) t ''xx''" for t by (simp add: isExpectedLanguage_def)
  have p: "\<not> isPromptEcho t ''xx''" for t by (simp add: isPromptEcho_def sttPromptForLang_def)
  have a: "filter (accepted (\<lambda>_. None) ''xx'') (heard ?hs) = [''uno'', ''dos'', ''tres'']"
    by (simp add: accepted_def short [simplified] p [simplified])
  have "mset [translateOne echo_translate (2, ''tres''), translateOne echo_translate (1, ''dos''),
       translateOne echo_translate (0, ''uno'')] = mset (map (translateOne echo_translate) (fst (fanOut (\<lambda>_. None) ''xx'' 0 ?hs)))"
    unfolding fanOut_spec a by (simp add: enumerate_eq_zip upt_rec eval_nat_numeral)
  from speech_keeps_its_order [OF this] show ?thesis
    unfolding a by (simp add: enumerate_eq_zip speak_def emitResult_def translateOne_def echo_translate_def upt_rec)
qed

text \<open>
  C11: from the messages of the transcription service to the speech: of the transcripts that come before
  the first fatal error and have three runes or more, as many as were forwarded before the context was
  done, those accepted are translated and spoken in the order they were heard, whatever the order in
  which the concurrent translations finish.
\<close>

theorem messages_become_speech:
  assumes "mset rs = mset (map (translateOne translate) (fst (fanOut detect sourceLang 0
      (feed (sttReceiver k (map Recv ms @ [RecvClosed]))))))"
  shows "drain synth room rs s =
    fold (speak synth room) (map (translateOne translate) (enumerate 0 (filter (accepted detect sourceLang)
      (take k (map sm_Transcript (filter stt_final (takeWhile (\<lambda>m. \<not> stt_fatal m) ms))))))) s"
proof (rule drain_in_order)
  show "mset rs = mset (map (translateOne translate) (enumerate 0 (filter (accepted detect sourceLang)
      (take k (map sm_Transcript (filter stt_final (takeWhile (\<lambda>m. \<not> stt_fatal m) ms)))))))"
    using assms by (simp add: fanOut_spec sttReceiver_spec heard_feed)
qed (simp add: numbered del: map_map)

definition said :: "string \<Rightarrow> stt_message" where
  "said t = \<lparr>sm_Type = ''conversation.item.input_audio_transcription.completed'', sm_Transcript = t, sm_ErrorCode = []\<rparr>"

definition quota :: stt_message where
  "quota = \<lparr>sm_Type = ''error'', sm_Transcript = [], sm_ErrorCode = ''insufficient_quota''\<rparr>"

theorem messages_become_speech_witness:
  "sp_transcripts (drain (\<lambda>n t. Inr [t]) (\<lambda>_. True) [translateOne echo_translate (1, ''tres''), translateOne echo_translate (0, ''uno'')]
      \<lparr>sp_transcripts = [], sp_audio = [], sp_left = 9, sp_returned = False\<rparr>) = [''uno'', ''tres'']"
proof -
  let ?ms = "[said ''uno'', said ''ah'', said ''tres'', quota, said ''cuatro'']"
  have short: "isExpectedLanguage (\<lambda>_. None) t ''xx''" for t by (simp add: isExpectedLanguage_def)
  have p: "\<not> isPromptEcho t ''xx''" for t by (simp add: isPromptEcho_def sttPromptForLang_def)
  have "rune_count ''uno'' = 3" "rune_count ''ah'' = 2" "rune_count ''tres'' = 4" by code_simp+
  then have t: "map sm_Transcript (filter stt_final (takeWhile (\<lambda>m. \<not> stt_fatal m) ?ms)) = [''uno'', ''tres'']"
    by (simp add: said_def quota_def stt_final_def stt_fatal_def stt_nonfatal_def)
  have a: "filter (accepted (\<lambda>_. None) ''xx'') (take 9 (map sm_Transcript (filter stt_final (takeWhile (\<lambda>m. \<not> stt_fatal m) ?ms))))
      = [''uno'', ''tres'']"
    unfolding t by (simp add: accepted_def short [simplified] p [simplified])
  have "mset [translateOne echo_translate (1, ''tres''), translateOne echo_translate (0, ''uno'')]
      = mset (map (translateOne echo_translate) (fst (fanOut (\<lambda>_. None) ''xx'' 0 (feed (sttReceiver 9 (map Recv ?ms @ [RecvClosed]))))))"
    unfolding fanOut_spec sttReceiver_spec heard_feed a by (simp add: enumerate_eq_zip upt_rec)
  from messages_become_speech [OF this] show ?thesis
    unfolding a by (simp add: enumerate_eq_zip speak_def emitResult_def translateOne_def echo_translate_def upt_rec)
qed

text \<open>
  The prompt given to the transcriber never reaches the translation, in any of the eleven languages
  that have one and whatever white space surrounds it; a phrase of fewer than eight runes is never
  dropped for its language.
\<close>

theorem prompt_echo_is_dropped:
  assumes "sttPromptForLang lang \<noteq> []" and "TrimSpace t = TrimSpace (sttPromptForLang lang)"
  shows "t \<notin> snd ` set (fst (fanOut detect lang 0 transcripts))"
proof -
  have "snd ` set (enumerate n xs) = set xs" for n and xs :: "string list"
    by (metis map_snd_enumerate set_map)
  then show ?thesis using assms by (simp add: fanOut_spec accepted_def isPromptEcho_def)
qed

theorem prompt_echo_is_dropped_witness:
  "'' Conversation in English.'' \<notin> snd ` set (fst (fanOut (\<lambda>_. None) ''en'' 0 [Recv '' Conversation in English.'', RecvClosed]))"
proof (rule prompt_echo_is_dropped)
  show "sttPromptForLang ''en'' \<noteq> []" by (simp add: sttPromptForLang_def)
  show "TrimSpace '' Conversation in English.'' = TrimSpace (sttPromptForLang ''en'')" by code_simp
qed

end
