(* ===== verification/Speech_Path.thy ===== *)
theory Speech_Path
  imports Codec Pipeline_Translator
begin

section \<open>From the speech API to the Opus packets\<close>

text \<open>
  The three adapters a synthesized phrase goes through, composed: \<open>OpenAITTS\<close> sends one chunk per read
  of the answer's body, the drainer of the translator forwards the chunks of a phrase, and
  \<open>OpusCodec.Encode\<close> frames them.  The chunks are bytes; the text of the answer is read as such.
\<close>

definition pcm_bytes :: "string \<Rightarrow> bytes" where
  "pcm_bytes b = map of_char b"

definition speech_packets ::
  "('d, 'e) opus_lib \<Rightarrow> nat \<Rightarrow> nat \<Rightarrow> translation_result \<Rightarrow> (string \<times> read_end) list \<Rightarrow> bytes list \<times> bool" where
  "speech_packets L k left phrase reads =
     (let audio = sp_audio (drain (\<lambda>_ _. Inr (fst (ttsStream left reads))) (\<lambda>_. True) [phrase]
            \<lparr>sp_transcripts = [], sp_audio = [], sp_left = left, sp_returned = False\<rparr>)
      in opus_Encode L k (map Recv (map pcm_bytes audio) @ [RecvClosed]))"

lemma ttsStream_sent: "length (fst (ttsStream k rs)) \<le> k"
  by (induction k rs rule: ttsStream.induct) (auto split: prod.splits read_end.splits)

lemma ttsStream_even:
  "list_all (\<lambda>r. even (length (fst r))) rs \<Longrightarrow> list_all (\<lambda>c. even (length c)) (fst (ttsStream k rs))"
  by (induction k rs rule: ttsStream.induct) (auto split: prod.splits read_end.splits)

lemma speech_packets_eq:
  assumes "NewEncoder L opusSampleRate opusChannels = Inr enc"
    and "\<not> tr_skipped phrase" and "tr_seq phrase = 0"
  shows "speech_packets L k left phrase reads =
    (take k (fst (packets L (frames (unmarshalPCM (pcm_bytes (concat
        (filter (\<lambda>c. even (length c)) (fst (ttsStream left reads))))))) enc)), True)"
proof -
  let ?s = "\<lparr>sp_transcripts = [], sp_audio = [], sp_left = left, sp_returned = False\<rparr>"
  let ?cs = "fst (ttsStream left reads)"
  have "drain (\<lambda>_ _. Inr ?cs) (\<lambda>_. True) [phrase] ?s = fold (speak (\<lambda>_ _. Inr ?cs) (\<lambda>_. True)) [phrase] ?s"
    by (rule drain_in_order) (simp_all add: assms(3))
  then have a: "sp_audio (drain (\<lambda>_ _. Inr ?cs) (\<lambda>_. True) [phrase] ?s) = ?cs"
    using assms(2) ttsStream_sent [of left reads] by (simp add: speak_def emitResult_def not_less)
  have "concat (filter (\<lambda>c. even (length c)) (map pcm_bytes cs))
      = pcm_bytes (concat (filter (\<lambda>c. even (length c)) cs))" for cs
    by (induction cs) (simp_all add: pcm_bytes_def)
  then show ?thesis by (simp add: speech_packets_def a opus_Encode_closed [OF assms(1)] del: map_map)
qed

text \<open>
  The packets of a phrase depend on how the HTTP client cuts the body into reads.  When every read
  has an even length, they are the packets of the consecutive full frames of the body; when the same
  body comes in two reads of odd length, which a network read may give, both are skipped by the
  encoder and nothing of the phrase is sent.
\<close>

theorem odd_reads_lose_the_speech:
  assumes "NewEncoder L opusSampleRate opusChannels = Inr enc"
    and "\<not> tr_skipped phrase" and "tr_seq phrase = 0"
    and "list_all (\<lambda>r. even (length (fst r))) reads" and "length reads \<le> left"
    and "ReadAll reads = a @ b" and "odd (length a)" and "odd (length b)"
  shows "speech_packets L k left phrase reads
      = (take k (fst (packets L (frames (unmarshalPCM (pcm_bytes (ReadAll reads)))) enc)), True)
    \<and> speech_packets L k left phrase [(a, ReadOn), (b, ReadEOF)] = ([], True)"
proof -
  note e = speech_packets_eq [OF assms(1-3)]
  have "filter (\<lambda>c. even (length c)) (fst (ttsStream left reads)) = fst (ttsStream left reads)"
    using ttsStream_even [OF assms(4)] by (simp add: list_all_iff filter_id_conv)
  then have one: "concat (filter (\<lambda>c. even (length c)) (fst (ttsStream left reads))) = ReadAll reads"
    using ttsStream_data [OF assms(5)] by simp
  have "a \<noteq> []" "b \<noteq> []" using assms(7,8) by auto
  then have two: "filter (\<lambda>c. even (length c)) (fst (ttsStream left [(a, ReadOn), (b, ReadEOF)])) = []"
    using assms(7,8) by simp
  show ?thesis unfolding e one two by (simp add: pcm_bytes_def frames_short)
qed

definition phrase0 :: translation_result where
  "phrase0 = \<lparr>tr_seq = 0, tr_translated = ''hola'', tr_skipped = False\<rparr>"

theorem odd_reads_lose_the_speech_witness:
  "fst (speech_packets silent_opus 9 3 phrase0 [(replicate 960 CHR ''x'', ReadEOF)]) = [[0]]
    \<and> fst (speech_packets silent_opus 9 3 phrase0
          [(replicate 1 CHR ''x'', ReadOn), (replicate 959 CHR ''x'', ReadEOF)]) = []"
proof -
  have e: "NewEncoder silent_opus opusSampleRate opusChannels = Inr 0" by (simp add: silent_opus_def)
  have f: "frames ss = [take opusFrameSize ss]" if "length ss = 480" for ss
    using that by (simp add: frames_def opusFrameSize_def)
  have l: "length (unmarshalPCM bs) = length bs div 2" for bs
    by (induction bs rule: unmarshalPCM.induct) simp_all
  have r: "replicate 960 CHR ''x'' = replicate 1 CHR ''x'' @ replicate 959 CHR ''x''"
    by (simp only: replicate_add [symmetric]) simp
  from odd_reads_lose_the_speech [OF e, of phrase0 "[(replicate 960 CHR ''x'', ReadEOF)]" 3
      "replicate 1 CHR ''x''" "replicate 959 CHR ''x''" 9] r
  show ?thesis by (simp add: phrase0_def f l pcm_bytes_def silent_opus_def)
qed

end
