(* ===== verification/Result_Channel.thy ===== *)
theory Result_Channel
  imports Pipeline_Translator
begin

section \<open>The bounded result channel of the three-stage translator\<close>

text \<open>
  \<open>Pipeline_Translator\<close> takes the results as they arrive at the drainer.  Here is the channel they
  cross: it holds sixteen, the translating goroutines send into it without watching the context, the
  fan-out waits for all of them before it closes it, and the drainer, which is its only receiver,
  returns early when the context is done while it forwards audio.
\<close>

definition resultCap :: nat where "resultCap = 16"

record results =
  rs_listening :: bool
  rs_inFlight :: "translation_result list"
  rs_resultCh :: "translation_result list"
  rs_chClosed :: bool
  rs_draining :: bool
  rs_received :: "translation_result list"

definition results_start :: results where
  "results_start = \<lparr>rs_listening = True, rs_inFlight = [], rs_resultCh = [], rs_chClosed = False,
     rs_draining = True, rs_received = []\<rparr>"

text \<open>The steps that remain once the fan-out starts no more translations and the drainer stays.\<close>

inductive result_step :: "results \<Rightarrow> results \<Rightarrow> bool" where
  send_result: "r \<in> set (rs_inFlight s) \<Longrightarrow> length (rs_resultCh s) < resultCap \<Longrightarrow>
    result_step s (s\<lparr>rs_inFlight := remove1 r (rs_inFlight s), rs_resultCh := rs_resultCh s @ [r]\<rparr>)"
| receive_result: "rs_draining s \<Longrightarrow> rs_resultCh s = r # rs \<Longrightarrow>
    result_step s (s\<lparr>rs_resultCh := rs, rs_received := rs_received s @ [r]\<rparr>)"
| close_results: "\<not> rs_listening s \<Longrightarrow> rs_inFlight s = [] \<Longrightarrow> \<not> rs_chClosed s \<Longrightarrow>
    result_step s (s\<lparr>rs_chClosed := True\<rparr>)"
| drainer_ends: "rs_draining s \<Longrightarrow> rs_chClosed s \<Longrightarrow> rs_resultCh s = [] \<Longrightarrow>
    result_step s (s\<lparr>rs_draining := False\<rparr>)"

inductive fan_step :: "results \<Rightarrow> results \<Rightarrow> bool" where
  result: "result_step s s' \<Longrightarrow> fan_step s s'"
| phrase: "rs_listening s \<Longrightarrow> fan_step s (s\<lparr>rs_inFlight := rs_inFlight s @ [r]\<rparr>)"
| listening_ends: "rs_listening s \<Longrightarrow> fan_step s (s\<lparr>rs_listening := False\<rparr>)"
| drainer_returns: "rs_draining s \<Longrightarrow> rs_received s \<noteq> [] \<Longrightarrow> fan_step s (s\<lparr>rs_draining := False\<rparr>)"

inductive_cases result_stepE: "result_step s s'"
inductive_cases fan_stepE: "fan_step s s'"

definition translated :: "results \<Rightarrow> translation_result multiset" where
  "translated s = mset (rs_inFlight s) + mset (rs_resultCh s) + mset (rs_received s)"

definition work_left :: "results \<Rightarrow> nat" where
  "work_left s = 2 * length (rs_inFlight s) + length (rs_resultCh s) + (if rs_chClosed s then 0 else 1)
     + (if rs_draining s then 1 else 0)"

lemma result_step_works: "result_step s s' \<Longrightarrow> work_left s = Suc (work_left s') \<and> translated s' = translated s
    \<and> rs_listening s' = rs_listening s"
proof (elim result_stepE)
  fix r
  assume r: "r \<in> set (rs_inFlight s)" and s': "s' = s\<lparr>rs_inFlight := remove1 r (rs_inFlight s), rs_resultCh := rs_resultCh s @ [r]\<rparr>"
  have "length (rs_inFlight s) = Suc (length (remove1 r (rs_inFlight s)))"
    using r length_pos_if_in_set [OF r] by (simp add: length_remove1)
  then show ?thesis using r by (simp add: s' work_left_def translated_def)
qed (auto simp: work_left_def translated_def)

lemma steps_work: "(result_step ^^ n) s s' \<Longrightarrow> work_left s = n + work_left s' \<and> translated s' = translated s
    \<and> rs_listening s' = rs_listening s"
proof (induction n arbitrary: s')
  case (Suc n)
  then obtain t where "(result_step ^^ n) s t" "result_step t s'" by auto
  then show ?case using Suc.IH [of t] result_step_works [of t s'] by simp
qed simp

text \<open>Where nothing can move, everything has arrived.\<close>

lemma result_step_enabled:
  assumes "\<not> rs_listening s" and "rs_draining s" and "\<forall>s'. \<not> result_step s s'"
  shows "False"
proof (cases "rs_resultCh s")
  case (Cons r rs)
  then show ?thesis using assms receive_result by blast
next
  case Nil
  show ?thesis
  proof (cases "rs_inFlight s")
    case (Cons r rs)
    then show ?thesis using assms Nil send_result [of r s] by (force simp: resultCap_def)
  next
    case none: Nil
    show ?thesis using assms Nil none close_results [of s] drainer_ends [of s] by blast
  qed
qed

definition channel_ok :: "results \<Rightarrow> bool" where
  "channel_ok s \<longleftrightarrow> length (rs_resultCh s) \<le> resultCap \<and> (rs_chClosed s \<longrightarrow> rs_inFlight s = [] \<and> \<not> rs_listening s)"

lemma channel_ok_step: "channel_ok s \<Longrightarrow> fan_step s s' \<Longrightarrow> channel_ok s'"
  by (elim fan_stepE result_stepE) (auto simp: channel_ok_def)

lemma channel_ok_runs: "fan_step\<^sup>*\<^sup>* s s' \<Longrightarrow> channel_ok s \<Longrightarrow> channel_ok s'"
  by (induction rule: rtranclp_induct) (blast intro: channel_ok_step)+

lemma results_arrive:
  "\<not> rs_listening s \<Longrightarrow> rs_draining s \<Longrightarrow>
    \<exists>s'. result_step\<^sup>*\<^sup>* s s' \<and> rs_chClosed s' \<and> mset (rs_received s') = translated s"
proof (induction "work_left s" arbitrary: s rule: less_induct)
  case less
  then obtain t where t: "result_step s t" using result_step_enabled by blast
  note w = result_step_works [OF t]
  show ?case
  proof (cases "rs_draining t")
    case True
    then obtain s' where s': "result_step\<^sup>*\<^sup>* t s'" "rs_chClosed s'" "mset (rs_received s') = translated t"
      using less.hyps [of t] w less.prems by auto
    then show ?thesis using t w by (metis converse_rtranclp_into_rtranclp)
  next
    case False
    with t less.prems have e: "rs_chClosed s" "rs_resultCh s = []" "t = s\<lparr>rs_draining := False\<rparr>"
      by (elim result_stepE; simp)+
    show ?thesis
    proof (cases "rs_inFlight s")
      case Nil
      then show ?thesis using e by (intro exI [of _ s]) (simp add: translated_def)
    next
      case (Cons r rs)
      let ?u = "s\<lparr>rs_inFlight := remove1 r (rs_inFlight s), rs_resultCh := rs_resultCh s @ [r]\<rparr>"
      have u: "result_step s ?u" using Cons e by (intro send_result) (simp_all add: resultCap_def)
      then obtain s' where "result_step\<^sup>*\<^sup>* ?u s'" "rs_chClosed s'" "mset (rs_received s') = translated ?u"
        using less.hyps [of ?u] result_step_works [OF u] less.prems by auto
      then show ?thesis using u result_step_works [OF u] by (metis converse_rtranclp_into_rtranclp)
    qed
  qed
qed

text \<open>Without its drainer the channel takes what it still has room for and no more.\<close>

definition overfull :: "results \<Rightarrow> bool" where
  "overfull s \<longleftrightarrow> \<not> rs_draining s \<and> resultCap < length (rs_inFlight s) + length (rs_resultCh s)
     \<and> length (rs_resultCh s) \<le> resultCap \<and> \<not> rs_chClosed s"

lemma overfull_step: "overfull s \<Longrightarrow> fan_step s s' \<Longrightarrow> overfull s'"
  by (elim fan_stepE result_stepE) (auto simp: overfull_def length_remove1)

lemma overfull_runs: "fan_step\<^sup>*\<^sup>* s s' \<Longrightarrow> overfull s \<Longrightarrow> overfull s'"
  by (induction rule: rtranclp_induct) (blast intro: overfull_step)+

text \<open>
  C12: once the transcripts have ended and as long as the drainer receives, every translation started
  arrives at the drainer exactly once and the channel is closed, within a bounded number of steps
  whatever their order: no goroutine is left behind.  If the drainer returns early with more than
  sixteen results outstanding, some translating goroutine stays blocked for good and the channel is
  never closed.
\<close>

theorem results_arrive_while_drained:
  assumes "fan_step\<^sup>*\<^sup>* results_start s"
  shows "(\<not> rs_listening s \<and> rs_draining s \<longrightarrow>
      (\<exists>s'. result_step\<^sup>*\<^sup>* s s' \<and> rs_chClosed s' \<and> mset (rs_received s') = translated s)
      \<and> (\<forall>n s'. (result_step ^^ n) s s' \<longrightarrow> n \<le> 2 * length (rs_inFlight s) + length (rs_resultCh s) + 2))
    \<and> (\<not> rs_draining s \<and> 16 < length (rs_inFlight s) + length (rs_resultCh s) \<longrightarrow>
      (\<forall>s'. fan_step\<^sup>*\<^sup>* s s' \<longrightarrow> rs_inFlight s' \<noteq> [] \<and> \<not> rs_chClosed s'))"
proof (intro conjI impI allI)
  fix n s'
  assume "(result_step ^^ n) s s'"
  then have "n \<le> work_left s" using steps_work by (metis le_add1)
  then show "n \<le> 2 * length (rs_inFlight s) + length (rs_resultCh s) + 2"
    by (simp add: work_left_def split: if_splits)
next
  fix s'
  assume "\<not> rs_draining s \<and> 16 < length (rs_inFlight s) + length (rs_resultCh s)"
    and run: "fan_step\<^sup>*\<^sup>* s s'"
  moreover have "channel_ok s"
    using channel_ok_runs [OF assms] by (simp add: channel_ok_def results_start_def)
  ultimately have "overfull s" by (auto simp: overfull_def channel_ok_def resultCap_def)
  from overfull_runs [OF run this] show "rs_inFlight s' \<noteq> []" "\<not> rs_chClosed s'"
    by (auto simp: overfull_def)
qed (use results_arrive in blast)

definition one_phrase :: results where
  "one_phrase = results_start\<lparr>rs_listening := False, rs_inFlight := [\<lparr>tr_seq = 0, tr_translated = ''hola'', tr_skipped = False\<rparr>]\<rparr>"

theorem results_arrive_while_drained_witness:
  "\<exists>s'. result_step\<^sup>*\<^sup>* one_phrase s' \<and> rs_chClosed s'
    \<and> mset (rs_received s') = {#\<lparr>tr_seq = 0, tr_translated = ''hola'', tr_skipped = False\<rparr>#}"
proof -
  let ?r = "\<lparr>tr_seq = 0, tr_translated = ''hola'', tr_skipped = False\<rparr>"
  let ?s = "results_start\<lparr>rs_inFlight := [?r]\<rparr>"
  have p: "fan_step results_start ?s" using phrase [of results_start ?r] by (simp add: results_start_def)
  have l: "fan_step ?s one_phrase" using listening_ends [of ?s] by (simp add: results_start_def one_phrase_def)
  have "fan_step\<^sup>*\<^sup>* results_start one_phrase" using p l by (simp add: converse_rtranclp_into_rtranclp)
  from results_arrive_while_drained [OF this] show ?thesis
    by (simp add: one_phrase_def results_start_def translated_def)
qed

end
