(* ===== verification/Loadgen_Report.thy ===== *)
theory Loadgen_Report
  imports Complex_Main "HOL-Library.Multiset"
begin

section \<open>The load generator's report: cmd/loadgen/report.go\<close>

text \<open>
  The in-place quicksort with random pivots, the nearest-rank percentile, the statistics and the status
  of a load test.  Slices are lists updated by index; an index out of range, which panics in the
  code, is \<open>None\<close>.  Measurements are reals: the rounding of \<open>float64\<close> is not modelled.  The random
  source is the parameter \<open>Intn\<close> with a state of its own.
\<close>

definition swap :: "'a list \<Rightarrow> nat \<Rightarrow> nat \<Rightarrow> 'a list" where
  "swap a i j = a[i := a ! j, j := a ! i]"

lemma length_swap [simp]: "length (swap a i j) = length a"
  by (simp add: swap_def)

lemma mset_swap_at: "i < length a \<Longrightarrow> j < length a \<Longrightarrow> mset (swap a i j) = mset a"
  unfolding swap_def by (rule mset_swap)

lemma nth_swap: "i < length a \<Longrightarrow> j < length a \<Longrightarrow> swap a i j ! k = (if k = i then a ! j else if k = j then a ! i else a ! k)"
  by (auto simp: swap_def nth_list_update)

subsection \<open>Partition\<close>

text \<open>The inner loops: \<open>i\<close> moves up over elements no larger than the pivot, \<open>j\<close> down over larger ones.\<close>

function scanUp :: "'a :: linorder list \<Rightarrow> 'a \<Rightarrow> int \<Rightarrow> int \<Rightarrow> int" where
  "scanUp a pivot i j = (if i \<le> j \<and> a ! nat i \<le> pivot then scanUp a pivot (i + 1) j else i)"
  by pat_completeness auto
termination by (relation "measure (\<lambda>(a, pivot, i, j). nat (j - i + 1))") auto

function scanDown :: "'a :: linorder list \<Rightarrow> 'a \<Rightarrow> int \<Rightarrow> int \<Rightarrow> int" where
  "scanDown a pivot i j = (if i \<le> j \<and> a ! nat j > pivot then scanDown a pivot i (j - 1) else j)"
  by pat_completeness auto
termination by (relation "measure (\<lambda>(a, pivot, i, j). nat (j - i + 1))") auto

declare scanUp.simps [simp del] scanDown.simps [simp del]

lemma scanUp_spec:
  "i \<le> j + 1 \<Longrightarrow> i \<le> scanUp a pivot i j \<and> scanUp a pivot i j \<le> j + 1
    \<and> (\<forall>k. i \<le> k \<and> k < scanUp a pivot i j \<longrightarrow> a ! nat k \<le> pivot)
    \<and> (scanUp a pivot i j \<le> j \<longrightarrow> pivot < a ! nat (scanUp a pivot i j))"
proof (induction a pivot i j rule: scanUp.induct)
  case (1 a pivot i j)
  show ?case
  proof (cases "i \<le> j \<and> a ! nat i \<le> pivot")
    case True
    then have e: "scanUp a pivot i j = scanUp a pivot (i + 1) j" by (subst scanUp.simps) simp
    have ih: "i + 1 \<le> scanUp a pivot (i + 1) j" "scanUp a pivot (i + 1) j \<le> j + 1"
      "\<And>k. i + 1 \<le> k \<Longrightarrow> k < scanUp a pivot (i + 1) j \<Longrightarrow> a ! nat k \<le> pivot"
      "scanUp a pivot (i + 1) j \<le> j \<Longrightarrow> pivot < a ! nat (scanUp a pivot (i + 1) j)"
      using 1(1) [OF True] True by auto
    have "a ! nat k \<le> pivot" if "i \<le> k" "k < scanUp a pivot (i + 1) j" for k
      using ih(3) [OF _ that(2)] that(1) True by (cases "k = i") auto
    then show ?thesis unfolding e using ih by auto
  next
    case False
    then have "scanUp a pivot i j = i" by (subst scanUp.simps) auto
    then show ?thesis using 1(2) False by auto
  qed
qed

lemma scanDown_spec:
  "i \<le> j + 1 \<Longrightarrow> scanDown a pivot i j \<le> j \<and> i \<le> scanDown a pivot i j + 1
    \<and> (\<forall>k. scanDown a pivot i j < k \<and> k \<le> j \<longrightarrow> pivot < a ! nat k)
    \<and> (i \<le> scanDown a pivot i j \<longrightarrow> a ! nat (scanDown a pivot i j) \<le> pivot)"
proof (induction a pivot i j rule: scanDown.induct)
  case (1 a pivot i j)
  show ?case
  proof (cases "i \<le> j \<and> a ! nat j > pivot")
    case True
    then have e: "scanDown a pivot i j = scanDown a pivot i (j - 1)" by (subst scanDown.simps) simp
    have ih: "scanDown a pivot i (j - 1) \<le> j - 1" "i \<le> scanDown a pivot i (j - 1) + 1"
      "\<And>k. scanDown a pivot i (j - 1) < k \<Longrightarrow> k \<le> j - 1 \<Longrightarrow> pivot < a ! nat k"
      "i \<le> scanDown a pivot i (j - 1) \<Longrightarrow> a ! nat (scanDown a pivot i (j - 1)) \<le> pivot"
      using 1(1) [OF True] True by auto
    have "pivot < a ! nat k" if "scanDown a pivot i (j - 1) < k" "k \<le> j" for k
      using ih(3) [OF that(1)] that(2) True by (cases "k = j") auto
    then show ?thesis unfolding e using ih by auto
  next
    case False
    then have "scanDown a pivot i j = j" by (subst scanDown.simps) auto
    then show ?thesis using 1(2) False by auto
  qed
qed

lemma scanUp_between: "i \<le> j + 1 \<Longrightarrow> i \<le> k \<Longrightarrow> k < scanUp a pivot i j \<Longrightarrow> a ! nat k \<le> pivot"
  using scanUp_spec [of i j a pivot] by blast

lemma scanDown_between: "i \<le> j + 1 \<Longrightarrow> scanDown a pivot i j < k \<Longrightarrow> k \<le> j \<Longrightarrow> pivot < a ! nat k"
  using scanDown_spec [of i j a pivot] by blast

lemmas scanUpD = scanUp_spec [THEN conjunct1] scanUp_spec [THEN conjunct2, THEN conjunct1]
  scanUp_spec [THEN conjunct2, THEN conjunct2, THEN conjunct2, rule_format]

lemmas scanDownD = scanDown_spec [THEN conjunct1] scanDown_spec [THEN conjunct2, THEN conjunct1]
  scanDown_spec [THEN conjunct2, THEN conjunct2, THEN conjunct2, rule_format]

text \<open>
  The outer loop, from \<open>i\<close> and \<open>j\<close> to the final \<open>j\<close>.  All the elements a round reads lie between its \<open>i\<close> and
  \<open>j\<close>, so it panics exactly when one of these is out of range.
\<close>

function partition_loop :: "'a :: linorder list \<Rightarrow> 'a \<Rightarrow> int \<Rightarrow> int \<Rightarrow> ('a list \<times> int) option" where
  "partition_loop a pivot i j =
     (if i \<le> j then
        (if i < 0 \<or> int (length a) \<le> j then None
         else (let i' = scanUp a pivot i j;
                   j' = scanDown a pivot i' j;
                   a' = (if i' < j' then swap a (nat i') (nat j') else a)
               in partition_loop a' pivot i' j'))
      else Some (a, j))"
  by pat_completeness auto
termination
proof (relation "measures [\<lambda>(a, pivot, i, j). nat (j - i + 1), \<lambda>(a, pivot, i, j). if pivot < a ! nat i then 1 else 0]")
  fix a :: "'a list" and pivot :: 'a and i j i' j' :: int and a' :: "'a list"
  assume le: "i \<le> j" and range: "\<not> (i < 0 \<or> int (length a) \<le> j)"
    and i': "i' = scanUp a pivot i j" and j': "j' = scanDown a pivot i' j"
    and a': "a' = (if i' < j' then swap a (nat i') (nat j') else a)"
  have up: "i \<le> i'" "i' \<le> j + 1" using scanUpD(1,2) [of i j a pivot] le i' by auto
  have down: "j' \<le> j" using scanDownD(1) [of i' j a pivot] up j' by auto
  show "((a', pivot, i', j'), (a, pivot, i, j))
      \<in> measures [\<lambda>(a, pivot, i, j). nat (j - i + 1), \<lambda>(a, pivot, i, j). if pivot < a ! nat i then 1 else 0]"
  proof (cases "i' = i \<and> j' = j")
    case True
    have big: "pivot < a ! nat i" using scanUpD(3) [of i j a pivot] True i' le by auto
    have small: "a ! nat j \<le> pivot" using scanDownD(3) [of i' j a pivot] True j' le by auto
    have "i < j" using big small le by (cases "i = j") auto
    then have "a' ! nat i = a ! nat j" using True a' range le by (simp add: nth_swap nat_less_iff)
    then show ?thesis using True big small by auto
  next
    case False
    then show ?thesis using up down le by auto
  qed
qed simp

declare partition_loop.simps [simp del]

text \<open>What \<open>quickSort\<close> needs of it: the slice is permuted, its first element stays, and it is split.\<close>

lemma partition_loop_spec:
  assumes "1 \<le> i" and "i \<le> j + 1" and "j < int (length a)"
    and "\<And>k. 1 \<le> k \<Longrightarrow> int k < i \<Longrightarrow> a ! k \<le> pivot"
    and "\<And>k. j < int k \<Longrightarrow> k < length a \<Longrightarrow> pivot < a ! k"
  shows "\<exists>b m. partition_loop a pivot i j = Some (b, int m) \<and> m < length a \<and> mset b = mset a \<and> b ! 0 = a ! 0
    \<and> (\<forall>k. 1 \<le> k \<and> k \<le> m \<longrightarrow> b ! k \<le> pivot) \<and> (\<forall>k. m < k \<and> k < length a \<longrightarrow> pivot < b ! k)"
  using assms
proof (induction a pivot i j rule: partition_loop.induct)
  case (1 a pivot i j)
  show ?case
  proof (cases "i \<le> j")
    case False
    then have "j = i - 1" "0 \<le> j" using 1(2,3) by auto
    moreover from this have "partition_loop a pivot i j = Some (a, int (nat j))"
      using False by (subst partition_loop.simps) simp
    ultimately show ?thesis using 1(2-6) False
      by (intro exI [of _ a] exI [of _ "nat j"]) (auto simp: nat_less_iff le_nat_iff)
  next
    case le: True
    define i' where "i' = scanUp a pivot i j"
    define j' where "j' = scanDown a pivot i' j"
    define a' where "a' = (if i' < j' then swap a (nat i') (nat j') else a)"
    have up: "i \<le> i'" "i' \<le> j + 1" using scanUpD(1,2) [of i j a pivot] le by (auto simp: i'_def)
    have down: "j' \<le> j" "i' \<le> j' + 1" using scanDownD(1,2) [of i' j a pivot] up by (auto simp: j'_def)
    have r: "\<not> (i < 0 \<or> int (length a) \<le> j)" using 1(2,4) by auto
    have step: "partition_loop a pivot i j = partition_loop a' pivot i' j'"
      using le r by (subst partition_loop.simps) (simp add: Let_def i'_def j'_def a'_def)
    have len: "length a' = length a" by (simp add: a'_def)
    have ms: "mset a' = mset a" using r up down 1(2) by (simp add: a'_def mset_swap_at)
    have keep: "a' ! k = a ! k" if "int k < i' \<or> j' < int k" for k
      using that r up down 1(2) by (auto simp: a'_def nth_swap)
    have low: "a ! k \<le> pivot" if "1 \<le> k" "int k < i'" for k
      using 1(5) [of k] scanUp_between [of i j "int k" a pivot] that le by (cases "int k < i") (auto simp: i'_def)
    have high: "pivot < a ! k" if "j' < int k" "k < length a" for k
      using 1(6) [of k] scanDown_between [of i' j a pivot "int k"] that up by (cases "j < int k") (auto simp: j'_def)
    have "\<exists>b m. partition_loop a' pivot i' j' = Some (b, int m) \<and> m < length a' \<and> mset b = mset a' \<and> b ! 0 = a' ! 0
      \<and> (\<forall>k. 1 \<le> k \<and> k \<le> m \<longrightarrow> b ! k \<le> pivot) \<and> (\<forall>k. m < k \<and> k < length a' \<longrightarrow> pivot < b ! k)"
    proof (rule 1(1) [OF le r i'_def j'_def a'_def])
      show "1 \<le> i'" "i' \<le> j' + 1" "j' < int (length a')" using up down 1(2) r len by auto
      show "a' ! k \<le> pivot" if "1 \<le> k" "int k < i'" for k using low keep that by simp
      show "pivot < a' ! k" if "j' < int k" "k < length a'" for k using high keep that len by simp
    qed
    moreover have "a' ! 0 = a ! 0" using keep [of 0] up 1(2) by simp
    ultimately show ?thesis unfolding step by (simp add: len ms)
  qed
qed

subsection \<open>Quicksort\<close>

lemma partition_length:
  "\<not> length a < 2 \<Longrightarrow> partition_loop (swap a 0 p) (swap a 0 p ! 0) 1 (int (length a) - 1) = Some (b, j)
     \<Longrightarrow> length b = length a"
  using partition_loop_spec [of 1 "int (length a) - 1" "swap a 0 p" "swap a 0 p ! 0"]
  by (fastforce dest: mset_eq_length)

function quickSort ::
  "(nat \<Rightarrow> 's \<Rightarrow> nat \<times> 's) \<Rightarrow> 'a :: linorder list \<Rightarrow> 's \<Rightarrow> ('a list \<times> 's) option" where
  "quickSort Intn a s =
     (if length a < 2 then Some (a, s)
      else (case Intn (length a) s of (pivotIdx, s1) \<Rightarrow>
        if length a \<le> pivotIdx then None
        else
          let a1 = swap a 0 pivotIdx; pivot = a1 ! 0 in
          case partition_loop a1 pivot 1 (int (length a1) - 1) of
            None \<Rightarrow> None
          | Some (a2, j) \<Rightarrow>
              (if j < 0 \<or> int (length a) \<le> j then None
               else
                 let a3 = swap a2 0 (nat j) in
                 (case quickSort Intn (take (nat j) a3) s1 of
                    None \<Rightarrow> None
                  | Some (l, s2) \<Rightarrow>
                      (case quickSort Intn (drop (nat j + 1) a3) s2 of
                         None \<Rightarrow> None
                       | Some (r, s3) \<Rightarrow> Some (l @ [a3 ! nat j] @ r, s3))))))"
  by pat_completeness auto
termination
  by (relation "measure (\<lambda>(Intn, a, s). length a)") (auto dest!: partition_length [rotated])

declare quickSort.simps [simp del]

text \<open>What \<open>math/rand\<close> documents.\<close>

definition in_range :: "(nat \<Rightarrow> 's \<Rightarrow> nat \<times> 's) \<Rightarrow> bool" where
  "in_range Intn \<longleftrightarrow> (\<forall>n s. 0 < n \<longrightarrow> fst (Intn n s) < n)"

lemma split_around:
  assumes "m < length c"
  shows "mset c = mset (take m c) + {#c ! m#} + mset (drop (m + 1) c)"
proof -
  have "c = take m c @ c ! m # drop (Suc m) c" by (rule id_take_nth_drop [OF assms])
  then have "mset c = mset (take m c @ c ! m # drop (Suc m) c)" by (rule arg_cong)
  then show ?thesis by simp
qed

lemma in_rangeD: "in_range Intn \<Longrightarrow> 0 < n \<Longrightarrow> Intn n s = (p, s') \<Longrightarrow> p < n"
  unfolding in_range_def by (metis fst_conv)

lemma quickSort_sort:
  assumes "in_range Intn"
  shows "\<exists>s'. quickSort Intn a s = Some (sort a, s')"
proof (induction a arbitrary: s rule: measure_induct_rule [where f = length])
  case (less a)
  show ?case
  proof (cases "length a < 2")
    case True
    then have "sort a = a" by (cases a; cases "tl a") auto
    then show ?thesis using True by (subst quickSort.simps) simp
  next
    case big: False
    obtain p s1 where p: "Intn (length a) s = (p, s1)" by fastforce
    have "0 < length a" using big by linarith
    then have pl: "p < length a" using in_rangeD [OF assms _ p] by simp
    define a1 where "a1 = swap a 0 p"
    have l1: "length a1 = length a" and m1: "mset a1 = mset a"
      using pl \<open>0 < length a\<close> mset_swap_at [of 0 a p] by (auto simp: a1_def)
    obtain b m where part: "partition_loop a1 (a1 ! 0) 1 (int (length a1) - 1) = Some (b, int m)"
      and b: "m < length a1" "mset b = mset a1" "b ! 0 = a1 ! 0"
        "\<And>k. 1 \<le> k \<Longrightarrow> k \<le> m \<Longrightarrow> b ! k \<le> a1 ! 0" "\<And>k. m < k \<Longrightarrow> k < length a1 \<Longrightarrow> a1 ! 0 < b ! k"
      using partition_loop_spec [of 1 "int (length a1) - 1" a1 "a1 ! 0"] big l1 by fastforce
    have lb: "length b = length a" using b(2) l1 mset_eq_length by metis
    define c where "c = swap b 0 m"
    have lc: "length c = length a" and mc: "mset c = mset a"
      using lb b(1,2) l1 m1 \<open>0 < length a\<close> mset_swap_at [of 0 b m] by (auto simp: c_def)
    have at: "c ! k = (if k = 0 then b ! m else if k = m then b ! 0 else b ! k)" for k
      unfolding c_def using \<open>0 < length a\<close> lb b(1) l1 by (intro nth_swap) simp_all
    have cm: "c ! m = a1 ! 0" using b(3) by (simp add: at)
    have left: "x \<le> c ! m" if x: "x \<in> set (take m c)" for x
    proof -
      obtain i where "i < length (take m c)" "take m c ! i = x" 
        using x unfolding in_set_conv_nth by blast
      then obtain k where k: "k < m" "x = c ! k" by auto
      then show ?thesis using b(4) [of m] b(4) [of k] cm by (cases "k = 0") (auto simp: at)
    qed
    have right: "c ! m \<le> x" if x: "x \<in> set (drop (m + 1) c)" for x
    proof -
      obtain k where k: "k < length a - (m + 1)" "x = c ! (m + 1 + k)" using x lc unfolding in_set_conv_nth by auto
      then have "x = b ! (m + 1 + k)" by (simp add: at)
      moreover have "m + 1 + k < length a" using k(1) by linarith
      ultimately show ?thesis using b(5) [of "m + 1 + k"] cm l1 by simp
    qed
    obtain s2 where s2: "quickSort Intn (take m c) s1 = Some (sort (take m c), s2)"
      using less [of "take m c" s1] lc b(1) l1 by auto
    obtain s3 where s3: "quickSort Intn (drop (m + 1) c) s2 = Some (sort (drop (m + 1) c), s3)"
      using less [of "drop (m + 1) c" s2] lc \<open>0 < length a\<close> by force
    have "quickSort Intn a s = Some (sort (take m c) @ [c ! m] @ sort (drop (m + 1) c), s3)"
      using big p pl part s2 s3 b(1) l1
      by (subst quickSort.simps) (simp add: Let_def a1_def [symmetric] c_def [symmetric])
    moreover have "sort a = sort (take m c) @ [c ! m] @ sort (drop (m + 1) c)"
    proof (rule properties_for_sort)
      show "mset (sort (take m c) @ [c ! m] @ sort (drop (m + 1) c)) = mset a"
        using split_around [of m c] lc b(1) l1 mc by simp
      show "sorted (sort (take m c) @ [c ! m] @ sort (drop (m + 1) c))"
        using left right by (fastforce simp: sorted_append)
    qed
    ultimately show ?thesis by simp
  qed
qed

subsection \<open>Statistics\<close>

record report =
  rp_Profile :: string
  rp_DurationSec :: real
  rp_TotalMessages :: int
  rp_AvgRTTMs :: real
  rp_MinRTTMs :: int
  rp_MaxRTTMs :: int
  rp_P50RTTMs :: int
  rp_P90RTTMs :: int
  rp_PacketLossPct :: real
  rp_Status :: string
  rp_Errors :: "string list"
  rp_ErrorRatePct :: real
  rp_AllRTTMs :: "real list"

text \<open>\<open>int64(x)\<close> truncates towards zero.\<close>

definition int64_of :: "real \<Rightarrow> int" where
  "int64_of x = (if x < 0 then \<lceil>x\<rceil> else \<lfloor>x\<rfloor>)"

text \<open>
  The rank \<open>int(float64(p)/100.0*float64(n-1))\<close> in exact arithmetic; for the percentiles used, 50 and 90,
  the rounding of the product never crosses an integer.
\<close>

definition percentile :: "real list \<Rightarrow> int \<Rightarrow> real" where
  "percentile xs p =
     (let n = int (length xs) in
      if n = 0 then 0
      else let idx = p * (n - 1) div 100;
               idx1 = (if idx < 0 then 0 else idx);
               idx2 = (if n \<le> idx1 then n - 1 else idx1)
           in xs ! nat idx2)"

definition computeStats :: "(nat \<Rightarrow> 's \<Rightarrow> nat \<times> 's) \<Rightarrow> report \<Rightarrow> 's \<Rightarrow> (report \<times> 's) option" where
  "computeStats Intn r s =
     (let n = length (rp_AllRTTMs r) in
      if n = 0 then Some (r, s)
      else case quickSort Intn (rp_AllRTTMs r) s of
        None \<Rightarrow> None
      | Some (sortd, s') \<Rightarrow>
          Some (r\<lparr>rp_MinRTTMs := int64_of (sortd ! 0), rp_MaxRTTMs := int64_of (sortd ! (n - 1)),
                  rp_AvgRTTMs := sum_list sortd / real n,
                  rp_P50RTTMs := int64_of (percentile sortd 50),
                  rp_P90RTTMs := int64_of (percentile sortd 90)\<rparr>, s'))"

definition computeStatus :: "report \<Rightarrow> report" where
  "computeStatus r =
     (if rp_TotalMessages r = 0 \<and> rp_Errors r \<noteq> [] then r\<lparr>rp_Status := ''failed''\<rparr>
      else if rp_TotalMessages r = 0 then r\<lparr>rp_Status := ''failed''\<rparr>
      else if rp_ErrorRatePct r > 15 \<or> rp_P90RTTMs r > 2500 then r\<lparr>rp_Status := ''failed''\<rparr>
      else if rp_ErrorRatePct r > 5 \<or> rp_P90RTTMs r > 1500 then r\<lparr>rp_Status := ''degraded''\<rparr>
      else r\<lparr>rp_Status := ''ok''\<rparr>)"

lemma int64_of_mono: "x \<le> y \<Longrightarrow> int64_of x \<le> int64_of y"
proof -
  assume xy: "x \<le> y"
  consider "y < 0" | "x < 0" "0 \<le> y" | "0 \<le> x" using xy by linarith
  then show ?thesis
  proof cases
    case 2
    then have "\<lceil>x\<rceil> \<le> 0" "0 \<le> \<lfloor>y\<rfloor>" by (simp_all add: ceiling_le_iff)
    then have "\<lceil>x\<rceil> \<le> \<lfloor>y\<rfloor>" by (rule order_trans)
    then show ?thesis using 2 by (simp add: int64_of_def)
  qed (use xy in \<open>auto simp: int64_of_def ceiling_mono floor_mono\<close>)
qed

lemma percentile_rank:
  assumes "a \<noteq> []" and "0 \<le> p" and "p \<le> 100"
  shows "percentile a p = a ! nat (p * (int (length a) - 1) div 100) \<and> nat (p * (int (length a) - 1) div 100) < length a"
proof -
  have n: "0 \<le> int (length a) - 1" using assms(1) by (cases a) auto
  have "p * (int (length a) - 1) \<le> 100 * (int (length a) - 1)" using n assms(3) by (rule mult_right_mono [rotated])
  then have "p * (int (length a) - 1) div 100 \<le> 100 * (int (length a) - 1) div 100" by (rule zdiv_mono1) simp
  then have "p * (int (length a) - 1) div 100 \<le> int (length a) - 1" by simp
  moreover have "0 \<le> p * (int (length a) - 1) div 100"
    using mult_nonneg_nonneg [OF assms(2) n] by (simp add: pos_imp_zdiv_nonneg_iff)
  ultimately show ?thesis using assms(1) by (auto simp: percentile_def Let_def)
qed

lemma percentile_mono:
  assumes "sorted a" and "a \<noteq> []" and "0 \<le> p" and "p \<le> q" and "q \<le> 100"
  shows "percentile a p \<le> percentile a q"
proof -
  have n: "0 \<le> int (length a) - 1" using assms(2) by (cases a) auto
  have "p * (int (length a) - 1) \<le> q * (int (length a) - 1)" by (rule mult_right_mono [OF assms(4) n])
  then have "p * (int (length a) - 1) div 100 \<le> q * (int (length a) - 1) div 100" by (rule zdiv_mono1) simp
  then have "nat (p * (int (length a) - 1) div 100) \<le> nat (q * (int (length a) - 1) div 100)" by (rule nat_mono)
  then show ?thesis using percentile_rank [OF assms(2), of p] percentile_rank [OF assms(2), of q] assms
    by (auto intro!: sorted_nth_mono)
qed

lemma percentile_ends: "a \<noteq> [] \<Longrightarrow> percentile a 0 = a ! 0 \<and> percentile a 100 = a ! (length a - 1)"
  using percentile_rank [of a 0] percentile_rank [of a 100] by (auto simp: nat_diff_distrib')

lemma average_between:
  assumes "sorted a" and "a \<noteq> []"
  shows "a ! 0 \<le> sum_list a / real (length a) \<and> sum_list a / real (length a) \<le> a ! (length a - 1)"
proof -
  have lo: "a ! 0 \<le> x" and hi: "x \<le> a ! (length a - 1)" if "x \<in> set a" for x
    using that assms by (auto simp: in_set_conv_nth intro!: sorted_nth_mono)
  have "sum_list (map (\<lambda>_. a ! 0) a) \<le> sum_list (map (\<lambda>x. x) a)" by (rule sum_list_mono) (rule lo)
  moreover have "sum_list (map (\<lambda>x. x) a) \<le> sum_list (map (\<lambda>_. a ! (length a - 1)) a)" by (rule sum_list_mono) (rule hi)
  ultimately show ?thesis using assms(2) by (simp add: sum_list_triv field_simps)
qed

subsection \<open>Properties of the report\<close>

text \<open>
  C39: the quicksort terminates, never indexes out of range and sorts, whatever pivots the random source
  picks.
\<close>

theorem quicksort_sorts:
  assumes "in_range Intn"
  shows "\<exists>s'. quickSort Intn a s = Some (sort a, s')"
  by (rule quickSort_sort [OF assms])

theorem quicksort_sorts_witness:
  "\<exists>s'. quickSort (\<lambda>n s. (s mod n, s + 1)) [3, 1, 2 :: int] (5 :: nat) = Some ([1, 2, 3], s')"
  using quicksort_sorts [of "\<lambda>n s. (s mod n, s + 1)" "[3, 1, 2 :: int]" 5] by (simp add: in_range_def)

text \<open>
  The statistics of a report with measurements are in order: minimum, median, 90th percentile and
  maximum do not decrease, and the average lies between the extremes up to the truncation to
  milliseconds; the pivots do not matter.
\<close>

theorem statistics_are_in_order:
  assumes "in_range Intn" and "rp_AllRTTMs r \<noteq> []"
  shows "\<exists>r' s'. computeStats Intn r s = Some (r', s')
    \<and> rp_MinRTTMs r' \<le> rp_P50RTTMs r' \<and> rp_P50RTTMs r' \<le> rp_P90RTTMs r' \<and> rp_P90RTTMs r' \<le> rp_MaxRTTMs r'
    \<and> rp_MinRTTMs r' \<le> int64_of (rp_AvgRTTMs r') \<and> int64_of (rp_AvgRTTMs r') \<le> rp_MaxRTTMs r'
    \<and> rp_P50RTTMs r' = int64_of (sort (rp_AllRTTMs r) ! (50 * (length (rp_AllRTTMs r) - 1) div 100))"
proof -
  let ?a = "sort (rp_AllRTTMs r)"
  have a: "?a \<noteq> []" "sorted ?a" using assms(2) by (metis length_0_conv length_sort) simp
  obtain s' where q: "quickSort Intn (rp_AllRTTMs r) s = Some (?a, s')" using quickSort_sort [OF assms(1)] by blast
  have "50 * (int (length ?a) - 1) div 100 = int (50 * (length (rp_AllRTTMs r) - 1) div 100)"
    using assms(2) by (cases "rp_AllRTTMs r") (simp_all add: zdiv_int)
  then have rank: "percentile ?a 50 = ?a ! (50 * (length (rp_AllRTTMs r) - 1) div 100)"
    using percentile_rank [OF a(1), of 50] by simp
  have "percentile ?a 0 \<le> percentile ?a 50" by (rule percentile_mono [OF a(2,1)]) simp_all
  moreover have "percentile ?a 50 \<le> percentile ?a 90" by (rule percentile_mono [OF a(2,1)]) simp_all
  moreover have "percentile ?a 90 \<le> percentile ?a 100" by (rule percentile_mono [OF a(2,1)]) simp_all
  ultimately have ord: "?a ! 0 \<le> percentile ?a 50" "percentile ?a 50 \<le> percentile ?a 90"
      "percentile ?a 90 \<le> ?a ! (length ?a - 1)"
    unfolding percentile_ends [OF a(1), THEN conjunct1] percentile_ends [OF a(1), THEN conjunct2] .
  show ?thesis
    using assms(2) q ord average_between [OF a(2,1)] rank by (simp add: computeStats_def Let_def int64_of_mono)
qed

definition empty_report :: report where
  "empty_report = \<lparr>rp_Profile = [], rp_DurationSec = 0, rp_TotalMessages = 0, rp_AvgRTTMs = 0, rp_MinRTTMs = 0,
     rp_MaxRTTMs = 0, rp_P50RTTMs = 0, rp_P90RTTMs = 0, rp_PacketLossPct = 0, rp_Status = [], rp_Errors = [],
     rp_ErrorRatePct = 0, rp_AllRTTMs = []\<rparr>"

theorem statistics_are_in_order_witness:
  "\<exists>r' s'. computeStats (\<lambda>n s. (s mod n, s + 1)) (empty_report\<lparr>rp_AllRTTMs := [130, 85, 100]\<rparr>) (0 :: nat) = Some (r', s')
    \<and> rp_MinRTTMs r' \<le> rp_P50RTTMs r' \<and> rp_P50RTTMs r' = 100"
  using statistics_are_in_order [of "\<lambda>n s. (s mod n, s + 1)" "empty_report\<lparr>rp_AllRTTMs := [130, 85, 100]\<rparr>" 0]
  by (auto simp: in_range_def int64_of_def)

text \<open>
  The status follows the documented thresholds: it is ok exactly with messages sent, at most five
  percent errors and at most 1500 ms at the 90th percentile, and failed exactly without messages,
  above fifteen percent or above 2500 ms.
\<close>

theorem status_thresholds:
  "rp_Status (computeStatus r) =
     (if rp_TotalMessages r \<noteq> 0 \<and> rp_ErrorRatePct r \<le> 5 \<and> rp_P90RTTMs r \<le> 1500 then ''ok''
      else if rp_TotalMessages r = 0 \<or> rp_ErrorRatePct r > 15 \<or> rp_P90RTTMs r > 2500 then ''failed''
      else ''degraded'')"
  by (auto simp: computeStatus_def)

end
