(* ===== verification/Loadgen_Session.thy ===== *)
theory Loadgen_Session
  imports Loadgen_Report Codec Go_Text
begin

section \<open>The load generator: cmd/loadgen\<close>

text \<open>
  The test tone, the simulated session with its ping loop, and the exit code of the program.  The
  WebSocket and HTTP libraries appear through the outcomes of their calls; a run of the ping loop is
  the sequence of ticks, of the timer and of the pongs handled, with their times in nanoseconds.
  Durations in seconds and milliseconds are reals, without the rounding of \<open>float64\<close>.
\<close>

subsection \<open>The tone: audio.go\<close>

definition FrameSamples :: nat where "FrameSamples = 480"

definition toneValue :: "real \<Rightarrow> nat \<Rightarrow> int" where
  "toneValue phase i = int64_of (sin (2 * pi * 440 * (phase + real i / 24000)) * 0.8 * 32767)"

definition GenerateFrame :: "real \<Rightarrow> bytes \<times> real" where
  "GenerateFrame phase =
     (marshalPCM (map (\<lambda>i. word_of_int (toneValue phase i)) [0..<FrameSamples]),
      phase + real FrameSamples / 24000)"

lemma toneValue_bounds: "\<bar>toneValue phase i\<bar> \<le> 26213"
proof -
  let ?x = "sin (2 * pi * 440 * (phase + real i / 24000)) * 0.8 * 32767"
  have "\<bar>sin (2 * pi * 440 * (phase + real i / 24000))\<bar> \<le> 1" by (rule abs_sin_le_one)
  then have "\<bar>?x\<bar> \<le> 26213.6" by (simp add: abs_mult)
  then show ?thesis unfolding toneValue_def int64_of_def by (simp split: if_split) linarith
qed

lemma length_marshalPCM: "length (marshalPCM ss) = 2 * length ss"
  by (induction ss) (simp_all add: marshalPCM_def marshalSample_def)

subsection \<open>The session: session.go\<close>

record lg_message =
  lm_Type :: string
  lm_RoomID :: string
  lm_UserID :: string
  lm_SessionID :: string
  lm_SDP :: string
  lm_Candidate :: string
  lm_Lang :: string
  lm_Message :: string

definition blankMsg :: lg_message where
  "blankMsg = \<lparr>lm_Type = [], lm_RoomID = [], lm_UserID = [], lm_SessionID = [], lm_SDP = [],
     lm_Candidate = [], lm_Lang = [], lm_Message = []\<rparr>"

definition joinMsg :: "string \<Rightarrow> string \<Rightarrow> string \<Rightarrow> lg_message" where
  "joinMsg roomID userID lang = blankMsg\<lparr>lm_Type := ''join'', lm_RoomID := roomID, lm_UserID := userID, lm_Lang := lang\<rparr>"

definition offerMsg :: "string \<Rightarrow> lg_message" where
  "offerMsg sessionID = blankMsg\<lparr>lm_Type := ''offer'', lm_SessionID := sessionID\<rparr>"

definition leaveMsg :: "string \<Rightarrow> lg_message" where
  "leaveMsg sessionID = blankMsg\<lparr>lm_Type := ''leave'', lm_SessionID := sessionID\<rparr>"

datatype ping_event = PingTick time "gerror option" | TimerFires | Pong time

record ping_state =
  ps_lastSend :: "time option"
  ps_rtts :: "real list"
  ps_pongCount :: int
  ps_totalSent :: int
  ps_errors :: "string list"
  ps_left :: bool

definition ping_start :: ping_state where
  "ping_start = \<lparr>ps_lastSend = None, ps_rtts = [], ps_pongCount = 0, ps_totalSent = 0, ps_errors = [], ps_left = False\<rparr>"

definition rttOf :: "time \<Rightarrow> time \<Rightarrow> real" where
  "rttOf now sentAt = real_of_int (now - sentAt) / 1000000"

text \<open>The loop is left when the timer fires or a ping cannot be written; pongs are handled until the connection closes.\<close>

fun ping_step :: "ping_event \<Rightarrow> ping_state \<Rightarrow> ping_state" where
  "ping_step TimerFires s = s\<lparr>ps_left := True\<rparr>"
| "ping_step (PingTick now err) s =
     (if ps_left s then s
      else let s1 = s\<lparr>ps_lastSend := Some now\<rparr>
           in case err of
                Some e \<Rightarrow> s1\<lparr>ps_errors := ps_errors s @ [''ping write error: '' @ error_text e], ps_left := True\<rparr>
              | None \<Rightarrow> s1\<lparr>ps_totalSent := ps_totalSent s + 1\<rparr>)"
| "ping_step (Pong now) s =
     (let s1 = (case ps_lastSend s of None \<Rightarrow> s | Some sentAt \<Rightarrow> s\<lparr>ps_rtts := ps_rtts s @ [rttOf now sentAt]\<rparr>)
      in s1\<lparr>ps_pongCount := ps_pongCount s + 1\<rparr>)"

record session_io =
  io_dial :: "gerror option"
  io_writeJoin :: "gerror option"
  io_readJoined :: "gerror + lg_message"
  io_pings :: "ping_event list"

definition packetLoss :: "int \<Rightarrow> int \<Rightarrow> real" where
  "packetLoss totalSent pongCount =
     (if totalSent > 0
      then let pct = real_of_int (totalSent - pongCount) / real_of_int totalSent * 100
           in if pct < 0 then 0 else pct
      else 100)"

text \<open>
  \<open>runSession\<close>: the report, the error if any and the messages sent, or \<open>None\<close> for a panic of the sort;
  \<open>userID\<close> is the random one.  The answer to the offer is read and ignored.
\<close>

definition runSession ::
  "(nat \<Rightarrow> 's \<Rightarrow> nat \<times> 's) \<Rightarrow> session_io \<Rightarrow> string \<Rightarrow> string \<Rightarrow> string \<Rightarrow> string \<Rightarrow> time \<Rightarrow> string \<Rightarrow> 's
     \<Rightarrow> (report \<times> gerror option \<times> lg_message list) option" where
  "runSession Intn io wsURL roomID userID lang duration profile s =
     (let rep = empty_report\<lparr>rp_Profile := profile\<rparr>; join = joinMsg roomID userID lang in
      case io_dial io of
        Some err \<Rightarrow> Some (rep, Some (Wrapped (''dial '' @ wsURL) err), [])
      | None \<Rightarrow>
      (case io_writeJoin io of
        Some err \<Rightarrow> Some (rep, Some (Wrapped ''write join'' err), [])
      | None \<Rightarrow>
      (case io_readJoined io of
        Inl err \<Rightarrow> Some (rep, Some (Wrapped ''read joined'' err), [join])
      | Inr joined \<Rightarrow>
        if lm_Type joined = ''error'' then Some (rep, Some (Foreign (''join rejected: '' @ lm_Message joined)), [join])
        else if lm_Type joined \<noteq> ''joined'' \<or> lm_SessionID joined = []
        then Some (rep, Some (Foreign (''unexpected join response: type='' @ lm_Type joined @ '' sessionID='' @ lm_SessionID joined)), [join])
        else
          (let sessionID = lm_SessionID joined;
               ps = fold ping_step (io_pings io) ping_start;
               rep1 = rep\<lparr>rp_Errors := ps_errors ps, rp_AllRTTMs := ps_rtts ps, rp_TotalMessages := ps_totalSent ps,
                          rp_DurationSec := real_of_int duration / 1000000000,
                          rp_PacketLossPct := packetLoss (ps_totalSent ps) (ps_pongCount ps)\<rparr>
           in case computeStats Intn rep1 s of
                None \<Rightarrow> None
              | Some (rep2, s') \<Rightarrow>
                  Some (computeStatus rep2, None, [join, offerMsg sessionID, leaveMsg sessionID])))))"

subsection \<open>The program: main.go\<close>

text \<open>
  \<open>createRoom\<close>, given how the POST ends: its error, or the status code, the status line, the body, and the
  room ID decoded from it.
\<close>

definition createRoom :: "string \<Rightarrow> gerror + (int \<times> string \<times> string \<times> (gerror + string)) \<Rightarrow> gerror + string" where
  "createRoom url post =
     (case post of
        Inl err \<Rightarrow> Inl (Wrapped (''POST '' @ url) err)
      | Inr (code, line, body, decoded) \<Rightarrow>
          if code \<noteq> 201 then Inl (Foreign (''POST '' @ url @ '': '' @ line @ '': '' @ body))
          else case decoded of
                 Inl err \<Rightarrow> Inl (Wrapped ''decoding response'' err)
               | Inr i \<Rightarrow> if i = [] then Inl (Foreign ''server returned empty room_id'') else Inr i)"

record lg_flags =
  fl_server :: string
  fl_room :: string
  fl_lang :: string
  fl_duration :: time
  fl_profile :: string
  fl_output :: string

text \<open>
  \<open>run\<close>: the exit code and the report written, if any; \<open>writeFails\<close> tells whether the output file cannot be
  written.  The report of \<open>runSession\<close> is never nil, and marshals.
\<close>

definition lg_run ::
  "(nat \<Rightarrow> 's \<Rightarrow> nat \<times> 's) \<Rightarrow> lg_flags \<Rightarrow> (gerror + (int \<times> string \<times> string \<times> (gerror + string))) \<Rightarrow> session_io
     \<Rightarrow> string \<Rightarrow> bool \<Rightarrow> 's \<Rightarrow> (int \<times> report option) option" where
  "lg_run Intn fl post io userID writeFails s =
     (if fl_duration fl \<le> 0 then Some (1, None)
      else case (if fl_room fl = [] then createRoom (''http://'' @ fl_server fl @ ''/rooms'') post else Inr (fl_room fl)) of
        Inl err \<Rightarrow> Some (1, None)
      | Inr rid \<Rightarrow>
          (case runSession Intn io (''ws://'' @ fl_server fl @ ''/ws/'' @ rid) rid userID (fl_lang fl) (fl_duration fl)
                  (fl_profile fl) s of
             None \<Rightarrow> None
           | Some (rep, err, sent) \<Rightarrow>
               (let rep1 = (case err of None \<Rightarrow> rep | Some e \<Rightarrow> rep\<lparr>rp_Errors := rp_Errors rep @ [error_text e]\<rparr>)
                in if fl_output fl \<noteq> [] \<and> writeFails then Some (1, None)
                   else Some (if rp_Status rep1 = ''failed'' then 1 else 0, Some rep1))))"

subsection \<open>Properties of the load generator\<close>

lemma sint_tone: "sint (word_of_int (toneValue phase i) :: sample) = toneValue phase i"
  using toneValue_bounds [of phase i]
  by (simp add: signed_of_int signed_take_bit_int_eq_self)

text \<open>
  A frame of the tone is 960 bytes that read back as the 480 samples of the sine, none of them
  clipped, and the phase moves on by 20 ms.
\<close>

theorem tone_does_not_clip:
  "length (fst (GenerateFrame phase)) = 960
   \<and> map sint (unmarshalPCM (fst (GenerateFrame phase))) = map (toneValue phase) [0..<480]
   \<and> list_all (\<lambda>v. \<bar>v\<bar> \<le> 26213) (map sint (unmarshalPCM (fst (GenerateFrame phase))))
   \<and> snd (GenerateFrame phase) = phase + 0.02"
proof -
  have "unmarshalPCM (fst (GenerateFrame phase)) = map (\<lambda>i. word_of_int (toneValue phase i)) [0..<480]"
    using unmarshal_marshal_PCM [of _ "[]"] by (simp add: GenerateFrame_def FrameSamples_def)
  then show ?thesis
    using toneValue_bounds [of phase]
    by (simp add: GenerateFrame_def FrameSamples_def length_marshalPCM sint_tone list_all_iff comp_def)
qed

lemma ticks:
  "fold ping_step (map (\<lambda>k. PingTick (int k * T) None) [0..<Suc n]) ping_start
     = ping_start\<lparr>ps_lastSend := Some (int n * T), ps_totalSent := int (Suc n)\<rparr>"
  by (induction n) (simp_all add: ping_start_def Let_def)

text \<open>
  A pong is timed from the last ping sent, not from the ping it answers.  With a ping every \<open>T\<close>
  (20 ms in the code), the answer to ping \<open>k\<close> that takes \<open>d\<close> is recorded as \<open>d\<close> modulo \<open>T\<close>: no
  round trip longer than the interval is ever measured.
\<close>

theorem round_trips_are_cut_off:
  assumes "0 < T" and "0 \<le> d" and "t = int k * T + d"
  shows "ps_rtts (fold ping_step (map (\<lambda>i. PingTick (int i * T) None) [0..<Suc (nat (t div T))] @ [Pong t]) ping_start)
    = [real_of_int (d mod T) / 1000000]"
proof -
  have "0 \<le> t" using assms by simp
  then have n: "int (nat (t div T)) = t div T" using assms(1) by (simp add: pos_imp_zdiv_nonneg_iff)
  have "t - t div T * T = t mod T" by (simp add: minus_div_mult_eq_mod)
  also have "\<dots> = d mod T" unfolding assms(3) by simp
  finally have d: "t - t div T * T = d mod T" .
  have "fold ping_step (map (\<lambda>i. PingTick (int i * T) None) [0..<Suc (nat (t div T))]) ping_start
      = ping_start\<lparr>ps_lastSend := Some (t div T * T), ps_totalSent := int (Suc (nat (t div T)))\<rparr>"
    using ticks [of T "nat (t div T)"] unfolding n .
  then show ?thesis unfolding fold_append comp_def by (simp add: ping_start_def Let_def rttOf_def d)
qed

theorem round_trips_are_cut_off_witness:
  "ps_rtts (fold ping_step (map (\<lambda>i. PingTick (int i * 20000000) None) [0..<Suc (nat (150000000 div 20000000))] @ [Pong 150000000])
     ping_start) = [10]"
proof -
  have "(150000000 :: int) mod 20000000 = 10000000" by simp
  then show ?thesis using round_trips_are_cut_off [of 20000000 150000000 150000000 0] by simp
qed

text \<open>
  A session in which no ping is ever answered is reported as ok, with all packets lost and exit
  code 0: the status looks at an error rate that is never set and at percentiles of no measurements.
\<close>

theorem silent_server_is_ok:
  assumes "io_dial io = None" and "io_writeJoin io = None" and "io_readJoined io = Inr joined"
    and "lm_Type joined = ''joined''" and "lm_SessionID joined \<noteq> []"
    and "io_pings io = map (\<lambda>k. PingTick (int k * T) None) [0..<Suc n] @ [TimerFires]"
    and "0 < fl_duration fl" and "fl_room fl \<noteq> []" and "fl_output fl = []"
  shows "\<exists>rep. lg_run Intn fl post io userID w s = Some (0, Some rep)
    \<and> rp_Status rep = ''ok'' \<and> rp_PacketLossPct rep = 100 \<and> rp_TotalMessages rep = int (Suc n) \<and> rp_AllRTTMs rep = []"
proof -
  have "fold ping_step (io_pings io) ping_start
      = ping_start\<lparr>ps_lastSend := Some (int n * T), ps_totalSent := int (Suc n), ps_left := True\<rparr>"
    unfolding assms(6) fold_append comp_def ticks by simp
  then show ?thesis
    using assms by (simp add: lg_run_def runSession_def Let_def computeStats_def computeStatus_def empty_report_def
        ping_start_def packetLoss_def)
qed

theorem silent_server_is_ok_witness:
  "\<exists>rep. lg_run (\<lambda>n s. (0, s)) \<lparr>fl_server = ''h'', fl_room = ''r'', fl_lang = ''es'', fl_duration = 1, fl_profile = [], fl_output = []\<rparr>
      (Inl (Foreign [])) \<lparr>io_dial = None, io_writeJoin = None,
        io_readJoined = Inr (blankMsg\<lparr>lm_Type := ''joined'', lm_SessionID := ''s''\<rparr>),
        io_pings = map (\<lambda>k. PingTick (int k * 20) None) [0..<Suc 2] @ [TimerFires]\<rparr> ''u'' False ()
    = Some (0, Some rep) \<and> rp_Status rep = ''ok'' \<and> rp_PacketLossPct rep = 100"
  using silent_server_is_ok [of "\<lparr>io_dial = None, io_writeJoin = None,
        io_readJoined = Inr (blankMsg\<lparr>lm_Type := ''joined'', lm_SessionID := ''s''\<rparr>),
        io_pings = map (\<lambda>k. PingTick (int k * 20) None) [0..<Suc 2] @ [TimerFires]\<rparr>"
      "blankMsg\<lparr>lm_Type := ''joined'', lm_SessionID := ''s''\<rparr>" 20 2
      "\<lparr>fl_server = ''h'', fl_room = ''r'', fl_lang = ''es'', fl_duration = 1, fl_profile = [], fl_output = []\<rparr>"
      "\<lambda>n s. (0, s)" "Inl (Foreign [])" "''u''" False "()"]
  by (auto simp: blankMsg_def)

text \<open>
  A session that fails before its ping loop, for instance because the server cannot be reached, ends
  with exit code 0: its report has no status, so it is not the status \<open>failed\<close> that \<open>run\<close> looks for.
\<close>

theorem failed_session_exits_zero:
  assumes "runSession Intn io (''ws://'' @ fl_server fl @ ''/ws/'' @ fl_room fl) (fl_room fl) userID (fl_lang fl)
      (fl_duration fl) (fl_profile fl) s = Some (rep, Some e, sent)"
    and "0 < fl_duration fl" and "fl_room fl \<noteq> []" and "\<not> w"
  shows "\<exists>rep'. lg_run Intn fl post io userID w s = Some (0, Some rep')
    \<and> rp_Status rep' = [] \<and> rp_Errors rep' = [error_text e]"
proof -
  have "rep = empty_report\<lparr>rp_Profile := fl_profile fl\<rparr>"
    using assms(1) by (auto simp: runSession_def Let_def split: option.splits sum.splits if_splits)
  then show ?thesis using assms by (simp add: lg_run_def Let_def empty_report_def)
qed

theorem failed_session_exits_zero_witness:
  "\<exists>rep'. lg_run (\<lambda>n s. (0, s)) \<lparr>fl_server = ''h'', fl_room = ''r'', fl_lang = ''es'', fl_duration = 1, fl_profile = [], fl_output = []\<rparr>
      (Inl (Foreign [])) \<lparr>io_dial = Some (Foreign ''refused''), io_writeJoin = None,
        io_readJoined = Inl (Foreign []), io_pings = []\<rparr> ''u'' False () = Some (0, Some rep')
    \<and> rp_Status rep' = []"
proof -
  let ?fl = "\<lparr>fl_server = ''h'', fl_room = ''r'', fl_lang = ''es'', fl_duration = 1, fl_profile = [], fl_output = []\<rparr>"
  let ?io = "\<lparr>io_dial = Some (Foreign ''refused''), io_writeJoin = None, io_readJoined = Inl (Foreign []), io_pings = []\<rparr>"
  have "runSession (\<lambda>n s. (0, s)) ?io (''ws://'' @ fl_server ?fl @ ''/ws/'' @ fl_room ?fl) (fl_room ?fl) ''u'' (fl_lang ?fl)
      (fl_duration ?fl) (fl_profile ?fl) ()
      = Some (empty_report\<lparr>rp_Profile := []\<rparr>, Some (Wrapped ''dial ws://h/ws/r'' (Foreign ''refused'')), [])"
    by (simp add: runSession_def)
  from failed_session_exits_zero [OF this, of False "Inl (Foreign [])"] show ?thesis by auto
qed

end
