(* ===== verification/Deployment.thy ===== *)
theory Deployment
  imports Server_Main Connection
begin

section \<open>The whole server: service, HTTP server, hub and connections together\<close>

text \<open>
  What \<open>run\<close> wires, running: the HTTP server with the service it manages, the hub the service notifies,
  the two pumps of every connection, and the four goroutines \<open>run\<close> starts before it listens, each of which
  returns some time after a signal has cancelled their context.  A step is an HTTP request, a message read from a connection and
  dispatched, the answer put into the queue, the end of a connection (its client taken by the hub loop,
  unregistered, the connection closed), a step of the service's own (timer, sweep, pipeline, candidate), or a step of a write pump.  What the service
  reports to its \<open>EventNotifier\<close> during a step reaches the hub in the same step, in order.

  A step of a goroutine runs to its end before the next; what finer steps add is in theory \<open>Fine_Deployment\<close>, for the
  notifications, and in theory \<open>Access_Deployment\<close>, for the calls of the service.  Nothing runs after a panic.
\<close>

record pumps =
  pm_read :: read_pump
  pm_write :: bool
  pm_open :: bool
  pm_frames :: "ws_frame list"

text \<open>\<open>hub.RunCtx\<close>, the goroutine of \<open>StartExpirationSweep\<close> and those of the two calls of \<open>StartCleanup\<close>.\<close>

datatype goroutine = HubLoop | ExpirationSweep | RoomCleanup | WsCleanup

record 'x deployment =
  dp_server :: "(mem_repo, 'x pion_peer) server"
  dp_hub :: hub
  dp_pumps :: "client_ptr \<Rightarrow> pumps"
  dp_running :: "goroutine set"
  dp_cancelled :: bool

abbreviation dp_service :: "'x deployment \<Rightarrow> (mem_repo, 'x pion_peer) service" where
  "dp_service d \<equiv> sr_manager (dp_server d)"

definition no_pumps :: pumps where
  "no_pumps = \<lparr>pm_read = ReadPumpGone, pm_write = False, pm_open = False, pm_frames = []\<rparr>"

definition started_pumps :: pumps where
  "started_pumps = \<lparr>pm_read = Reading, pm_write = True, pm_open = True, pm_frames = []\<rparr>"

text \<open>The notifications of a call, made while it ran.\<close>

definition deliver :: "notification list \<Rightarrow> hub \<Rightarrow> hub" where
  "deliver ns h = fold (\<lambda>n. hub_NotifySession (nt_SessionID n) (nt_Type n) (nt_Fields n)) ns h"

definition notified_since :: "('r, 'p) service \<Rightarrow> ('r, 'p) service \<Rightarrow> notification list" where
  "notified_since w w' = drop (length (sv_outbox w)) (sv_outbox w')"

definition serve :: "(mem_repo, 'x pion_peer) server \<Rightarrow> 'x deployment \<Rightarrow> 'x deployment" where
  "serve s' d = d\<lparr>dp_server := s',
     dp_hub := deliver (notified_since (dp_service d) (sr_manager s')) (dp_hub d)\<rparr>"

definition call :: "((mem_repo, 'x pion_peer) service) \<Rightarrow> 'x deployment \<Rightarrow> 'x deployment" where
  "call w' d = serve ((dp_server d)\<lparr>sr_manager := w'\<rparr>) d"

definition on_hub :: "(hub \<Rightarrow> hub) \<Rightarrow> 'x deployment \<Rightarrow> 'x deployment" where
  "on_hub f d = d\<lparr>dp_hub := f (dp_hub d)\<rparr>"

definition set_read :: "client_ptr \<Rightarrow> read_pump \<Rightarrow> 'x deployment \<Rightarrow> 'x deployment" where
  "set_read c r d = d\<lparr>dp_pumps := (dp_pumps d)(c := (dp_pumps d c)\<lparr>pm_read := r\<rparr>)\<rparr>"

definition close_conn :: "client_ptr \<Rightarrow> 'x deployment \<Rightarrow> 'x deployment" where
  "close_conn c d = d\<lparr>dp_pumps := (dp_pumps d)(c := (dp_pumps d c)\<lparr>pm_open := False\<rparr>)\<rparr>"

text \<open>
  \<open>dispatch\<close> after the handler, cut where it waits for room in the queue: the binding of a joined
  session, and the answer still to be sent.
\<close>

fun bindAnswer :: "client_ptr \<Rightarrow> gerror + signaling_message \<Rightarrow> hub \<Rightarrow> hub" where
  "bindAnswer c (Inl e) h = h"
| "bindAnswer c (Inr resp) h =
     (if msg_Type resp = ''joined'' \<and> msg_SessionID resp \<noteq> [] then bindSession c (msg_SessionID resp) h else h)"

fun toSend :: "gerror + signaling_message \<Rightarrow> read_pump" where
  "toSend (Inl e) = Replying (errorResponse (error_text e))"
| "toSend (Inr resp) = (if msg_Type resp = [] then Reading else Replying (Response resp))"

lemma dispatch_in_two_parts:
  "dispatchResult c (Some a) h =
     (case toSend a of Replying m \<Rightarrow> sendClient c m (bindAnswer c a h) | _ \<Rightarrow> Some (bindAnswer c a h))"
  by (cases a) (auto simp: dispatchResult_def Let_def)

text \<open>A connection of the deployment as theory \<open>Connection\<close> sees it.\<close>

definition connection_of :: "client_ptr \<Rightarrow> wire_msg list \<Rightarrow> 'x deployment \<Rightarrow> connection" where
  "connection_of c accepted d =
     \<lparr>cn_send = cl_send (hb_store (dp_hub d) c), cn_sendClosed = cl_closed (hb_store (dp_hub d) c),
      cn_readPump = pm_read (dp_pumps d c), cn_writePump = pm_write (dp_pumps d c),
      cn_open = pm_open (dp_pumps d c), cn_frames = pm_frames (dp_pumps d c), cn_accepted = accepted\<rparr>"

definition written :: "client_ptr \<Rightarrow> connection \<Rightarrow> 'x deployment \<Rightarrow> 'x deployment" where
  "written c s d = d\<lparr>
     dp_hub := setClient c ((hb_store (dp_hub d) c)\<lparr>cl_send := cn_send s\<rparr>) (dp_hub d),
     dp_pumps := (dp_pumps d)(c := (dp_pumps d c)\<lparr>pm_write := cn_writePump s, pm_open := cn_open s,
       pm_frames := cn_frames s\<rparr>)\<rparr>"

text \<open>
  What \<open>uuid.NewString\<close> gives is no ID in use, also not that of a session that is gone but still known to
  a timer or to the hub.  A new client is an object nobody points to.
\<close>

definition unused :: "'x deployment \<Rightarrow> string \<Rightarrow> bool" where
  "unused d i \<longleftrightarrow> fresh_uuid (dp_service d) i \<and> sv_graceTimers (dp_service d) i = None
     \<and> hb_sessionClients (dp_hub d) i = None"

definition new_client :: "client_ptr \<Rightarrow> 'x deployment \<Rightarrow> bool" where
  "new_client c d \<longleftrightarrow> c \<notin> hb_clients (dp_hub d) \<and> (\<forall>sid. hb_sessionClients (dp_hub d) sid \<noteq> Some c)
     \<and> pm_read (dp_pumps d c) = ReadPumpGone \<and> \<not> pm_write (dp_pumps d c)"

text \<open>The hub loop waits at its channels: it has no client in hand that it is still to unregister.\<close>

definition loop_idle :: "'x deployment \<Rightarrow> bool" where
  "loop_idle d \<longleftrightarrow> HubLoop \<in> dp_running d \<and> (\<forall>c. pm_read (dp_pumps d c) \<noteq> Taken)"

text \<open>The calls the service makes to itself; the others come with requests and messages.\<close>

fun of_its_own :: "service_call \<Rightarrow> bool" where
  "of_its_own (CallTimer sid) = True"
| "of_its_own CallSweep = True"
| "of_its_own (CallSpawned n) = True"
| "of_its_own (CallHalf a) = True"
| "of_its_own (CallTranscripts sid ts) = True"
| "of_its_own (CallCandidate sid c) = True"
| "of_its_own _ = False"

text \<open>
  \<open>D\<close> says which messages the clients send.  A \<open>request\<close> for a WebSocket that is not followed by a client is one
  whose upgrade fails, or whose handler waits for a hub loop that has returned.
\<close>

inductive deployment_step ::
  "(mem_repo \<Rightarrow> string list) \<Rightarrow> 'x pion_api \<Rightarrow> ('x deployment \<Rightarrow> client_ptr \<Rightarrow> signaling_message \<Rightarrow> bool)
     \<Rightarrow> 'x deployment \<Rightarrow> 'x deployment \<Rightarrow> bool"
  for ord L D where
  request: "env_ok E \<Longrightarrow> unused d (ev_uuid E)
    \<Longrightarrow> handle (mem_repository ord) (pion_webrtc_peer L) E rq r (dp_server d) = (out, s')
    \<Longrightarrow> deployment_step ord L D d (serve s' d)"
| upgraded: "env_ok E \<Longrightarrow> unused d (ev_uuid E)
    \<Longrightarrow> handle (mem_repository ord) (pion_webrtc_peer L) E rq (GetWS i) (dp_server d) = (Upgrade i, s')
    \<Longrightarrow> new_client c d \<Longrightarrow> loop_idle d
    \<Longrightarrow> deployment_step ord L D d
      ((on_hub (\<lambda>h. registerClient c (serveWS c i h)) (serve s' d))\<lparr>dp_pumps := (dp_pumps d)(c := started_pumps)\<rparr>)"
| bad_json: "pm_read (dp_pumps d c) = Reading \<Longrightarrow> pm_open (dp_pumps d c)
    \<Longrightarrow> deployment_step ord L D d (set_read c (Replying (errorResponse ''invalid JSON'')) d)"
| dispatched: "env_ok E \<Longrightarrow> unused d (ev_uuid E) \<Longrightarrow> pm_read (dp_pumps d c) = Reading \<Longrightarrow> pm_open (dp_pumps d c)
    \<Longrightarrow> D d c m
    \<Longrightarrow> HandleSignaling (mem_repository ord) (pion_webrtc_peer L) E m (dp_service d) = (Return a, w')
    \<Longrightarrow> deployment_step ord L D d (set_read c (toSend a) (on_hub (bindAnswer c a) (call w' d)))"
| handler_panics: "env_ok E \<Longrightarrow> unused d (ev_uuid E) \<Longrightarrow> pm_read (dp_pumps d c) = Reading \<Longrightarrow> pm_open (dp_pumps d c)
    \<Longrightarrow> D d c m
    \<Longrightarrow> HandleSignaling (mem_repository ord) (pion_webrtc_peer L) E m (dp_service d) = (Panic, w')
    \<Longrightarrow> deployment_step ord L D d (on_hub (\<lambda>h. h\<lparr>hb_crashed := True\<rparr>) (call w' d))"
| replied: "pm_read (dp_pumps d c) = Replying m \<Longrightarrow> sendClient c m (dp_hub d) = Some h'
    \<Longrightarrow> deployment_step ord L D d (set_read c Reading (d\<lparr>dp_hub := h'\<rparr>))"
| read_failed: "pm_read (dp_pumps d c) = Reading \<Longrightarrow> deployment_step ord L D d (set_read c Unregistering d)"
| taken: "pm_read (dp_pumps d c) = Unregistering \<Longrightarrow> loop_idle d \<Longrightarrow> deployment_step ord L D d (set_read c Taken d)"
| closed_early: "pm_read (dp_pumps d c) = Taken \<Longrightarrow> deployment_step ord L D d (close_conn c d)"
| unregistered: "env_ok E \<Longrightarrow> unused d (ev_uuid E) \<Longrightarrow> pm_read (dp_pumps d c) = Taken
    \<Longrightarrow> unregisterClient c (dp_hub d) = (gone, h')
    \<Longrightarrow> w' = (case gone of None \<Rightarrow> dp_service d | Some sid \<Rightarrow> OnDisconnect E sid (dp_service d))
    \<Longrightarrow> HubLoop \<in> dp_running d
    \<Longrightarrow> deployment_step ord L D d
      (call w' (set_read c Closing (d\<lparr>dp_hub := h'\<rparr>)))"
| closed: "pm_read (dp_pumps d c) = Closing \<Longrightarrow> deployment_step ord L D d (set_read c ReadPumpGone (close_conn c d))"
| background: "env_ok E \<Longrightarrow> unused d (ev_uuid E) \<Longrightarrow> of_its_own k
    \<Longrightarrow> (k = CallSweep \<longrightarrow> ExpirationSweep \<in> dp_running d)
    \<Longrightarrow> deployment_step ord L D d (call (perform (mem_repository ord) (pion_webrtc_peer L) E k (dp_service d)) d)"
| ice_failed: "deployment_step ord L D d (on_hub (onICEFailed sid) d)"
| room_cleanup: "RoomCleanup \<in> dp_running d \<Longrightarrow> deployment_step ord L D d (d\<lparr>dp_server := (dp_server d)
      \<lparr>sr_roomLimiter := map_option (Cleanup t) (sr_roomLimiter (dp_server d))\<rparr>\<rparr>)"
| ws_cleanup: "WsCleanup \<in> dp_running d \<Longrightarrow> deployment_step ord L D d (d\<lparr>dp_server := (dp_server d)
      \<lparr>sr_wsLimiter := map_option (Cleanup t) (sr_wsLimiter (dp_server d))\<rparr>\<rparr>)"
| signalled: "deployment_step ord L D d (d\<lparr>dp_cancelled := True\<rparr>)"
| returned: "dp_cancelled d \<Longrightarrow> g = HubLoop \<longrightarrow> (\<forall>c. pm_read (dp_pumps d c) \<noteq> Taken)
    \<Longrightarrow> deployment_step ord L D d (d\<lparr>dp_running := dp_running d - {g}\<rparr>)"
| write_pump: "write_step (connection_of c accepted d) s \<Longrightarrow> deployment_step ord L D d (written c s d)"

inductive deployment_reach ::
  "(string \<Rightarrow> string) \<Rightarrow> (mem_repo \<Rightarrow> string list) \<Rightarrow> 'x pion_api
     \<Rightarrow> ('x deployment \<Rightarrow> client_ptr \<Rightarrow> signaling_message \<Rightarrow> bool) \<Rightarrow> 'x deployment \<Rightarrow> bool"
  for getenv ord L D where
  started: "wire_up getenv x = Inr (s, h, codec)
    \<Longrightarrow> deployment_reach getenv ord L D \<lparr>dp_server = s, dp_hub = h, dp_pumps = (\<lambda>_. no_pumps),
       dp_running = UNIV, dp_cancelled = False\<rparr>"
| runs: "deployment_reach getenv ord L D d \<Longrightarrow> \<not> hb_crashed (dp_hub d) \<Longrightarrow> deployment_step ord L D d d'
    \<Longrightarrow> deployment_reach getenv ord L D d'"

text \<open>
  Two disciplines: none, and that of the mobile client, which joins once per connection and only the room
  of its URL.
\<close>

definition anything :: "'x deployment \<Rightarrow> client_ptr \<Rightarrow> signaling_message \<Rightarrow> bool" where
  "anything d c m = True"

definition like_the_app :: "'x deployment \<Rightarrow> client_ptr \<Rightarrow> signaling_message \<Rightarrow> bool" where
  "like_the_app d c m \<longleftrightarrow> (msg_Type m = ''join'' \<longrightarrow>
     cl_sessionID (hb_store (dp_hub d) c) = [] \<and> msg_RoomID m = cl_roomID (hb_store (dp_hub d) c))"

lemma deployment_step_mono:
  "deployment_step ord L D d d' \<Longrightarrow> (\<And>d c m. D d c m \<Longrightarrow> D' d c m) \<Longrightarrow> deployment_step ord L D' d d'"
  by (induction rule: deployment_step.induct) (blast intro: deployment_step.intros)+

lemma deployment_reach_mono:
  "deployment_reach getenv ord L D d \<Longrightarrow> (\<And>d c m. D d c m \<Longrightarrow> D' d c m) \<Longrightarrow> deployment_reach getenv ord L D' d"
  by (induction rule: deployment_reach.induct) (blast intro: deployment_reach.intros deployment_step_mono)+

subsection \<open>What a step leaves alone\<close>

lemma hub_NotifySession_frame [frame_simps]:
  "hb_clients (hub_NotifySession sid t f h) = hb_clients h"
  "hb_sessionClients (hub_NotifySession sid t f h) = hb_sessionClients h"
  "hb_roomClients (hub_NotifySession sid t f h) = hb_roomClients h"
  "cl_roomID (hb_store (hub_NotifySession sid t f h) p) = cl_roomID (hb_store h p)"
  "cl_sessionID (hb_store (hub_NotifySession sid t f h) p) = cl_sessionID (hb_store h p)"
  "cl_closed (hb_store (hub_NotifySession sid t f h) p) = cl_closed (hb_store h p)"
  by (simp_all add: hub_NotifySession_def frame_simps split: option.split)

lemma deliver_Nil [simp]: "deliver [] h = h"
  by (simp add: deliver_def)

lemma deliver_Cons [simp]:
  "deliver (n # ns) h = deliver ns (hub_NotifySession (nt_SessionID n) (nt_Type n) (nt_Fields n) h)"
  by (simp add: deliver_def)

lemma deliver_frame [frame_simps]:
  "hb_clients (deliver ns h) = hb_clients h"
  "hb_sessionClients (deliver ns h) = hb_sessionClients h"
  "hb_roomClients (deliver ns h) = hb_roomClients h"
  "cl_roomID (hb_store (deliver ns h) p) = cl_roomID (hb_store h p)"
  "cl_sessionID (hb_store (deliver ns h) p) = cl_sessionID (hb_store h p)"
  "cl_closed (hb_store (deliver ns h) p) = cl_closed (hb_store h p)"
  by (induction ns arbitrary: h) (simp_all add: frame_simps)

lemma serve_sel [simp]:
  "dp_server (serve s' d) = s'" "dp_pumps (serve s' d) = dp_pumps d"
  "dp_hub (serve s' d) = deliver (notified_since (dp_service d) (sr_manager s')) (dp_hub d)"
  by (simp_all add: serve_def)

lemma call_sel [simp]:
  "dp_server (call w' d) = (dp_server d)\<lparr>sr_manager := w'\<rparr>" "dp_pumps (call w' d) = dp_pumps d"
  "dp_hub (call w' d) = deliver (notified_since (dp_service d) w') (dp_hub d)"
  by (simp_all add: call_def)

lemma on_hub_sel [simp]:
  "dp_server (on_hub f d) = dp_server d" "dp_pumps (on_hub f d) = dp_pumps d" "dp_hub (on_hub f d) = f (dp_hub d)"
  by (simp_all add: on_hub_def)

lemma set_read_sel [simp]:
  "dp_server (set_read c r d) = dp_server d" "dp_hub (set_read c r d) = dp_hub d"
  "pm_read (dp_pumps (set_read c r d) p) = (if p = c then r else pm_read (dp_pumps d p))"
  by (simp_all add: set_read_def)

lemma close_conn_sel [simp]:
  "dp_server (close_conn c d) = dp_server d" "dp_hub (close_conn c d) = dp_hub d" "dp_running (close_conn c d) = dp_running d"
  "pm_read (dp_pumps (close_conn c d) p) = pm_read (dp_pumps d p)"
  by (simp_all add: close_conn_def)

lemma written_sel [simp]:
  "dp_server (written c s d) = dp_server d" "pm_read (dp_pumps (written c s d) p) = pm_read (dp_pumps d p)"
  by (simp_all add: written_def)

lemma notified_since_same [simp]: "sv_outbox w' = sv_outbox w \<Longrightarrow> notified_since w w' = []"
  by (simp add: notified_since_def)

text \<open>A write pump takes the first message off the queue, or nothing.\<close>

lemma written_hub:
  assumes "write_step (connection_of c accepted d) s"
  shows "dp_hub (written c s d) = dp_hub d \<or> dp_hub (written c s d) = hub_step (dp_hub d) (Written c)"
  using assms
  by (elim write_stepE)
     (auto simp: connection_of_def written_def writePumpTakes_def setClient_def writePumpEnds_def fun_upd_idem)

subsection \<open>The server and the hub of a deployment\<close>

lemma joined_by_join:
  assumes "HandleSignaling R P E m w = (Return (Inr resp), w')" and "msg_Type resp = ''joined''"
  shows "msg_Type m = ''join''"
  using assms
  by (auto simp: HandleSignaling_def handleOffer_def errorMessage_def empty_message_def
      split: if_splits prod.splits option.splits sum.splits go_result.splits)

lemma deployment_step_server:
  assumes s: "server_reach getenv ord L (dp_server d)" and step: "deployment_step ord L D d d'"
  shows "server_reach getenv ord L (dp_server d')"
proof -
  let ?R = "mem_repository ord" and ?P = "pion_webrtc_peer L"
  have own: "server_reach getenv ord L ((dp_server d)\<lparr>sr_manager := perform ?R ?P E k (dp_service d)\<rparr>)"
    if "env_ok E" "unused d (ev_uuid E)" for E k
    using server_reach.background [OF s that(1)] that(2) by (simp add: unused_def)
  have req: "server_reach getenv ord L s'"
    if "env_ok E" "unused d (ev_uuid E)" "handle ?R ?P E rq r (dp_server d) = (out, s')" for E rq r out s'
    using server_reach.request [OF s that(1), of rq r] that(2,3) by (simp add: unused_def)
  from step show ?thesis
  proof cases
    case (upgraded E rq i s' c)
    then show ?thesis using req [OF upgraded(2,3,4)] by simp
  next
    case (dispatched E c m a w')
    then show ?thesis using own [of E "CallSignal m"] by simp
  next
    case (handler_panics E c m w')
    then show ?thesis using own [of E "CallSignal m"] by simp
  next
    case (unregistered E c gone h' w')
    show ?thesis
    proof (cases gone)
      case None
      then show ?thesis using unregistered(1,6) s by simp
    next
      case (Some sid)
      then show ?thesis using unregistered(1,6) own [OF unregistered(2,3), of "CallDrop sid"] by simp
    qed
  qed (use s own req in \<open>auto intro: server_reach.intros\<close>)
qed

lemma deployment_server:
  "deployment_reach getenv ord L D d \<Longrightarrow> server_reach getenv ord L (dp_server d)"
  by (induction rule: deployment_reach.induct) (auto intro: server_reach.listening deployment_step_server)

lemma deployment_service:
  "deployment_reach getenv ord L D d \<Longrightarrow> service_reach ord (pion_webrtc_peer L) (dp_service d) \<and> sr_hub (dp_server d)"
  by (rule server_reach_service) (rule deployment_server)

lemma server_never_panics:
  assumes "server_reach getenv ord L (dp_server d)"
  shows "HandleSignaling (mem_repository ord) (pion_webrtc_peer L) E m (dp_service d) \<noteq> (Panic, w')"
proof -
  have "consistent (sv_repo (dp_service d)) (dp_service d)"
    using server_reach_service [OF assms] service_reach_consistent by blast
  then have "fst (HandleSignaling (mem_repository ord) (pion_webrtc_peer L) E m (dp_service d)) \<noteq> Panic"
    by (intro HandleSignaling_no_panic) (rule consistentD)
  then show ?thesis by (metis fst_conv)
qed

lemmas no_handler_panic = server_never_panics [OF deployment_server]

text \<open>What a discipline on the messages says of the events of the hub: \<open>A\<close> restricts joins only.\<close>

definition disciplined ::
  "('x deployment \<Rightarrow> client_ptr \<Rightarrow> signaling_message \<Rightarrow> bool) \<Rightarrow> (hub \<Rightarrow> hub_event \<Rightarrow> bool) \<Rightarrow> bool" where
  "disciplined D A \<longleftrightarrow>
     (\<forall>d c m h sid. D d c m \<longrightarrow> msg_Type m = ''join''
        \<longrightarrow> cl_sessionID (hb_store h c) = cl_sessionID (hb_store (dp_hub d) c) \<longrightarrow> A h (Joined c sid))
     \<and> (\<forall>h ev. (\<forall>c sid. ev \<noteq> Joined c sid) \<longrightarrow> A h ev)"

lemma anything_disciplined: "disciplined D any_join"
  by (simp add: disciplined_def)

lemma app_disciplined: "disciplined like_the_app single_join"
proof -
  have "single_join h ev" if "\<forall>c sid. ev \<noteq> Joined c sid" for h ev using that by (cases ev) auto
  then show ?thesis by (auto simp: disciplined_def like_the_app_def)
qed

lemma disciplinedD:
  assumes "disciplined D A"
  shows "D d c m \<Longrightarrow> msg_Type m = ''join'' \<Longrightarrow> cl_sessionID (hb_store h c) = cl_sessionID (hb_store (dp_hub d) c)
      \<Longrightarrow> A h (Joined c sid)"
    and "\<forall>c sid. ev \<noteq> Joined c sid \<Longrightarrow> A h ev"
  using assms unfolding disciplined_def by blast+

definition pumps_match :: "'x deployment \<Rightarrow> bool" where
  "pumps_match d \<longleftrightarrow> (\<forall>c. c \<in> hb_clients (dp_hub d) \<longleftrightarrow> pm_read (dp_pumps d c) \<notin> {Closing, ReadPumpGone})"

lemma deliver_reach:
  assumes "disciplined D A"
  shows "hub_reach A h \<Longrightarrow> hub_reach A (deliver ns h)"
proof (induction ns arbitrary: h)
  case (Cons n ns)
  have "hub_reach A (hub_step h (NotifyEv (nt_SessionID n) (nt_Type n) (nt_Fields n)))"
    by (rule hub_reach.event [OF Cons.prems]) (simp_all add: disciplinedD(2) [OF assms])
  then show ?case by (simp add: Cons.IH)
qed simp

lemma bindAnswer_reach:
  assumes "disciplined D A" and "hub_reach A h" and "c \<in> hb_clients h" and "D d c m"
    and "cl_sessionID (hb_store h c) = cl_sessionID (hb_store (dp_hub d) c)"
    and "\<And>resp. a = Inr resp \<Longrightarrow> msg_Type resp = ''joined'' \<Longrightarrow> msg_Type m = ''join''"
  shows "hub_reach A (bindAnswer c a h)"
proof (cases "\<exists>resp. a = Inr resp \<and> msg_Type resp = ''joined'' \<and> msg_SessionID resp \<noteq> []")
  case True
  then obtain resp where r: "a = Inr resp" "msg_Type resp = ''joined''" "msg_SessionID resp \<noteq> []" by blast
  have "hub_reach A (hub_step h (Joined c (msg_SessionID resp)))"
    by (rule hub_reach.event [OF assms(2)])
       (use assms(3) r disciplinedD(1) [OF assms(1,4) assms(6) [OF r(1,2)] assms(5)] in auto)
  then show ?thesis by (simp add: r)
next
  case False
  then have "bindAnswer c a h = h" by (cases a) auto
  then show ?thesis using assms(2) by simp
qed

lemma bindAnswer_clients [simp]: "hb_clients (bindAnswer c a h) = hb_clients h"
  by (cases a) (simp_all add: bindSession_fields)

lemma toSend_alive [simp]: "toSend a \<noteq> Closing" "toSend a \<noteq> ReadPumpGone" "toSend a \<noteq> Taken"
  by (cases a; simp)+

lemma setClient_clients [simp]: "hb_clients (setClient c cl h) = hb_clients h"
  by (simp add: setClient_def)

lemma sendClient_clients: "sendClient c m h = Some h' \<Longrightarrow> hb_clients h' = hb_clients h"
  by (auto simp: sendClient_def Let_def split: if_splits)

lemma pumps_match_step:
  assumes "pumps_match d" and "deployment_step ord L D d d'"
  shows "pumps_match d'"
  using assms(2)
proof cases
  case (unregistered E c gone h' w')
  have c: "c \<in> hb_clients (dp_hub d)" using assms(1) unregistered(4) by (simp add: pumps_match_def)
  have "hb_clients h' = hb_clients (dp_hub d) - {c}"
    using unregisterClient_after(2) [OF c] unregistered(5) by simp
  then show ?thesis using assms(1) unregistered(1) by (auto simp: pumps_match_def frame_simps)
next
  case (write_pump c accepted s)
  then show ?thesis using assms(1) by (simp add: pumps_match_def) (simp add: written_def)
qed (use assms(1) in \<open>auto simp: pumps_match_def frame_simps registerClient_fields started_pumps_def
      sendClient_clients onICEFailed_def\<close>)

lemma deployment_hub_step:
  assumes A: "disciplined D A" and h: "hub_reach A (dp_hub d)" and m: "pumps_match d"
    and no: "\<And>E msg w. HandleSignaling (mem_repository ord) (pion_webrtc_peer L) E msg (dp_service d) \<noteq> (Panic, w)"
    and "deployment_step ord L D d d'"
  shows "hub_reach A (dp_hub d')"
  using assms(5)
proof cases
  case (upgraded E rq i s' c)
  let ?h = "dp_hub (serve s' d)"
  have "hub_reach A (hub_step ?h (Connect c i))"
    by (rule hub_reach.event)
       (use upgraded(5) in \<open>simp_all add: deliver_reach [OF A h] disciplinedD(2) [OF A] new_client_def frame_simps\<close>)
  then show ?thesis by (simp add: upgraded(1))
next
  case (dispatched E c msg a w')
  have "hub_reach A (bindAnswer c a (dp_hub (call w' d)))"
    by (rule bindAnswer_reach [OF A _ _ dispatched(6)])
       (use m dispatched(4,7) joined_by_join in
         \<open>auto simp: deliver_reach [OF A h] frame_simps pumps_match_def\<close>)
  then show ?thesis by (simp add: dispatched(1))
next
  case (replied c x h')
  have "hub_reach A (hub_step (dp_hub d) (Replied c x))"
    by (rule hub_reach.event [OF h]) (use m replied(2) in \<open>simp_all add: pumps_match_def disciplinedD(2) [OF A]\<close>)
  then show ?thesis by (simp add: replied(1,3))
next
  case (unregistered E c gone h' w')
  have "hub_reach A (hub_step (dp_hub d) (Gone c))"
    by (rule hub_reach.event [OF h]) (use m unregistered(4) in \<open>simp_all add: pumps_match_def disciplinedD(2) [OF A]\<close>)
  then show ?thesis using deliver_reach [OF A] unregistered(5) by (simp add: unregistered(1))
next
  case (ice_failed sid)
  have "hub_reach A (hub_step (dp_hub d) (NotifyEv sid ''error''
       [(''code'', ''ice-failed''), (''message'', ''ICE connection failed''), (''session_id'', sid)]))"
    by (rule hub_reach.event [OF h]) (simp_all add: disciplinedD(2) [OF A])
  then show ?thesis by (simp add: ice_failed onICEFailed_def)
next
  case (write_pump c accepted s)
  have "hub_reach A (hub_step (dp_hub d) (Written c))"
    by (rule hub_reach.event [OF h]) (simp_all add: disciplinedD(2) [OF A])
  then show ?thesis using written_hub [OF write_pump(2)] h by (auto simp: write_pump(1))
qed (use h no deliver_reach [OF A h] in auto)

lemma deployment_hub:
  assumes A: "disciplined D A"
  shows "deployment_reach getenv ord L D d \<Longrightarrow> hub_reach A (dp_hub d) \<and> pumps_match d"
proof (induction rule: deployment_reach.induct)
  case (started x s h codec)
  then have "h = NewHub" by (auto simp: wire_up_def Let_def split: sum.splits)
  then show ?case by (simp add: hub_reach.start pumps_match_def no_pumps_def) (simp add: NewHub_def)
next
  case (runs d d')
  then show ?case
    using deployment_hub_step [OF A _ _ no_handler_panic [OF runs.hyps(1)]] pumps_match_step by blast
qed

end
