(* ===== verification/Deployment_Rooms.thy ===== *)
theory Deployment_Rooms
  imports Deployment Service_Properties
begin

section \<open>Rooms, timers and connections of the whole server\<close>

text \<open>
  The invariants that tie the bindings of the hub to the sessions of the service, and what they say of
  who is told what: a bound session lies in the room its connection was opened for, and a session with
  a running grace timer is bound to no connection.
\<close>

subsection \<open>What the calls of the service carry over\<close>

text \<open>No session appears or changes its room or user, and no timer appears.\<close>

definition carried :: "('r, 'p) service \<Rightarrow> ('r, 'p) service \<Rightarrow> bool" where
  "carried w w' \<longleftrightarrow>
     (\<forall>sid s'. sv_sessions w' sid = Some s' \<longrightarrow> (\<exists>s. sv_sessions w sid = Some s \<and> se_RoomID s' = se_RoomID s
          \<and> se_UserID s' = se_UserID s))
     \<and> (\<forall>sid. sv_graceTimers w sid = None \<longrightarrow> sv_graceTimers w' sid = None)"

lemma carried_same [simp]:
  "sv_sessions w' = sv_sessions w \<Longrightarrow> sv_graceTimers w' = sv_graceTimers w \<Longrightarrow> carried w w'"
  by (simp add: carried_def)

lemma carried_trans: "carried u v \<Longrightarrow> carried v w \<Longrightarrow> carried u w"
  unfolding carried_def by metis

lemma carried_NotifySession [simp]: "carried w (NotifySession sid t f w') \<longleftrightarrow> carried w w'"
  by (simp add: carried_def frame_simps)

lemma carried_CreateRoom: "carried w (snd (CreateRoom R E a b w))"
  using CreateRoom_frame [of _ _ R E a b w] by (metis carried_same prod.collapse)

lemma carried_DeleteRoom: "carried w (snd (DeleteRoom R P E i w))"
  by (auto simp: carried_def DeleteRoom_def Let_def frame_simps dropLoop_sessions
      split: sum.splits prod.splits option.splits if_splits)

lemma carried_LeaveRoom: "carried w (snd (LeaveRoom R P E i u w))"
  by (auto simp: carried_def LeaveRoom_def Let_def frame_simps Disconnect_def
      split: option.splits sum.splits prod.splits if_splits)

lemma carried_sweepLoop: "carried w (sweepLoop R P E ps w)"
  by (induction ps arbitrary: w) (auto intro: carried_trans carried_DeleteRoom)

lemma carried_runTimer: "carried w (runTimer R P E sid w)"
proof (cases "sv_graceTimers w sid")
  case (Some t)
  let ?w = "w\<lparr>sv_graceTimers := (sv_graceTimers w)(sid := None),
     sv_events := sv_events w @ [SessionEnd sid (gt_roomID t) (se_UserID (gt_sess t))
                       (duration_sec E (gt_sess t)) ''timeout'']\<rparr>"
  have "carried w ?w" by (auto simp: carried_def)
  from carried_trans [OF this carried_DeleteRoom]
  show ?thesis using Some by (simp add: runTimer_def graceTimerFires_def Let_def)
qed (simp add: runTimer_def)

lemma carried_applyAction: "carried w (applyAction a w)"
  by (cases a) (auto simp: logSessionError_def Let_def carried_def frame_simps split: option.split)

lemma forwardTranscripts_timers [frame_simps]: "sv_graceTimers (forwardTranscripts t ts w) = sv_graceTimers w"
  by (induction ts arbitrary: w) (simp_all add: forwardTranscripts_def NotifySession_def)

lemma carried_of_its_own: "of_its_own k \<Longrightarrow> carried w (perform R P E k w)"
  by (cases k) (simp_all add: carried_runTimer carried_applyAction carried_sweepLoop sweepExpiredRooms_def
      localCandidate_def frame_simps split: sum.split)

lemma carried_handle: "carried (sr_manager s) (sr_manager (snd (handle R P E rq r s)))"
  unfolding handle_manager
  using carried_DeleteRoom [of "sr_manager s"] carried_CreateRoom [of "sr_manager s"]
  by (auto split: route.split option.split)

lemma handle_outbox: "sv_outbox (sr_manager (snd (handle R P E rq r s))) = sv_outbox (sr_manager s)"
proof -
  have "sv_outbox (snd (CreateRoom R E a b w)) = sv_outbox w" for a b and w :: "('a, 'b) service"
    using CreateRoom_frame [of _ _ R E a b w] by (metis prod.collapse)
  moreover have "sv_outbox (snd (DeleteRoom R P E i w)) = sv_outbox w" for i and w :: "('a, 'b) service"
    by (auto simp: DeleteRoom_def Let_def frame_simps split: sum.split prod.split option.split)
  ultimately show ?thesis unfolding handle_manager by (simp split: route.split option.split)
qed

lemma carried_signal:
  assumes "HandleSignaling R P E m w = (x, w')" and "msg_Type m \<noteq> ''join''"
  shows "carried w w'"
  using assms carried_LeaveRoom [of w R P E] handleOffer_frame [of P m w]
  by (auto simp: HandleSignaling_def split: if_splits prod.splits option.splits go_result.splits)
     (metis carried_same snd_conv)+

text \<open>A join that succeeds: the session is there, in that room, and no timer of it runs.\<close>

lemma JoinRoom_opened:
  assumes c: "consistent (sv_repo w) w" and E: "env_ok E" and new: "sv_graceTimers w (ev_uuid E) = None"
    and J: "JoinRoom (mem_repository ord) P E i u lang w = (Inr sid, w')"
  shows "(\<exists>s. sv_sessions w' sid = Some s \<and> se_RoomID s = i) \<and> sv_graceTimers w' sid = None
    \<and> (sv_sessions w' = sv_sessions w \<or> sid = ev_uuid E \<and> sv_sessions w' = (sv_sessions w)(sid \<mapsto> NewSession sid i u lang (ev_now E)))"
  using J
proof (cases rule: JoinRoom_InrE)
  case (new p r')
  from openSession_Inr [OF new(5)] show ?thesis
    using assms(3) by (auto simp: frame_simps cancelGraceTimersForRoom_def fold_map_delete NewSession_def)
next
  case (reconnect p)
  have "sv_repo w i = Some p" using reconnect(1) by (simp add: mem.find_Inr_iff)
  from key_room_session [OF c rooms_soundD(3) [OF consistentD(4) [OF c] this] reconnect(5)] obtain s where s: "s \<in> room_sessions w i" "se_ID s = sid" by blast
  then show ?thesis
    using room_sessions_iff [OF c, of s i]
    by (auto simp: reconnect(6) frame_simps cancelGrace_timers [OF c E])
next
  case (reopen p)
  from openSession_Inr [OF reopen(6)] show ?thesis
    using assms(3) by (auto simp: frame_simps cancelGraceTimersForRoom_def fold_map_delete NewSession_def)
qed

lemma JoinRoom_timers_kept: "sv_graceTimers w sid = None \<Longrightarrow> sv_graceTimers (snd (JoinRoom R P E i u lang w)) sid = None"
  using JoinRoom_timers [of R P E i u lang w] by (auto simp: cancelGraceTimersForRoom_def fold_map_delete)

lemma handleJoin_opened:
  assumes c: "consistent (sv_repo w) w" and E: "env_ok E" and new: "sv_graceTimers w (ev_uuid E) = None"
    and J: "handleJoin (mem_repository ord) P E m w = (resp, w')"
  shows "(msg_Type resp = ''joined'' \<longrightarrow> sv_graceTimers w' (msg_SessionID resp) = None
      \<and> (\<exists>s. sv_sessions w' (msg_SessionID resp) = Some s \<and> se_RoomID s = msg_RoomID m))
    \<and> (\<forall>sid. sv_graceTimers w sid = None \<longrightarrow> sv_graceTimers w' sid = None)
    \<and> (\<forall>sid s'. sv_sessions w' sid = Some s' \<longrightarrow> sid \<noteq> ev_uuid E \<longrightarrow>
          (\<exists>s. sv_sessions w sid = Some s \<and> se_RoomID s' = se_RoomID s))"
proof (cases "JoinRoom (mem_repository ord) P E (msg_RoomID m) (msg_UserID m) (msg_Lang m) w")
  case (Pair x w1)
  note kept = JoinRoom_timers_kept [of w _ "mem_repository ord" P E "msg_RoomID m" "msg_UserID m" "msg_Lang m"]
  show ?thesis
  proof (cases x)
    case (Inl e)
    with Pair have "sv_sessions w1 = sv_sessions w" using JoinRoom_Inl by blast
    then show ?thesis
      using J kept Pair Inl by (auto simp: handleJoin_def errorMessage_def empty_message_def)
  next
    case (Inr sid)
    from JoinRoom_opened [OF c E new Pair [unfolded Inr]] show ?thesis
      using J kept unfolding handleJoin_def Pair Inr
      by (fastforce simp: Let_def frame_simps empty_message_def split: option.splits if_splits)
  qed
qed

subsection \<open>The invariants\<close>

definition timers_unbound :: "'x deployment \<Rightarrow> bool" where
  "timers_unbound d \<longleftrightarrow> (\<forall>sid. sv_graceTimers (dp_service d) sid \<noteq> None \<longrightarrow> hb_sessionClients (dp_hub d) sid = None)"

definition rooms_bound :: "'x deployment \<Rightarrow> bool" where
  "rooms_bound d \<longleftrightarrow> (\<forall>sid c s. hb_sessionClients (dp_hub d) sid = Some c \<longrightarrow>
     sv_sessions (dp_service d) sid = Some s \<longrightarrow> se_RoomID s = cl_roomID (hb_store (dp_hub d) c))"

text \<open>Bindings are at most lost, and a bound client keeps its room.\<close>

definition rebound :: "hub \<Rightarrow> hub \<Rightarrow> bool" where
  "rebound h h' \<longleftrightarrow> (\<forall>sid c. hb_sessionClients h' sid = Some c \<longrightarrow>
     hb_sessionClients h sid = Some c \<and> cl_roomID (hb_store h' c) = cl_roomID (hb_store h c))"

lemma rebound_refl [simp]: "rebound h h"
  by (simp add: rebound_def)

lemma rebound_deliver [simp]: "rebound h (deliver ns h') \<longleftrightarrow> rebound h h'"
  by (simp add: rebound_def frame_simps)

lemma rebound_NotifySession [simp]: "rebound h (hub_NotifySession sid t f h') \<longleftrightarrow> rebound h h'"
  by (simp add: rebound_def frame_simps)

lemma rebound_sendClient: "sendClient c m h = Some h' \<Longrightarrow> rebound h h'"
  by (auto simp: sendClient_def Let_def setClient_def rebound_def split: if_splits)

lemma rebound_register: "\<forall>sid. hb_sessionClients h sid \<noteq> Some c \<Longrightarrow> rebound h (registerClient c (serveWS c i h))"
  by (auto simp: rebound_def hub_defs Let_def)

lemma fold_trySend_roomID [frame_simps]:
  "cl_roomID (hb_store (fold (\<lambda>p. trySendClient p m) ps h) q) = cl_roomID (hb_store h q)"
  "cl_sessionID (hb_store (fold (\<lambda>p. trySendClient p m) ps h) q) = cl_sessionID (hb_store h q)"
  by (induction ps arbitrary: h) (simp_all add: frame_simps)

lemma rebound_unregister:
  assumes "c \<in> hb_clients h"
  shows "rebound h (snd (unregisterClient c h))"
  using removeClient_fields [OF assms]
  by (auto simp: rebound_def unregisterClient_eq [OF assms] frame_simps split: if_splits)

lemma rebound_written: "write_step (connection_of c accepted d) s \<Longrightarrow> rebound (dp_hub d) (dp_hub (written c s d))"
  by (auto simp: rebound_def written_def setClient_def)

lemma invariants_kept:
  assumes "carried (dp_service d) (dp_service d')" and "rebound (dp_hub d) (dp_hub d')"
  shows "timers_unbound d \<Longrightarrow> timers_unbound d'" and "rooms_bound d \<Longrightarrow> rooms_bound d'"
proof -
  show "timers_unbound d \<Longrightarrow> timers_unbound d'"
    using assms unfolding timers_unbound_def carried_def rebound_def by (metis not_None_eq)
  show "rooms_bound d \<Longrightarrow> rooms_bound d'"
    using assms unfolding rooms_bound_def carried_def rebound_def by metis
qed

text \<open>Every step but the answer to a join and the start of a grace timer.\<close>

lemma step_kept:
  assumes "deployment_step ord L D d d'" and "pumps_match d"
    and panic: "\<And>E m w. HandleSignaling (mem_repository ord) (pion_webrtc_peer L) E m (dp_service d) \<noteq> (Panic, w)"
  shows "carried (dp_service d) (dp_service d') \<and> rebound (dp_hub d) (dp_hub d')
    \<or> (\<exists>E c m a w'. env_ok E \<and> unused d (ev_uuid E) \<and> D d c m \<and> msg_Type m = ''join'' \<and> c \<in> hb_clients (dp_hub d)
         \<and> HandleSignaling (mem_repository ord) (pion_webrtc_peer L) E m (dp_service d) = (Return a, w')
         \<and> d' = set_read c (toSend a) (on_hub (bindAnswer c a) (call w' d)))
    \<or> (\<exists>E c sid. HubLoop \<in> dp_running d \<and> c \<in> hb_clients (dp_hub d) \<and> cl_sessionID (hb_store (dp_hub d) c) = sid \<and> sid \<noteq> []
         \<and> dp_service d' = OnDisconnect E sid (dp_service d) \<and> dp_hub d' = snd (unregisterClient c (dp_hub d)))"
  using assms(1)
proof cases
  case (request E rq r out s')
  then show ?thesis using carried_handle [of "dp_server d" "mem_repository ord" "pion_webrtc_peer L" E rq r] by simp
next
  case (upgraded E rq i s' c)
  then show ?thesis
    using carried_handle [of "dp_server d" "mem_repository ord" "pion_webrtc_peer L" E rq "GetWS i"]
      handle_outbox [of "mem_repository ord" "pion_webrtc_peer L" E rq "GetWS i" "dp_server d"]
    by (simp add: rebound_register new_client_def del: handle.simps)
next
  case (dispatched E c m a w')
  show ?thesis
  proof (cases "msg_Type m = ''join''")
    case True
    have "c \<in> hb_clients (dp_hub d)" using dispatched(4) assms(2) by (simp add: pumps_match_def)
    then show ?thesis using dispatched(1-3,6,7) True by blast
  next
    case False
    have "bindAnswer c a h = h" for h
      using joined_by_join [of "mem_repository ord" "pion_webrtc_peer L" E m "dp_service d" _ w'] dispatched(7) False
      by (cases a) auto
    then show ?thesis using carried_signal [OF dispatched(7) False] by (simp add: dispatched(1))
  qed
next
  case (handler_panics E c m w')
  then show ?thesis using panic by blast
next
  case (replied c m h')
  then show ?thesis by (simp add: rebound_sendClient)
next
  case (unregistered E c gone h' w')
  have c: "c \<in> hb_clients (dp_hub d)" using assms(2) unregistered(4) by (simp add: pumps_match_def)
  have g: "gone = (if cl_sessionID (hb_store (dp_hub d) c) \<noteq> [] then Some (cl_sessionID (hb_store (dp_hub d) c)) else None)"
    "h' = snd (unregisterClient c (dp_hub d))"
    using unregistered(5) by (simp_all add: unregisterClient_eq [OF c])
  have "sv_outbox w' = sv_outbox (dp_service d)"
    using unregistered(6) by (auto simp: OnDisconnect_def split: option.split)
  then show ?thesis
    using c g unregistered(1,6,7) rebound_unregister [OF c] by (auto simp: call_def serve_def notified_since_def split: if_splits)
next
  case (background E k)
  then show ?thesis by (simp add: carried_of_its_own)
next
  case (ice_failed sid)
  then show ?thesis by (simp add: onICEFailed_def)
next
  case (write_pump c accepted s)
  then show ?thesis by (simp add: rebound_written)
qed simp_all

lemma bindAnswer_joined:
  "hb_sessionClients (bindAnswer c (Inr resp) h) sid =
     (if msg_Type resp = ''joined'' \<and> msg_SessionID resp \<noteq> [] \<and> sid = msg_SessionID resp then Some c
      else hb_sessionClients h sid)"
  "cl_roomID (hb_store (bindAnswer c a h) p) = cl_roomID (hb_store h p)"
  by (simp add: bindSession_fields, cases a) (simp_all add: bindSession_fields)

lemma invariants_joined:
  assumes c: "consistent (sv_repo (dp_service d)) (dp_service d)" and E: "env_ok E" and new: "unused d (ev_uuid E)"
    and j: "msg_Type m = ''join''"
    and H: "HandleSignaling (mem_repository ord) P E m (dp_service d) = (Return a, w')"
    and d': "d' = set_read cl (toSend a) (on_hub (bindAnswer cl a) (call w' d))"
  shows "timers_unbound d \<Longrightarrow> timers_unbound d'"
    and "rooms_bound d \<Longrightarrow> msg_RoomID m = cl_roomID (hb_store (dp_hub d) cl) \<Longrightarrow> rooms_bound d'"
proof -
  obtain resp where a: "a = Inr resp" and J: "handleJoin (mem_repository ord) P E m (dp_service d) = (resp, w')"
    using H j by (auto simp: HandleSignaling_def split: prod.splits)
  have n: "sv_graceTimers (dp_service d) (ev_uuid E) = None" "hb_sessionClients (dp_hub d) (ev_uuid E) = None"
    using new by (simp_all add: unused_def)
  note o = handleJoin_opened [OF c E n(1) J]
  have opened: "msg_Type resp = ''joined'' \<Longrightarrow> sv_graceTimers w' (msg_SessionID resp) = None
      \<and> (\<exists>t. sv_sessions w' (msg_SessionID resp) = Some t \<and> se_RoomID t = msg_RoomID m)"
    using o by (elim conjE) (erule mp)
  have timer: "sv_graceTimers w' sid \<noteq> None \<Longrightarrow> sv_graceTimers (dp_service d) sid \<noteq> None" for sid
    using o by (elim conjE) metis
  have session: "sv_sessions w' sid = Some t \<Longrightarrow> sid \<noteq> ev_uuid E \<Longrightarrow>
      \<exists>u. sv_sessions (dp_service d) sid = Some u \<and> se_RoomID t = se_RoomID u" for sid t
    using o by (elim conjE) (erule allE, erule allE, erule (1) impE, erule (1) mp)
  have s: "dp_service d' = w'" by (simp add: d')
  have b: "hb_sessionClients (dp_hub d') sid =
      (if msg_Type resp = ''joined'' \<and> msg_SessionID resp \<noteq> [] \<and> sid = msg_SessionID resp then Some cl
       else hb_sessionClients (dp_hub d) sid)"
    "cl_roomID (hb_store (dp_hub d') p) = cl_roomID (hb_store (dp_hub d) p)" for sid p
    by (simp_all add: d' a bindAnswer_joined frame_simps del: bindAnswer.simps)
  show "timers_unbound d'" if "timers_unbound d"
    unfolding timers_unbound_def s b
  proof (intro allI impI)
    fix sid
    assume t: "sv_graceTimers w' sid \<noteq> None"
    then have "hb_sessionClients (dp_hub d) sid = None"
      using that timer [OF t] unfolding timers_unbound_def by metis
    moreover have "\<not> (msg_Type resp = ''joined'' \<and> msg_SessionID resp \<noteq> [] \<and> sid = msg_SessionID resp)"
      using t opened by metis
    ultimately show "(if msg_Type resp = ''joined'' \<and> msg_SessionID resp \<noteq> [] \<and> sid = msg_SessionID resp then Some cl
       else hb_sessionClients (dp_hub d) sid) = None" by simp
  qed
  show "rooms_bound d'" if "rooms_bound d" "msg_RoomID m = cl_roomID (hb_store (dp_hub d) cl)"
    unfolding rooms_bound_def s b
  proof (intro allI impI)
    fix sid p t
    assume B: "(if msg_Type resp = ''joined'' \<and> msg_SessionID resp \<noteq> [] \<and> sid = msg_SessionID resp then Some cl
       else hb_sessionClients (dp_hub d) sid) = Some p" and S: "sv_sessions w' sid = Some t"
    show "se_RoomID t = cl_roomID (hb_store (dp_hub d) p)"
    proof (cases "msg_Type resp = ''joined'' \<and> msg_SessionID resp \<noteq> [] \<and> sid = msg_SessionID resp")
      case True
      then show ?thesis using opened B S that(2) by auto
    next
      case False
      then have old: "hb_sessionClients (dp_hub d) sid = Some p" using B by (simp only: if_False)
      then have "sid \<noteq> ev_uuid E" using n(2) by auto
      then obtain u where "sv_sessions (dp_service d) sid = Some u" "se_RoomID t = se_RoomID u"
        using session [OF S] by blast
      then show ?thesis using old that(1) by (simp add: rooms_bound_def)
    qed
  qed
qed

lemma OnDisconnect_timers:
  "sv_graceTimers (OnDisconnect E sid w) i \<noteq> None \<Longrightarrow> i \<noteq> sid \<Longrightarrow> sv_graceTimers w i \<noteq> None"
  "sv_sessions (OnDisconnect E sid w) = sv_sessions w"
  by (auto simp: OnDisconnect_def split: option.splits if_splits)

lemma invariants_gone:
  assumes c: "cl \<in> hb_clients (dp_hub d)" and sid: "cl_sessionID (hb_store (dp_hub d) cl) = sid" "sid \<noteq> []"
    and d': "dp_service d' = OnDisconnect E sid (dp_service d)" "dp_hub d' = snd (unregisterClient cl (dp_hub d))"
  shows "timers_unbound d \<Longrightarrow> timers_unbound d'" and "rooms_bound d \<Longrightarrow> rooms_bound d'"
proof -
  have b: "hb_sessionClients (dp_hub d') = (hb_sessionClients (dp_hub d))(sid := None)"
    using unregisterClient_after(3) [OF c] by (simp add: d'(2) sid)
  have r: "rebound (dp_hub d) (dp_hub d')" using rebound_unregister [OF c] by (simp add: d'(2))
  show "timers_unbound d \<Longrightarrow> timers_unbound d'"
    using OnDisconnect_timers(1) [of E sid "dp_service d"] by (auto simp: timers_unbound_def b d'(1))
  show "rooms_bound d \<Longrightarrow> rooms_bound d'"
    using r unfolding rooms_bound_def d'(1) OnDisconnect_timers(2) rebound_def by metis
qed

lemma deployment_consistent:
  "deployment_reach getenv ord L D d \<Longrightarrow> consistent (sv_repo (dp_service d)) (dp_service d)"
  using deployment_service service_reach_consistent by blast

lemma deployment_pumps: "deployment_reach getenv ord L D d \<Longrightarrow> hub_reach any_join (dp_hub d) \<and> pumps_match d"
  by (rule deployment_hub) (simp add: disciplined_def)

lemma deployment_timers: "deployment_reach getenv ord L D d \<Longrightarrow> timers_unbound d"
proof (induction rule: deployment_reach.induct)
  case (started x s h codec)
  then show ?case
    by (auto simp: wire_up_def Let_def NewServer_def NewHub_def timers_unbound_def split: sum.splits)
next
  case (runs d d')
  note c = deployment_consistent [OF runs.hyps(1)]
  from step_kept [OF runs.hyps(3) conjunct2 [OF deployment_pumps [OF runs.hyps(1)]] no_handler_panic [OF runs.hyps(1)]]
  show ?case
    using invariants_kept(1) [OF _ _ runs.IH] invariants_joined(1) [OF c _ _ _ _ _ runs.IH] invariants_gone(1) [OF _ _ _ _ _ runs.IH]
    by blast
qed

lemma deployment_rooms: "deployment_reach getenv ord L like_the_app d \<Longrightarrow> rooms_bound d"
proof (induction rule: deployment_reach.induct)
  case (started x s h codec)
  then show ?case by (auto simp: wire_up_def Let_def NewHub_def rooms_bound_def split: sum.splits)
next
  case (runs d d')
  note c = deployment_consistent [OF runs.hyps(1)]
  from step_kept [OF runs.hyps(3) conjunct2 [OF deployment_pumps [OF runs.hyps(1)]] no_handler_panic [OF runs.hyps(1)]]
  consider (kept) "carried (dp_service d) (dp_service d')" "rebound (dp_hub d) (dp_hub d')"
    | (joined) E p m a w' where "env_ok E" "unused d (ev_uuid E)" "like_the_app d p m" "msg_Type m = ''join''"
        "HandleSignaling (mem_repository ord) (pion_webrtc_peer L) E m (dp_service d) = (Return a, w')"
        "d' = set_read p (toSend a) (on_hub (bindAnswer p a) (call w' d))"
    | (gone) E p sid where "p \<in> hb_clients (dp_hub d)" "cl_sessionID (hb_store (dp_hub d) p) = sid" "sid \<noteq> []"
        "dp_service d' = OnDisconnect E sid (dp_service d)" "dp_hub d' = snd (unregisterClient p (dp_hub d))"
    by blast
  then show ?case
  proof cases
    case kept
    then show ?thesis using invariants_kept(2) runs.IH by blast
  next
    case joined
    then show ?thesis
      using invariants_joined(2) [OF c joined(1,2,4,5,6) runs.IH] by (simp add: like_the_app_def)
  next
    case gone
    then show ?thesis using invariants_gone(2) runs.IH by blast
  qed
qed

subsection \<open>The queues of the clients\<close>

lemma app_hub_ok: "deployment_reach getenv ord L like_the_app d \<Longrightarrow> hub_ok (dp_hub d)"
  using deployment_hub [OF app_disciplined] hub_reach_ok by blast

definition told :: "notification \<Rightarrow> wire_msg" where
  "told n = notifyMessage (nt_Type n) (nt_Fields n)"

lemma NotifySession_queue:
  assumes "hub_ok h"
  shows "cl_send (hb_store (hub_NotifySession sid t f h) c) =
    (if hb_sessionClients h sid = Some c \<and> length (cl_send (hb_store h c)) < sendBufferSize
     then cl_send (hb_store h c) @ [notifyMessage t f] else cl_send (hb_store h c))"
  using hub_okD(1,3) [OF assms]
  by (auto simp: hub_NotifySession_def notifyLookup_def trySendClient_queue sessions_bound_def clients_open_def
      split: option.split)

lemma deliver_queue:
  "hub_ok h \<Longrightarrow> \<exists>ms. cl_send (hb_store (deliver ns h) c) = cl_send (hb_store h c) @ ms
     \<and> set ms \<subseteq> told ` {n \<in> set ns. hb_sessionClients h (nt_SessionID n) = Some c}"
proof (induction ns arbitrary: h)
  case (Cons n ns)
  let ?h = "hub_NotifySession (nt_SessionID n) (nt_Type n) (nt_Fields n) h"
  obtain ms where ms: "cl_send (hb_store (deliver ns ?h) c) = cl_send (hb_store ?h c) @ ms"
      "set ms \<subseteq> told ` {n \<in> set ns. hb_sessionClients h (nt_SessionID n) = Some c}"
    using Cons.IH [OF hub_NotifySession_ok [OF Cons.prems]] unfolding hub_NotifySession_frame by blast
  show ?case
    using ms NotifySession_queue [OF Cons.prems, of "nt_SessionID n" "nt_Type n" "nt_Fields n" c]
    by (cases "cl_send (hb_store ?h c) = cl_send (hb_store h c)") (auto simp: told_def split: if_splits)
qed simp

lemma bindAnswer_queue [simp]:
  "cl_send (hb_store (bindAnswer c a h) p) = cl_send (hb_store h p)"
  "cl_closed (hb_store (bindAnswer c a h) p) = cl_closed (hb_store h p)"
  by (cases a; simp add: bindSession_fields)+

lemma register_store: "p \<noteq> c \<Longrightarrow> hb_store (registerClient p (serveWS p i h)) c = hb_store h c"
  by (simp add: hub_defs Let_def)

text \<open>
  Three things are put into the queue of a connected client: its own answer, word that a peer of its room has left, and
  notifications for a session bound to it.
\<close>

definition own_answer :: "'x deployment \<Rightarrow> client_ptr \<Rightarrow> wire_msg list \<Rightarrow> bool" where
  "own_answer d c ms \<longleftrightarrow> (\<exists>m. ms = [m] \<and> pm_read (dp_pumps d c) = Replying m)"

definition peer_of_room_left :: "hub \<Rightarrow> client_ptr \<Rightarrow> wire_msg list \<Rightarrow> bool" where
  "peer_of_room_left h c ms \<longleftrightarrow> (\<exists>p. p \<noteq> c \<and> cl_roomID (hb_store h p) = cl_roomID (hb_store h c)
     \<and> ms = [peerLeft (cl_sessionID (hb_store h p))])"

lemma queue_growth:
  assumes ok: "hub_ok (dp_hub d)" and pm: "pumps_match d" and step: "deployment_step ord L D d d'"
    and c: "c \<in> hb_clients (dp_hub d)"
    and q: "cl_send (hb_store (dp_hub d') c) = cl_send (hb_store (dp_hub d) c) @ m # ms"
  shows "own_answer d c (m # ms) \<or> peer_of_room_left (dp_hub d) c (m # ms)
    \<or> (\<forall>x \<in> set (m # ms). \<exists>n. x = told n \<and> hb_sessionClients (dp_hub d) (nt_SessionID n) = Some c)"
proof -
  have grown: "cl_send (hb_store (dp_hub d') c) \<noteq> cl_send (hb_store (dp_hub d) c)" by (simp add: q)
  have notified: ?thesis
    if "cl_send (hb_store (dp_hub d') c) = cl_send (hb_store (deliver ns (dp_hub d)) c)" for ns
    using deliver_queue [OF ok, of ns c] q that by auto
  from step show ?thesis
  proof cases
    case (upgraded E rq i s' p)
    then have "p \<noteq> c" using c by (auto simp: new_client_def)
    then show ?thesis using notified upgraded(1) by (simp add: register_store)
  next
    case (replied p x h')
    then show ?thesis
      using q grown sendClient_try [OF ok, of p x] pm
      by (auto simp: trySendClient_queue pumps_match_def own_answer_def split: if_splits)
  next
    case (unregistered E p gone h' w')
    have p: "p \<in> hb_clients (dp_hub d)" using pm unregistered(4) by (simp add: pumps_match_def)
    have out: "sv_outbox w' = sv_outbox (dp_service d)"
      using unregistered(6) by (auto simp: OnDisconnect_def split: option.split)
    then have h: "dp_hub d' = snd (unregisterClient p (dp_hub d))"
      using unregistered(1,5) by (simp add: call_def serve_def)
    note listed = leftPeers_listed [OF hub_okD(2) [OF ok], of p]
    have "c \<in> set (leftPeers p (dp_hub d))"
        "m = peerLeft (cl_sessionID (hb_store (dp_hub d) p)) \<and> ms = []"
      using q unfolding h unregisterClient_eq [OF p]
      by (auto simp: fold_trySend_queue [OF listed(1)] removeClient_fields [OF p] split: if_splits)
    then show ?thesis
      using listed(2) roomPeers_listed(2) [OF hub_okD(2) [OF ok], of c]
      by (auto simp: leftPeers_def peer_of_room_left_def split: if_splits intro: exI [of _ p])
  next
    case (ice_failed sid)
    then show ?thesis
      using notified [of "[\<lparr>nt_SessionID = sid, nt_Type = ''error'', nt_Fields =
        [(''code'', ''ice-failed''), (''message'', ''ICE connection failed''), (''session_id'', sid)]\<rparr>]"]
      by (simp add: onICEFailed_def)
  next
    case (write_pump p acc s)
    then show ?thesis
      using grown q
      by (elim write_stepE) (auto simp: written_def connection_of_def setClient_def writePumpEnds_def split: if_splits)
  qed (use notified grown in auto)
qed

end
