(* ===== verification/Deployment_Run.thy ===== *)
theory Deployment_Run
  imports Deployment_Rooms
begin

section \<open>A small run of the whole server\<close>

text \<open>
  One concrete run of the assembled server on which its properties are evaluated: two rooms, \<open>r\<close> and
  \<open>q\<close>, are created for en/es over HTTP; Alice connects to \<open>r\<close> and joins, Bob connects and joins.  The limits
  are switched off, Pion's calls all succeed.
\<close>

definition talk_getenv :: "string \<Rightarrow> string" where
  "talk_getenv v = (if v = ''OPENAI_API_KEY'' then ''key''
     else if v = ''RATE_LIMIT_WS'' \<or> v = ''RATE_LIMIT_ROOMS'' then Itoa 0 else [])"

definition talk_room :: "string \<Rightarrow> string \<Rightarrow> string set \<Rightarrow> time option \<Rightarrow> room" where
  "talk_room i code us t = \<lparr>rm_ID = i, rm_SourceLang = ''en'', rm_TargetLang = ''es'', rm_ShortCode = code,
     rm_CreatedAt = 0, rm_LastActivity = t, rm_Active = True, rm_Participants = us, rm_Capacity = 2\<rparr>"

definition talk_env :: "time \<Rightarrow> string \<Rightarrow> env" where
  "talk_env now uuid = (example_env now uuid)\<lparr>ev_rand := zero_reader\<lparr>rd_bytes := [if uuid = ''q'' then 1 else 0, 0, 0, 0, 0, 0]\<rparr>\<rparr>"

definition talk_request :: http_request where
  "talk_request = \<lparr>rq_header = (\<lambda>_. []), rq_remote = ''h:1''\<rparr>"

definition talk0 :: "(mem_repo, unit pion_peer) service" where
  "talk0 = \<lparr>sv_cfg = mainServiceConfig, sv_heap = empty_heap, sv_next = 0, sv_repo = (\<lambda>_. None),
     sv_peer = NewPionPeer (BuildICEConfig [] [] []) (), sv_sessions = (\<lambda>_. None), sv_lookup = (\<lambda>_. None), sv_pipelines = (\<lambda>_. None),
     sv_graceTimers = (\<lambda>_. None), sv_spawned = [], sv_cancelled = [], sv_outbox = [], sv_events = []\<rparr>"

definition talk1 :: "(mem_repo, unit pion_peer) service" where
  "talk1 = talk0\<lparr>sv_heap := empty_heap(0 := talk_room ''r'' ''AAAAAA'' {} None), sv_next := 1, sv_repo := [''r'' \<mapsto> 0]\<rparr>"

definition talk2 :: "(mem_repo, unit pion_peer) service" where
  "talk2 = talk1\<lparr>sv_heap := (sv_heap talk1)(1 := talk_room ''q'' ''BAAAAA'' {} None), sv_next := 2,
     sv_repo := [''r'' \<mapsto> 0, ''q'' \<mapsto> 1]\<rparr>"

definition talk_limiter :: rate_limiter where
  "talk_limiter = NewRateLimiter 0 (3600 * second)"

definition talk_server :: "(mem_repo, unit pion_peer) service \<Rightarrow> (mem_repo, unit pion_peer) server" where
  "talk_server w = NewServer (DefaultConfig\<lparr>sc_Addr := '':8080'', sc_TurnConfigured := False, sc_APIKeyPresent := True,
     sc_CodecMode := ''opus''\<rparr>) w True (Some talk_limiter) (Some talk_limiter)"

abbreviation quiet :: "unit pion_peer webrtc_peer" where
  "quiet \<equiv> pion_webrtc_peer quiet_pion"

lemma talk_env_ok: "env_ok (talk_env t u)"
  using example_env_ok [of t u] by (simp add: env_ok_def talk_env_def)

lemma talk_starts: "wire_up talk_getenv () = Inr (talk_server talk0, NewHub, UseOpus)"
  by (simp add: wire_up_def loadConfig_def talk_getenv_def NewService_def selectCodec_def talk_server_def talk0_def
      mainHttpConfig_def mainServiceConfig_def talk_limiter_def NewServer_def DefaultConfig_def limitFrom_Itoa
      NewInMemoryRoomRepository_def Let_def)

lemma talk_codes:
  "GenerateShortCode (zero_reader\<lparr>rd_bytes := [0, 0, 0, 0, 0, 0]\<rparr>) = (Inr ''AAAAAA'', zero_reader\<lparr>rd_bytes := []\<rparr>)"
  "GenerateShortCode (zero_reader\<lparr>rd_bytes := [1, 0, 0, 0, 0, 0]\<rparr>) = (Inr ''BAAAAA'', zero_reader\<lparr>rd_bytes := []\<rparr>)"
  by (simp_all add: GenerateShortCode_def ReadFull_def zero_reader_def shortCodeLen_def code_char_def
      shortCodeAlphabet_def)

lemma talk_retries: "MaxShortCodeRetries mainServiceConfig = 5"
  by (simp add: mainServiceConfig_def)

lemma first_code_free:
  "GenerateShortCode rd = (Inr code, rd') \<Longrightarrow> FindByShortCode R code h repo = Inl e \<Longrightarrow> errors_Is e ErrRoomNotFound
     \<Longrightarrow> pickShortCode R h repo 5 rd = Inr (Some code)"
  by (simp add: eval_nat_numeral)

lemma talk_env_sel [simp]:
  "ev_now (talk_env t u) = t" "ev_uuid (talk_env t u) = u"
  "ev_ord_sessions (talk_env t u) = sorted_keys" "ev_ord_lookup (talk_env t u) = sorted_keys"
  "ev_rand (talk_env t u) = zero_reader\<lparr>rd_bytes := [if u = ''q'' then 1 else 0, 0, 0, 0, 0, 0]\<rparr>"
  by (simp_all add: talk_env_def example_env_def)

lemmas create_eval = CreateRoom_def NewRoom_def Let_def talk_retries first_code_free [OF talk_codes(1)]
  first_code_free [OF talk_codes(2)] mem_FindByShortCode_def visited_def
  List.map_filter_def sorted_keys_def mem_Save_def talk_room_def defaultCapacity_def

lemma create_talk1: "CreateRoom example_repo (talk_env 0 ''r'') ''en'' ''es'' talk0 = (Inr 0, talk1)"
  by (simp add: talk1_def talk0_def create_eval)

lemma upper_talk: "ToUpper ''BAAAAA'' = ''BAAAAA''"
  by (simp add: ToUpper_def upper_char_def)

lemma create_talk2: "CreateRoom example_repo (talk_env 0 ''q'') ''en'' ''es'' talk1 = (Inr 1, talk2)"
  by (simp add: talk2_def talk1_def talk0_def create_eval upper_talk)

subsection \<open>The joins\<close>

definition quiet_open :: "string \<Rightarrow> unit pion_peer \<Rightarrow> unit pion_peer" where
  "quiet_open sid p = snd (pion_CreateSession quiet_pion sid p)"

lemma quiet_create:
  "pp_peers p sid = None \<Longrightarrow> pion_CreateSession quiet_pion sid p = (None, quiet_open sid p)"
  "pp_peers p sid = None \<Longrightarrow> pp_peers (quiet_open sid p) = (pp_peers p)(sid \<mapsto> 0)"
  by (simp_all add: quiet_open_def pion_CreateSession_def quiet_pion_def)

lemma quiet_port: "CreateSession quiet = pion_CreateSession quiet_pion"
  by (simp add: pion_webrtc_peer_def)

definition join_message :: "string \<Rightarrow> string \<Rightarrow> string \<Rightarrow> string \<Rightarrow> signaling_message" where
  "join_message i u lang name = empty_message\<lparr>msg_Type := ''join'', msg_RoomID := i, msg_UserID := u,
     msg_Lang := lang, msg_Name := name\<rparr>"

definition joined_message :: "string \<Rightarrow> string \<Rightarrow> string \<Rightarrow> signaling_message" where
  "joined_message sid i name = empty_message\<lparr>msg_Type := ''joined'', msg_SessionID := sid, msg_RoomID := i,
     msg_Name := name\<rparr>"

definition talk_alice :: session where
  "talk_alice = (NewSession ''a'' ''r'' ''alice'' ''en'' second)\<lparr>se_Name := ''Alice''\<rparr>"

definition talk_bob :: session where
  "talk_bob = (NewSession ''b'' ''r'' ''bob'' ''es'' (2 * second))\<lparr>se_Name := ''Bob''\<rparr>"

definition talk3 :: "(mem_repo, unit pion_peer) service" where
  "talk3 = talk2\<lparr>sv_heap := (sv_heap talk2)(0 := talk_room ''r'' ''AAAAAA'' {''alice''} (Some second)),
     sv_peer := quiet_open ''a'' (sv_peer talk2),
     sv_sessions := [''a'' \<mapsto> talk_alice], sv_lookup := [''r:alice'' \<mapsto> ''a'']\<rparr>"

definition talk4 :: "(mem_repo, unit pion_peer) service" where
  "talk4 = talk3\<lparr>sv_heap := (sv_heap talk2)(0 := talk_room ''r'' ''AAAAAA'' {''alice'', ''bob''} (Some (2 * second))),
     sv_peer := quiet_open ''b'' (sv_peer talk3),
     sv_sessions := [''a'' \<mapsto> talk_alice, ''b'' \<mapsto> talk_bob],
     sv_lookup := [''r:alice'' \<mapsto> ''a'', ''r:bob'' \<mapsto> ''b''],
     sv_spawned := [(0, talk_alice, NewSession ''b'' ''r'' ''bob'' ''es'' (2 * second))],
     sv_outbox := [\<lparr>nt_SessionID = ''a'', nt_Type = ''peer-joined'', nt_Fields = [(''name'', ''Bob'')]\<rparr>]\<rparr>"

lemma talk_rooms [simp]:
  "rm_ID (talk_room i code us t) = i" "rm_SourceLang (talk_room i code us t) = ''en''"
  "rm_TargetLang (talk_room i code us t) = ''es''" "rm_Active (talk_room i code us t)"
  "rm_Participants (talk_room i code us t) = us" "rm_Capacity (talk_room i code us t) = 2"
  "(talk_room i code us t)\<lparr>rm_Participants := vs\<rparr> = talk_room i code vs t"
  "(talk_room i code us t)\<lparr>rm_LastActivity := t'\<rparr> = talk_room i code us t'"
  by (simp_all add: talk_room_def)

lemma talk2_sel [simp]:
  "sv_repo talk2 = [''r'' \<mapsto> 0, ''q'' \<mapsto> 1]" "sv_heap talk2 0 = talk_room ''r'' ''AAAAAA'' {} None"
  "sv_heap talk2 (Suc 0) = talk_room ''q'' ''BAAAAA'' {} None"
  "sv_sessions talk2 = (\<lambda>_. None)" "sv_lookup talk2 = (\<lambda>_. None)" "sv_graceTimers talk2 = (\<lambda>_. None)"
  "sv_spawned talk2 = []" "sv_outbox talk2 = []" "pp_peers (sv_peer talk2) = (\<lambda>_. None)" "sv_pipelines talk2 = (\<lambda>_. None)"
  "sv_cfg talk2 = mainServiceConfig"
  by (simp_all add: talk2_def talk1_def talk0_def NewPionPeer_def)

lemmas talk_join_eval = HandleSignaling_def handleJoin_def JoinRoom_def openSession_def Let_def Join_def mem_FindByID_def
  mem_Save_def cancelGraceTimersForRoom_def sessionsInRoom_def List.map_filter_def TouchActivity_def IsFull_def
  lookupKey_def join_message_def joined_message_def empty_message_def quiet_port quiet_create sorted_keys_def
  NewSession_def

lemma alice_joins:
  "HandleSignaling example_repo quiet (talk_env second ''a'') (join_message ''r'' ''alice'' ''en'' ''Alice'') talk2
     = (Return (Inr (joined_message ''a'' ''r'' [])), talk3)"
  by (simp add: talk_join_eval talk3_def talk_alice_def) (rule service.equality; simp add: fun_upd_twist)

lemma bob_joins:
  "HandleSignaling example_repo quiet (talk_env (2 * second) ''b'') (join_message ''r'' ''bob'' ''es'' ''Bob'') talk3
     = (Return (Inr (joined_message ''b'' ''r'' ''Alice'')), talk4)"
  by (simp add: talk_join_eval talk3_def talk4_def talk_alice_def talk_bob_def NotifySession_def insert_commute)
     (rule service.equality; simp add: fun_upd_twist)

subsection \<open>The states of the deployment\<close>

definition talk_state :: "(mem_repo, unit pion_peer) service \<Rightarrow> hub \<Rightarrow> (client_ptr \<Rightarrow> pumps) \<Rightarrow> unit deployment" where
  "talk_state w h ps = \<lparr>dp_server = talk_server w, dp_hub = h, dp_pumps = ps, dp_running = UNIV, dp_cancelled = False\<rparr>"

lemma talk_server_sel [simp]:
  "sr_manager (talk_server w) = w" "(talk_server w)\<lparr>sr_manager := w'\<rparr> = talk_server w'"
  by (simp_all add: talk_server_def NewServer_def)

lemma talk_state_sel [simp]:
  "dp_server (talk_state w h ps) = talk_server w" "dp_hub (talk_state w h ps) = h" "dp_pumps (talk_state w h ps) = ps"
  "dp_running (talk_state w h ps) = UNIV"
  "serve (talk_server w') (talk_state w h ps) = talk_state w' (deliver (notified_since w w') h) ps"
  "call w' (talk_state w h ps) = talk_state w' (deliver (notified_since w w') h) ps"
  "on_hub f (talk_state w h ps) = talk_state w (f h) ps"
  "set_read c r (talk_state w h ps) = talk_state w h (ps(c := (ps c)\<lparr>pm_read := r\<rparr>))"
  "close_conn c (talk_state w h ps) = talk_state w h (ps(c := (ps c)\<lparr>pm_open := False\<rparr>))"
  "(talk_state w h ps)\<lparr>dp_hub := h'\<rparr> = talk_state w h' ps"
  "(talk_state w h ps)\<lparr>dp_pumps := ps'\<rparr> = talk_state w h ps'"
  by (simp_all add: talk_state_def serve_def call_def on_hub_def set_read_def close_conn_def)

text \<open>The hub loop waits at its channels.\<close>

abbreviation untaken :: "(client_ptr \<Rightarrow> pumps) \<Rightarrow> bool" where
  "untaken ps \<equiv> \<forall>c. pm_read (ps c) \<noteq> Taken"

lemma talk_loop_idle [simp]: "loop_idle (talk_state w h ps) \<longleftrightarrow> untaken ps"
  by (simp add: loop_idle_def)

lemma no_pumps_sel [simp]: "\<not> pm_write no_pumps" "pm_read no_pumps = ReadPumpGone"
  by (simp_all add: no_pumps_def)

lemma unlimited: "limited talk_request t (Some talk_limiter) = (PassOn, Some talk_limiter)"
  by (simp add: limited_def Middleware_def Allow_def talk_limiter_def NewRateLimiter_def)

lemma handle_create:
  assumes "CreateRoom example_repo E ''en'' ''es'' w = (Inr p, w')"
  shows "\<exists>out. handle example_repo P E talk_request (PostRooms (Some (''en'', ''es''))) (talk_server w) = (out, talk_server w')"
  using unlimited [of "ev_now E"]
  by (simp add: createRoomHandler_def assms talk_server_def NewServer_def)

lemma handle_connect:
  "sv_repo w i \<noteq> None \<Longrightarrow> i \<noteq> [] \<Longrightarrow> handle example_repo P E talk_request (GetWS i) (talk_server w) = (Upgrade i, talk_server w)"
  using unlimited [of "ev_now E"]
  by (auto simp: wsHandler_def RoomExists_def mem_FindByID_def talk_server_def NewServer_def)

abbreviation talk_step :: "(unit deployment \<Rightarrow> client_ptr \<Rightarrow> signaling_message \<Rightarrow> bool) \<Rightarrow> unit deployment \<Rightarrow> unit deployment \<Rightarrow> bool" where
  "talk_step \<equiv> deployment_step sorted_keys quiet_pion"

abbreviation talk_reach :: "(unit deployment \<Rightarrow> client_ptr \<Rightarrow> signaling_message \<Rightarrow> bool) \<Rightarrow> unit deployment \<Rightarrow> bool" where
  "talk_reach \<equiv> deployment_reach talk_getenv sorted_keys quiet_pion"

lemma talk_unused [simp]: "unused (talk_state w h ps) i \<longleftrightarrow> fresh_uuid w i \<and> sv_graceTimers w i = None \<and> hb_sessionClients h i = None"
  by (simp add: unused_def)

text \<open>The steps of the run: a client connects, joins, is answered, drops.\<close>

lemma talk_connect_step:
  assumes "unused (talk_state w h ps) ''x''" and "sv_repo w i \<noteq> None" and "i \<noteq> []" and "new_client c (talk_state w h ps)"
    and "untaken ps"
  shows "talk_step D (talk_state w h ps) (talk_state w (registerClient c (serveWS c i h)) (ps(c := started_pumps)))"
proof -
  have "talk_step D (talk_state w h ps)
      ((on_hub (\<lambda>h. registerClient c (serveWS c i h)) (serve (talk_server w) (talk_state w h ps)))
        \<lparr>dp_pumps := (dp_pumps (talk_state w h ps))(c := started_pumps)\<rparr>)"
    by (rule deployment_step.upgraded [where E = "talk_env 0 ''x''" and rq = talk_request])
       (use assms in \<open>simp_all add: talk_env_ok handle_connect del: handle.simps\<close>)
  then show ?thesis by simp
qed

lemma talk_connects:
  assumes "talk_reach D (talk_state w h ps)" and "\<not> hb_crashed h" and "unused (talk_state w h ps) ''x''"
    and "sv_repo w i \<noteq> None" and "i \<noteq> []" and "new_client c (talk_state w h ps)" and "untaken ps"
  shows "talk_reach D (talk_state w (registerClient c (serveWS c i h)) (ps(c := started_pumps)))"
  by (rule deployment_reach.runs [OF assms(1) _ talk_connect_step [OF assms(3-7)]]) (use assms(2) in simp)

lemma talk_join_step:
  assumes "unused (talk_state w h ps) u"
    and "pm_read (ps c) = Reading" and "pm_open (ps c)" and "D (talk_state w h ps) c m"
    and "HandleSignaling example_repo quiet (talk_env t u) m w = (Return (Inr (joined_message sid i n)), w')" and "sid \<noteq> []"
  shows "talk_step D (talk_state w h ps) (talk_state w' (bindSession c sid (deliver (notified_since w w') h))
      (ps(c := (ps c)\<lparr>pm_read := Replying (Response (joined_message sid i n))\<rparr>)))"
proof -
  let ?a = "Inr (joined_message sid i n) :: gerror + signaling_message"
  have "talk_step D (talk_state w h ps) (set_read c (toSend ?a) (on_hub (bindAnswer c ?a) (call w' (talk_state w h ps))))"
    by (rule deployment_step.dispatched [where E = "talk_env t u" and m = m])
       (use assms in \<open>simp_all add: talk_env_ok\<close>)
  then show ?thesis using assms(6) by (simp add: joined_message_def)
qed

lemma talk_joins:
  assumes "talk_reach D (talk_state w h ps)" and "\<not> hb_crashed h" and "unused (talk_state w h ps) u"
    and "pm_read (ps c) = Reading" and "pm_open (ps c)" and "D (talk_state w h ps) c m"
    and "HandleSignaling example_repo quiet (talk_env t u) m w = (Return (Inr (joined_message sid i n)), w')" and "sid \<noteq> []"
  shows "talk_reach D (talk_state w' (bindSession c sid (deliver (notified_since w w') h))
      (ps(c := (ps c)\<lparr>pm_read := Replying (Response (joined_message sid i n))\<rparr>)))"
  by (rule deployment_reach.runs [OF assms(1) _ talk_join_step [where m = m]]) (use assms in simp_all)

lemma talk_reply_step:
  assumes "pm_read (ps c) = Replying m" and "\<not> cl_closed (hb_store h c)" and "length (cl_send (hb_store h c)) < 8"
  shows "talk_step D (talk_state w h ps) (talk_state w (trySendClient c m h) (ps(c := (ps c)\<lparr>pm_read := Reading\<rparr>)))"
proof -
  have "talk_step D (talk_state w h ps) (set_read c Reading ((talk_state w h ps)\<lparr>dp_hub := trySendClient c m h\<rparr>))"
    by (rule deployment_step.replied)
       (use assms in \<open>simp_all add: sendClient_def trySendClient_def Let_def sendBufferSize_def\<close>)
  then show ?thesis by simp
qed

lemma talk_replied:
  assumes "talk_reach D (talk_state w h ps)" and "\<not> hb_crashed h" and "pm_read (ps c) = Replying m"
    and "\<not> cl_closed (hb_store h c)" and "length (cl_send (hb_store h c)) < 8"
  shows "talk_reach D (talk_state w (trySendClient c m h) (ps(c := (ps c)\<lparr>pm_read := Reading\<rparr>)))"
  by (rule deployment_reach.runs [OF assms(1) _ talk_reply_step [where ps = ps, OF assms(3-5)]]) (use assms(2) in simp)

lemma talk_fail_step:
  "pm_read (ps c) = Reading \<Longrightarrow> talk_step D (talk_state w h ps) (talk_state w h (ps(c := (ps c)\<lparr>pm_read := Unregistering\<rparr>)))"
  using deployment_step.read_failed [of "talk_state w h ps" c] by simp

lemma talk_taken_step:
  assumes "pm_read (ps c) = Unregistering" and "untaken ps"
  shows "talk_step D (talk_state w h ps) (talk_state w h (ps(c := (ps c)\<lparr>pm_read := Taken\<rparr>)))"
  using deployment_step.taken [of "talk_state w h ps" c] assms by simp

lemma talk_gone_step:
  assumes "pm_read (ps c) = Taken" and "unused (talk_state w h ps) u" and "unregisterClient c h = (Some sid, h')"
    and "OnDisconnect (talk_env t u) sid w = w'"
  shows "talk_step D (talk_state w h ps) (talk_state w' (deliver (notified_since w w') h') (ps(c := (ps c)\<lparr>pm_read := Closing\<rparr>)))"
proof -
  let ?d = "talk_state w h ps"
  have "talk_step D ?d (call w' (set_read c Closing (?d\<lparr>dp_hub := h'\<rparr>)))"
    by (rule deployment_step.unregistered [OF talk_env_ok [of t u], where gone = "Some sid"]) (use assms in simp_all)
  then show ?thesis by simp
qed

lemma talk_closed_step:
  "pm_read (ps c) = Closing
    \<Longrightarrow> talk_step D (talk_state w h ps) (talk_state w h (ps(c := (ps c)\<lparr>pm_read := ReadPumpGone, pm_open := False\<rparr>)))"
  using deployment_step.closed [of "talk_state w h ps" c] by (cases "ps c") simp

lemma talk_drops:
  assumes "talk_reach D (talk_state w h ps)" and "\<not> hb_crashed h" and "pm_read (ps c) = Reading"
    and "unused (talk_state w h ps) u" and "unregisterClient c h = (Some sid, h')"
    and "OnDisconnect (talk_env t u) sid w = w'" and "untaken ps" and "\<not> hb_crashed (deliver (notified_since w w') h')"
  shows "talk_reach D (talk_state w' (deliver (notified_since w w') h')
      (ps(c := (ps c)\<lparr>pm_read := ReadPumpGone, pm_open := False\<rparr>)))"
proof -
  let ?ps = "\<lambda>r. ps(c := (ps c)\<lparr>pm_read := r\<rparr>)" and ?h = "deliver (notified_since w w') h'"
  have "talk_reach D (talk_state w h (?ps Unregistering))"
    by (rule deployment_reach.runs [OF assms(1) _ talk_fail_step [where ps = ps, OF assms(3)]]) (use assms(2) in simp)
  from deployment_reach.runs [OF this _ talk_taken_step [where c = c]] assms(2,7)
  have "talk_reach D (talk_state w h (?ps Taken))" by simp
  from deployment_reach.runs [OF this _ talk_gone_step [OF _ _ assms(5,6)]] assms(2,4)
  have "talk_reach D (talk_state w' ?h (?ps Closing))" by simp
  from deployment_reach.runs [OF this _ talk_closed_step [where c = c]] assms(8) show ?thesis by simp
qed

subsection \<open>The run\<close>

lemma stageA_reach: "talk_reach D (talk_state talk2 NewHub (\<lambda>_. no_pumps))"
proof -
  let ?s = "\<lambda>w. talk_state w NewHub (\<lambda>_. no_pumps)"
  have zero: "talk_reach D (?s talk0)"
    using deployment_reach.started [OF talk_starts] by (simp add: talk_state_def)
  have create: "talk_reach D (?s w')"
    if w: "talk_reach D (?s w)" and u: "unused (?s w) u" and C: "CreateRoom example_repo (talk_env 0 u) ''en'' ''es'' w = (Inr p, w')"
      for w w' u p
  proof -
    from handle_create [OF C] obtain out where
      h: "handle example_repo quiet (talk_env 0 u) talk_request (PostRooms (Some (''en'', ''es''))) (dp_server (?s w)) = (out, talk_server w')"
      by fastforce
    have "talk_step D (?s w) (serve (talk_server w') (?s w))"
      by (rule deployment_step.request [OF talk_env_ok _ h]) (use u in simp)
    moreover have "sv_outbox w' = sv_outbox w" using CreateRoom_frame [OF C [symmetric]] by simp
    ultimately have "talk_step D (?s w) (?s w')" by simp
    from deployment_reach.runs [OF w _ this] show ?thesis by (simp add: NewHub_def)
  qed
  have one: "talk_reach D (?s talk1)"
    by (rule create [OF zero _ create_talk1]) (simp add: talk0_def NewHub_def fresh_uuid_def fresh_room_id_def)
  show ?thesis
    by (rule create [OF one _ create_talk2])
       (simp add: talk1_def talk0_def NewHub_def fresh_uuid_def fresh_room_id_def)
qed

definition wired :: "string \<Rightarrow> string \<Rightarrow> wire_msg list \<Rightarrow> client" where
  "wired i sid ms = \<lparr>cl_send = ms, cl_closed = False, cl_roomID = i, cl_sessionID = sid\<rparr>"

lemma wired_sel [simp]:
  "cl_send (wired i sid ms) = ms" "cl_closed (wired i sid ms) = False" "cl_roomID (wired i sid ms) = i"
  "cl_sessionID (wired i sid ms) = sid" "(wired i sid ms)\<lparr>cl_send := ms'\<rparr> = wired i sid ms'"
  "(wired i sid ms)\<lparr>cl_sessionID := sid'\<rparr> = wired i sid' ms"
  by (simp_all add: wired_def)

lemma serveWS_wired: "serveWS c i h = setClient c (wired i [] []) h"
  by (simp add: serveWS_def wired_def)

abbreviation joined_frame :: "string \<Rightarrow> string \<Rightarrow> wire_msg" where
  "joined_frame sid n \<equiv> Response (joined_message sid ''r'' n)"

definition hubB :: hub where
  "hubB = \<lparr>hb_store = (hb_store NewHub)(0 := wired ''r'' [] []), hb_clients = {0}, hb_sessionClients = (\<lambda>_. None),
     hb_roomClients = [''r'' \<mapsto> [0]], hb_crashed = False\<rparr>"

definition hubD :: hub where
  "hubD = \<lparr>hb_store = (hb_store NewHub)(0 := wired ''r'' ''a'' [joined_frame ''a'' []]), hb_clients = {0},
     hb_sessionClients = [''a'' \<mapsto> 0], hb_roomClients = [''r'' \<mapsto> [0]], hb_crashed = False\<rparr>"

definition hubE :: hub where
  "hubE = hubD\<lparr>hb_store := (hb_store hubD)(1 := wired ''r'' [] []), hb_clients := {0, 1},
     hb_roomClients := [''r'' \<mapsto> [0, 1]]\<rparr>"

definition hubF :: hub where
  "hubF = hubE\<lparr>hb_store := (hb_store NewHub)
       (0 := wired ''r'' ''a'' [joined_frame ''a'' [], Fields [''type'' \<mapsto> ''peer-joined'', ''name'' \<mapsto> ''Bob'']],
        1 := wired ''r'' ''b'' []),
     hb_sessionClients := [''a'' \<mapsto> 0, ''b'' \<mapsto> 1]\<rparr>"

abbreviation busy_pumps :: "wire_msg \<Rightarrow> pumps" where
  "busy_pumps m \<equiv> started_pumps\<lparr>pm_read := Replying m\<rparr>"

definition stageB :: "unit deployment" where
  "stageB = talk_state talk2 hubB ((\<lambda>_. no_pumps)(0 := started_pumps))"

definition stageC :: "unit deployment" where
  "stageC = talk_state talk3 (bindSession 0 ''a'' hubB) ((\<lambda>_. no_pumps)(0 := busy_pumps (joined_frame ''a'' [])))"

definition stageD :: "unit deployment" where
  "stageD = talk_state talk3 hubD ((\<lambda>_. no_pumps)(0 := started_pumps))"

definition stageE :: "unit deployment" where
  "stageE = talk_state talk3 hubE ((\<lambda>_. no_pumps)(0 := started_pumps, 1 := started_pumps))"

definition stageF :: "unit deployment" where
  "stageF = talk_state talk4 hubF ((\<lambda>_. no_pumps)(0 := started_pumps, 1 := busy_pumps (joined_frame ''b'' ''Alice'')))"

lemma started_pumps_sel [simp]:
  "pm_read started_pumps = Reading" "pm_open started_pumps" "started_pumps\<lparr>pm_read := Reading\<rparr> = started_pumps"
  by (simp_all add: started_pumps_def)

lemma stageB_reach: "talk_reach D stageB"
proof -
  have "registerClient 0 (serveWS 0 ''r'' NewHub) = hubB"
    by (simp add: hubB_def serveWS_wired registerClient_def setClient_def NewHub_def roomPeers_def Let_def)
  then show ?thesis
    unfolding stageB_def using talk_connects [OF stageA_reach, of "''r''" 0]
    by (simp add: NewHub_def new_client_def fresh_uuid_def fresh_room_id_def)
qed

lemma app_join: "like_the_app (talk_state w h ps) c (join_message i u l n)
    \<longleftrightarrow> cl_sessionID (hb_store h c) = [] \<and> i = cl_roomID (hb_store h c)"
  by (auto simp: like_the_app_def join_message_def)

lemma notified_talk3 [simp]: "notified_since talk2 talk3 = []"
  by (simp add: notified_since_def talk3_def)

lemma stageC_reach: "talk_reach like_the_app stageC"
  unfolding stageC_def
  using talk_joins [OF stageB_reach [unfolded stageB_def] _ _ _ _ _ alice_joins, of 0 like_the_app]
  by (simp add: hubB_def app_join fresh_uuid_def fresh_room_id_def)

lemma stageD_reach: "talk_reach like_the_app stageD"
proof -
  have "trySendClient 0 (joined_frame ''a'' []) (bindSession 0 ''a'' hubB) = hubD"
    by (simp add: hubB_def hubD_def trySendClient_def bindSession_def setClient_def sendBufferSize_def)
  then show ?thesis
    unfolding stageD_def using talk_replied [OF stageC_reach [unfolded stageC_def], of 0 "joined_frame ''a'' []"]
    by (simp add: hubB_def bindSession_def setClient_def)
qed

lemma talk3_sel [simp]:
  "sv_repo talk3 = sv_repo talk2" "sv_sessions talk3 = [''a'' \<mapsto> talk_alice]" "sv_graceTimers talk3 = (\<lambda>_. None)"
  "sv_outbox talk3 = []" "sv_lookup talk3 = [''r:alice'' \<mapsto> ''a'']" "sv_cfg talk3 = mainServiceConfig"
  "sv_heap talk3 0 = talk_room ''r'' ''AAAAAA'' {''alice''} (Some second)" "sv_pipelines talk3 = (\<lambda>_. None)"
  by (simp_all add: talk3_def)

lemma talk4_sel [simp]:
  "sv_repo talk4 = sv_repo talk2" "sv_sessions talk4 = [''a'' \<mapsto> talk_alice, ''b'' \<mapsto> talk_bob]"
  "sv_graceTimers talk4 = (\<lambda>_. None)" "sv_cfg talk4 = mainServiceConfig"
  "sv_outbox talk4 = [\<lparr>nt_SessionID = ''a'', nt_Type = ''peer-joined'', nt_Fields = [(''name'', ''Bob'')]\<rparr>]"
  "sv_lookup talk4 = [''r:alice'' \<mapsto> ''a'', ''r:bob'' \<mapsto> ''b'']" 
  "sv_heap talk4 0 = talk_room ''r'' ''AAAAAA'' {''alice'', ''bob''} (Some (2 * second))"
  by (simp_all add: talk4_def)

lemma talk_people [simp]:
  "se_ID talk_alice = ''a''" "se_RoomID talk_alice = ''r''" "se_UserID talk_alice = ''alice''" "se_Name talk_alice = ''Alice''"
  "se_ID talk_bob = ''b''" "se_RoomID talk_bob = ''r''" "se_UserID talk_bob = ''bob''"
  by (simp_all add: talk_alice_def talk_bob_def NewSession_def)

lemma stageE_reach: "talk_reach like_the_app stageE"
proof -
  have "registerClient 1 (serveWS 1 ''r'' hubD) = hubE"
    by (simp add: hubD_def hubE_def serveWS_wired registerClient_def setClient_def roomPeers_def Let_def fun_upd_twist
        insert_commute)
  then show ?thesis
    unfolding stageE_def using talk_connects [OF stageD_reach [unfolded stageD_def], of "''r''" 1]
    by (simp add: hubD_def new_client_def fresh_uuid_def fresh_room_id_def)
qed

text \<open>Bob's join is announced to Alice.\<close>

lemma notified_talk4 [simp]:
  "notified_since talk3 talk4 = [\<lparr>nt_SessionID = ''a'', nt_Type = ''peer-joined'', nt_Fields = [(''name'', ''Bob'')]\<rparr>]"
  by (simp add: notified_since_def)

lemma hubF_eq: "bindSession 1 ''b'' (deliver (notified_since talk3 talk4) hubE) = hubF"
  by (simp add: hubD_def hubE_def hubF_def hub_NotifySession_def notifyLookup_def notifyMessage_def trySendClient_def
      bindSession_def setClient_def sendBufferSize_def Let_def fun_upd_twist)

lemma stageF_step: "talk_step like_the_app stageE stageF"
  unfolding stageE_def stageF_def
  using talk_join_step [where h = hubE and ps = "(\<lambda>_. no_pumps)(0 := started_pumps, 1 := started_pumps)",
      OF _ _ _ _ bob_joins, of 1 like_the_app] hubF_eq
  by (simp add: hubD_def hubE_def app_join fresh_uuid_def fresh_room_id_def)

lemma stageF_reach: "talk_reach like_the_app stageF"
  by (rule deployment_reach.runs [OF stageE_reach _ stageF_step]) (simp add: stageE_def hubE_def hubD_def)

text \<open>Alice's connection drops, and she connects again.\<close>

definition talk5 :: "(mem_repo, unit pion_peer) service" where
  "talk5 = OnDisconnect (talk_env (3 * second) ''x'') ''a'' talk4"

definition hubG :: hub where
  "hubG = snd (unregisterClient 0 hubF)"

definition talkG_pumps :: "client_ptr \<Rightarrow> pumps" where
  "talkG_pumps = (\<lambda>_. no_pumps)(0 := started_pumps\<lparr>pm_read := ReadPumpGone, pm_open := False\<rparr>,
     1 := busy_pumps (joined_frame ''b'' ''Alice''))"

definition stageG :: "unit deployment" where
  "stageG = talk_state talk5 hubG talkG_pumps"

definition stageH :: "unit deployment" where
  "stageH = talk_state talk5 (registerClient 2 (serveWS 2 ''r'' hubG)) (talkG_pumps(2 := started_pumps))"

lemma grace_30: "GracePeriod mainServiceConfig = 30 * second"
  by (simp add: mainServiceConfig_def)

lemma talk5_sel [simp]:
  "sv_repo talk5 = sv_repo talk2" "sv_sessions talk5 = [''a'' \<mapsto> talk_alice, ''b'' \<mapsto> talk_bob]"
  "sv_graceTimers talk5 = [''a'' \<mapsto> \<lparr>gt_roomID = ''r'', gt_sess = talk_alice, gt_deadline = 33 * second\<rparr>]"
  "sv_lookup talk5 = [''r:alice'' \<mapsto> ''a'', ''r:bob'' \<mapsto> ''b'']" "sv_outbox talk5 = sv_outbox talk4"
  "sv_heap talk5 = sv_heap talk4" "sv_cfg talk5 = mainServiceConfig"
  by (simp_all add: talk5_def OnDisconnect_def grace_30)

lemma hubF_sel [simp]:
  "hb_clients hubF = {0, 1}" "hb_sessionClients hubF = [''a'' \<mapsto> 0, ''b'' \<mapsto> 1]" "\<not> hb_crashed hubF"
  "cl_sessionID (hb_store hubF 0) = ''a''" "cl_roomID (hb_store hubF 0) = ''r''"
  by (simp_all add: hubF_def hubE_def hubD_def)

lemma hubG_sel [simp]:
  "hb_clients hubG = {1}" "hb_sessionClients hubG = [''b'' \<mapsto> 1]" "\<not> hb_crashed hubG"
  "cl_send (hb_store hubG 1) = [peerLeft ''a'']" "cl_sessionID (hb_store hubG 1) = ''b''"
  by (auto simp: hubG_def unregisterClient_after)
     (simp_all add: hubF_def hubE_def hubD_def hub_eval fun_upd_twist)

lemma stageG_reach: "talk_reach like_the_app stageG"
proof -
  have "unregisterClient 0 hubF = (Some ''a'', hubG)"
    by (simp add: hubG_def unregisterClient_eq)
  then show ?thesis
    unfolding stageG_def
    using talk_drops [OF stageF_reach [unfolded stageF_def], of 0 _ _ _ "3 * second", OF _ _ _ _ talk5_def [symmetric]]
    by (simp add: notified_since_def talkG_pumps_def fun_upd_twist fresh_uuid_def fresh_room_id_def)
qed

lemma stageH_reach: "talk_reach like_the_app stageH"
  unfolding stageH_def
  by (rule talk_connects [OF stageG_reach [unfolded stageG_def]])
     (simp_all add: new_client_def talkG_pumps_def fresh_uuid_def fresh_room_id_def)

end
