(* ===== verification/Deployment_Pumps.thy ===== *)
theory Deployment_Pumps
  imports Deployment_Rooms
begin

section \<open>Each connection of the server is a run of theory Connection\<close>

text \<open>
  Theory \<open>Connection\<close> states what one connection and its pumps do in an environment that may do
  anything to it.  Here every connection of the assembled server is shown to be such a run, so what is proved
  there holds of each of them.
\<close>

definition accepts :: "wire_msg list \<Rightarrow> connection \<Rightarrow> connection" where
  "accepts ms s = s\<lparr>cn_send := cn_send s @ ms, cn_accepted := cn_accepted s @ ms\<rparr>"

lemma runs_accepts:
  "\<not> cn_sendClosed s \<Longrightarrow> length (cn_send s @ ms) \<le> sendBufferSize \<Longrightarrow> runs_to s (accepts ms s)"
proof (induction ms arbitrary: s)
  case (Cons m ms)
  have "connection_step s (put m s)" using Cons.prems by (intro notified) (simp add: has_room_def)
  moreover have "runs_to (put m s) (accepts ms (put m s))" using Cons.prems by (intro Cons.IH) (simp_all add: put_def)
  moreover have "accepts ms (put m s) = accepts (m # ms) s" by (simp add: accepts_def put_def)
  ultimately show ?case by (simp add: converse_rtranclp_into_rtranclp)
qed (simp add: accepts_def)

text \<open>A step of the server that appends to the queue of a client and leaves its pumps alone.\<close>

lemma queue_runs:
  assumes "hub_ok (dp_hub d')" and "c \<in> hb_clients (dp_hub d') \<or> ms = []"
    and "cl_send (hb_store (dp_hub d') c) = cl_send (hb_store (dp_hub d) c) @ ms"
    and "cl_closed (hb_store (dp_hub d') c) = cl_closed (hb_store (dp_hub d) c)" and "dp_pumps d' c = dp_pumps d c"
  shows "runs_to (connection_of c acc d) (connection_of c (acc @ ms) d')"
proof (cases "ms = []")
  case False
  then have "\<not> cl_closed (hb_store (dp_hub d') c)" "length (cl_send (hb_store (dp_hub d') c)) \<le> sendBufferSize"
    using assms(2) hub_okD(1) [OF assms(1)] by (auto simp: clients_open_def)
  moreover have "connection_of c (acc @ ms) d' = accepts ms (connection_of c acc d)"
    by (simp add: connection_of_def accepts_def assms(3-5))
  ultimately show ?thesis using assms(3,4) by (simp add: runs_accepts) (simp add: runs_accepts connection_of_def)
qed (simp add: connection_of_def assms)

lemma delivered_runs:
  assumes d: "hub_ok (dp_hub d)" and d': "hub_ok (dp_hub d')" "hb_clients (dp_hub d) \<subseteq> hb_clients (dp_hub d')"
    and "cl_send (hb_store (dp_hub d') c) = cl_send (hb_store (deliver ns (dp_hub d)) c)"
    and "cl_closed (hb_store (dp_hub d') c) = cl_closed (hb_store (dp_hub d) c)" and "dp_pumps d' c = dp_pumps d c"
  shows "\<exists>acc'. runs_to (connection_of c acc d) (connection_of c acc' d')"
proof -
  obtain ms where ms: "cl_send (hb_store (deliver ns (dp_hub d)) c) = cl_send (hb_store (dp_hub d) c) @ ms"
      "set ms \<subseteq> told ` {n \<in> set ns. hb_sessionClients (dp_hub d) (nt_SessionID n) = Some c}"
    using deliver_queue [OF d] by blast
  have "c \<in> hb_clients (dp_hub d) \<or> ms = []"
    using ms(2) hub_okD(3) [OF d] by (cases ms) (auto simp: sessions_bound_def)
  then have "c \<in> hb_clients (dp_hub d') \<or> ms = []" using d'(2) by blast
  from queue_runs [OF d'(1) this, of d acc] ms(1) assms(4-6) show ?thesis by metis
qed

lemma write_step_accepted: "write_step s s' \<Longrightarrow> write_step (s\<lparr>cn_accepted := a\<rparr>) (s'\<lparr>cn_accepted := a\<rparr>)"
proof (induction rule: write_step.induct)
  case (text_written s m ms)
  then show ?case using write_step.text_written [of "s\<lparr>cn_accepted := a\<rparr>" m ms] by (cases s) simp
next
  case (text_fails s m ms)
  then show ?case using write_step.text_fails [of "s\<lparr>cn_accepted := a\<rparr>" m ms] by (cases s) (simp add: writePumpEnds_def)
next
  case (ping_written s)
  then show ?case using write_step.ping_written [of "s\<lparr>cn_accepted := a\<rparr>"] by (cases s) simp
next
  case (ping_fails s)
  then show ?case using write_step.ping_fails [of "s\<lparr>cn_accepted := a\<rparr>"] by (cases s) (simp add: writePumpEnds_def)
next
  case (send_closed s)
  then show ?case using write_step.send_closed [of "s\<lparr>cn_accepted := a\<rparr>"] by (cases s) (simp add: writePumpEnds_def)
next
  case (close_fails s)
  then show ?case using write_step.close_fails [of "s\<lparr>cn_accepted := a\<rparr>"] by (cases s) (simp add: writePumpEnds_def)
qed

lemma reading_answers:
  assumes "cn_readPump s = Reading" and "cn_open s"
  shows "runs_to s (s\<lparr>cn_readPump := Replying m\<rparr>)"
proof -
  have "read_step (s\<lparr>cn_readPump := Dispatching\<rparr>) (s\<lparr>cn_readPump := Replying m\<rparr>)"
    using read_step.answer [of "s\<lparr>cn_readPump := Dispatching\<rparr>" m] by simp
  then show ?thesis using reads [OF read_step.dispatch [OF assms]]
    by (meson converse_rtranclp_into_rtranclp r_into_rtranclp reads)
qed

lemma toSend_runs:
  assumes "cn_readPump s = Reading" and "cn_open s"
  shows "runs_to s (s\<lparr>cn_readPump := toSend a\<rparr>)"
proof (cases "toSend a = Reading")
  case True
  then have "s\<lparr>cn_readPump := toSend a\<rparr> = s" using assms(1) by (cases s) simp
  then show ?thesis by simp
next
  case False
  then obtain m where "toSend a = Replying m" by (cases a) (auto split: if_splits)
  then show ?thesis using reading_answers [OF assms] by simp
qed

lemma written_moves:
  assumes "write_step (connection_of c accepted d) s"
  shows "write_step (connection_of c acc d) (connection_of c acc (written c s d))"
proof -
  have "connection_of c acc (written c s d) = s\<lparr>cn_accepted := acc\<rparr>"
    using assms by (elim write_stepE) (simp_all add: connection_of_def written_def setClient_def writePumpEnds_def)
  moreover have "connection_of c acc d = (connection_of c accepted d)\<lparr>cn_accepted := acc\<rparr>" by (simp add: connection_of_def)
  ultimately show ?thesis using write_step_accepted [OF assms] by metis
qed

text \<open>One step of the server, seen from one of its connections.\<close>

lemma connection_moves:
  assumes d: "deployment_reach getenv ord L like_the_app d" and live: "\<not> hb_crashed (dp_hub d)"
    and step: "deployment_step ord L like_the_app d d'"
  shows "(\<exists>acc'. runs_to (connection_of c acc d) (connection_of c acc' d')) \<or> connection_of c [] d' = accepted_connection"
proof -
  have ok: "hub_ok (dp_hub d)" by (rule app_hub_ok [OF d])
  have ok': "hub_ok (dp_hub d')" by (rule app_hub_ok [OF deployment_reach.runs [OF d live step]])
  note match = deployment_pumps [OF d]
  note queued = delivered_runs [OF ok ok']
  have same: ?thesis
    if "cl_send (hb_store (dp_hub d') c) = cl_send (hb_store (dp_hub d) c)"
      "cl_closed (hb_store (dp_hub d') c) = cl_closed (hb_store (dp_hub d) c)" "dp_pumps d' c = dp_pumps d c"
  proof -
    have "connection_of c acc d' = connection_of c acc d" by (simp add: connection_of_def that)
    then show ?thesis by (metis rtranclp.rtrancl_refl)
  qed
  from step show ?thesis
  proof cases
    case (request E rq out s')
    then show ?thesis using queued by (simp add: frame_simps)
  next
    case (upgraded E rq i s' p)
    show ?thesis
    proof (cases "p = c")
      case True
      then show ?thesis
        by (simp add: upgraded(1) connection_of_def accepted_connection_def started_pumps_def hub_defs Let_def)
    next
      case False
      have "\<exists>acc'. runs_to (connection_of c acc d) (connection_of c acc' d')"
        by (rule queued) (simp_all add: upgraded(1) register_store [OF False] registerClient_fields
            frame_simps False [symmetric] subset_insertI)
      then show ?thesis by blast
    qed
  next
    case (bad_json p)
    show ?thesis
    proof (cases "p = c")
      case True
      have "runs_to (connection_of c acc d) (connection_of c acc d')"
        using reading_answers [of "connection_of c acc d" "errorResponse ''invalid JSON''"] bad_json True
        by (simp add: connection_of_def set_read_def)
      then show ?thesis by blast
    next
      case False
      then show ?thesis using same bad_json(1) by (simp add: set_read_def)
    qed
  next
    case (dispatched E p m a w')
    let ?e = "d'\<lparr>dp_pumps := dp_pumps d\<rparr>"
    have "\<exists>acc'. runs_to (connection_of c acc d) (connection_of c acc' ?e)"
      by (rule delivered_runs [OF ok]) (use ok' in \<open>simp_all add: dispatched(1) frame_simps\<close>)
    then obtain acc' where run: "runs_to (connection_of c acc d) (connection_of c acc' ?e)" by blast
    show ?thesis
    proof (cases "p = c")
      case True
      let ?s = "connection_of c acc' ?e"
      have s: "cn_readPump ?s = Reading" "cn_open ?s"
        using dispatched(4,5) True by (simp_all add: connection_of_def)
      have "connection_of c acc' d' = ?s\<lparr>cn_readPump := toSend a\<rparr>"
        using True by (simp add: connection_of_def dispatched(1) set_read_def)
      then show ?thesis using rtranclp_trans [OF run toSend_runs [OF s, of a]] by metis
    next
      case False
      then have "connection_of c acc' d' = connection_of c acc' ?e"
        by (simp add: connection_of_def dispatched(1) set_read_def)
      then show ?thesis using run by metis
    qed
  next
    case (handler_panics E p m w')
    then show ?thesis using no_handler_panic [OF d] by blast
  next
    case (replied p m h')
    have p: "p \<in> hb_clients (dp_hub d)" using match replied(2) by (simp add: pumps_match_def)
    then have h': "length (cl_send (hb_store (dp_hub d) p)) < sendBufferSize" "h' = trySendClient p m (dp_hub d)"
      using replied(3) sendClient_try [OF ok p] by (auto split: if_splits)
    show ?thesis
    proof (cases "p = c")
      case True
      let ?s = "connection_of c acc d"
      have "has_room ?s" "cn_readPump ?s = Replying m"
        using h'(1) p hub_okD(1) [OF ok] True replied(2) by (auto simp: connection_of_def has_room_def clients_open_def)
      moreover have "connection_of c (acc @ [m]) d' = (put m ?s)\<lparr>cn_readPump := Reading\<rparr>"
        using h' p hub_okD(1) [OF ok] True
        by (simp add: connection_of_def replied(1) set_read_def put_def trySendClient_queue frame_simps clients_open_def)
      ultimately show ?thesis using read_step.reply by (metis r_into_rtranclp reads)
    next
      case False
      then show ?thesis
        by (intro same; simp add: replied(1) h'(2) trySendClient_queue frame_simps set_read_def)
    qed
  next
    case (read_failed p)
    show ?thesis
    proof (cases "p = c")
      case True
      have "read_step (connection_of c acc d) (connection_of c acc d')"
        using read_step.read_fails [of "connection_of c acc d"] read_failed True
        by (simp add: connection_of_def set_read_def)
      then show ?thesis by (blast intro: reads)
    next
      case False
      then show ?thesis using same read_failed(1) by (simp add: set_read_def)
    qed
  next
    case (unregistered E p gone h' w')
    have p: "p \<in> hb_clients (dp_hub d)" using match unregistered(4) by (simp add: pumps_match_def)
    have "sv_outbox w' = sv_outbox (dp_service d)"
      using unregistered(6) by (auto simp: OnDisconnect_def split: option.split)
    then have h: "dp_hub d' = snd (unregisterClient p (dp_hub d))"
      using unregistered(1,5) by (simp add: call_def serve_def)
    note listed = leftPeers_listed [OF hub_okD(2) [OF ok], of p]
    have closed: "cl_closed (hb_store (dp_hub d') c) = (if c = p then True else cl_closed (hb_store (dp_hub d) c))"
      by (simp add: h unregisterClient_eq [OF p] frame_simps removeClient_fields [OF p])
    show ?thesis
    proof (cases "p = c")
      case True
      let ?s = "connection_of c acc d"
      have "cl_send (hb_store (dp_hub d') c) = cl_send (hb_store (dp_hub d) c)"
        using listed unfolding True [symmetric] h unregisterClient_eq [OF p]
        by (auto simp: fold_trySend_queue removeClient_fields [OF p])
      then have "connection_of c acc d' = ?s\<lparr>cn_sendClosed := True, cn_readPump := Closing\<rparr>"
        using closed True unregistered(1) by (simp add: connection_of_def set_read_def)
      moreover have "cn_readPump ?s = Taken" using unregistered(4) True by (simp add: connection_of_def)
      ultimately show ?thesis using read_step.queue_closed by (metis r_into_rtranclp reads)
    next
      case False
      define ms where "ms = (if c \<in> set (leftPeers p (dp_hub d)) \<and> \<not> cl_closed (hb_store (dp_hub d) c)
        \<and> length (cl_send (hb_store (dp_hub d) c)) < sendBufferSize then [peerLeft (cl_sessionID (hb_store (dp_hub d) p))] else [])"
      have "cl_send (hb_store (dp_hub d') c) = cl_send (hb_store (dp_hub d) c) @ ms"
        using False listed(1)
        by (auto simp: ms_def h unregisterClient_eq [OF p] fold_trySend_queue removeClient_fields [OF p])
      moreover have "c \<in> hb_clients (dp_hub d') \<or> ms = []"
        using listed(2) by (auto simp: ms_def h unregisterClient_after [OF p])
      ultimately show ?thesis
        using queue_runs [OF ok', of c ms d acc] closed False unregistered(1) by (simp add: set_read_def) blast
    qed
  next
    case (taken p)
    then show ?thesis
      using same read_step.taken [of "connection_of c acc d"] by (cases "p = c") (auto simp: connection_of_def set_read_def intro: reads)
  next
    case (closed_early p)
    then show ?thesis
      using same read_step.closed_early [of "connection_of c acc d"]
      by (cases "p = c") (auto simp: connection_of_def close_conn_def intro: reads)
  next
    case (closed p)
    then show ?thesis
      using same read_step.closed [of "connection_of c acc d"]
      by (cases "p = c") (auto simp: connection_of_def set_read_def close_conn_def intro: reads)
  next
    case (background E k)
    then show ?thesis using queued by (simp add: frame_simps)
  next
    case (ice_failed sid)
    then show ?thesis using queued [of c "[\<lparr>nt_SessionID = sid, nt_Type = ''error'', nt_Fields =
        [(''code'', ''ice-failed''), (''message'', ''ICE connection failed''), (''session_id'', sid)]\<rparr>]"]
      by (simp add: onICEFailed_def frame_simps)
  next
    case (write_pump p accepted s)
    show ?thesis
    proof (cases "p = c")
      case True
      then show ?thesis using written_moves write_pump by (blast intro: writes)
    next
      case False
      then show ?thesis using same write_pump(1) by (simp add: written_def setClient_def)
    qed
  qed (use same in simp_all)
qed

lemma no_pumps_read: "pm_read no_pumps = ReadPumpGone"
  by (simp add: no_pumps_def)

lemma unused_pumps_stay:
  assumes "dp_pumps d c = no_pumps" and "deployment_step ord L D d d'"
  shows "dp_pumps d' c = no_pumps \<or> connection_of c [] d' = accepted_connection"
  using assms(2)
proof cases
  case (upgraded E rq i s' p)
  then show ?thesis
    using assms(1)
    by (cases "p = c")
       (simp_all add: connection_of_def accepted_connection_def started_pumps_def hub_defs Let_def)
next
  case (write_pump p accepted s)
  have "pm_write (dp_pumps d p)" using write_pump(2) by (elim write_stepE) (simp_all add: connection_of_def)
  then have "p \<noteq> c" using assms(1) by (auto simp: no_pumps_def)
  then show ?thesis using assms(1) write_pump(1) by (simp add: written_def)
qed (use assms(1) no_pumps_read in \<open>auto simp: set_read_def close_conn_def\<close>)

lemma deployment_connections:
  "deployment_reach getenv ord L like_the_app d
     \<Longrightarrow> dp_pumps d c = no_pumps \<or> (\<exists>acc. runs_to accepted_connection (connection_of c acc d))"
proof (induction rule: deployment_reach.induct)
  case (runs d d')
  show ?case
  proof (cases "dp_pumps d c = no_pumps")
    case True
    from unused_pumps_stay [OF this runs.hyps(3)] show ?thesis by (metis rtranclp.rtrancl_refl)
  next
    case False
    then obtain acc where acc: "runs_to accepted_connection (connection_of c acc d)" using runs.IH by blast
    from connection_moves [OF runs.hyps, of c acc] show ?thesis
    proof
      assume "\<exists>acc'. runs_to (connection_of c acc d) (connection_of c acc' d')"
      then show ?thesis using rtranclp_trans [OF acc] by blast
    next
      assume new: "connection_of c [] d' = accepted_connection"
      have "runs_to accepted_connection (connection_of c [] d')" unfolding new by (rule rtranclp.rtrancl_refl)
      then show ?thesis by blast
    qed
  qed
qed simp

end
