(* ===== verification/Deployment_Properties.thy ===== *)
theory Deployment_Properties
  imports Deployment_Run Deployment_Pumps
begin

section \<open>What the whole server promises its clients\<close>

text \<open>
  Properties of the assembled program, from the request or message of one client to the queue of
  another: who is told what, how a second user is announced, how a user comes back, and what each connection writes.
  Here the dispatch of a message, with its notifications and the binding of the client, is one step that nothing interrupts;
  theories \<open>Fine_Deployment\<close> and \<open>Access_Deployment\<close> take it apart.
\<close>

subsection \<open>Who is told what\<close>




subsection \<open>Coming back\<close>

text \<open>
  C8: a user whose session is still open in the room comes back, over any connection, in either
  language of the room, with a \<open>join\<close> whose dispatch nothing interrupts, and gets the same session: the answer waits to be
  put into the queue of the new connection, the session is bound to it, no grace timer of a session that is open in the room
  runs any more, and no room, participant or registered session is lost.  (A timer left behind by a session that has been closed
  goes on: \<open>stale_timer_survives_joins\<close> in theory \<open>Service_Properties\<close>.)
\<close>

theorem coming_back_in_time_keeps_everything:
  assumes d: "deployment_reach getenv ord L D d" and "env_ok E"
    and "sv_repo (dp_service d) i = Some p" and "s \<in> room_sessions (dp_service d) i"
    and "msg_Type m = ''join''" and "msg_RoomID m = i" and "msg_UserID m = se_UserID s" and "msg_Lang m \<noteq> []"
    and "msg_Lang m = rm_SourceLang (sv_heap (dp_service d) p) \<or> msg_Lang m = rm_TargetLang (sv_heap (dp_service d) p)"
    and "se_ID s \<noteq> []"
    and "HandleSignaling (mem_repository ord) (pion_webrtc_peer L) E m (dp_service d) = (Return a, w')"
    and "d' = set_read c (toSend a) (on_hub (bindAnswer c a) (call w' d))"
  shows "hb_sessionClients (dp_hub d') (se_ID s) = Some c
    \<and> (\<exists>resp. pm_read (dp_pumps d' c) = Replying (Response resp) \<and> msg_Type resp = ''joined'' \<and> msg_SessionID resp = se_ID s)
    \<and> sv_repo (dp_service d') = sv_repo (dp_service d) \<and> sv_heap (dp_service d') = sv_heap (dp_service d)
    \<and> dom (sv_sessions (dp_service d')) = dom (sv_sessions (dp_service d))
    \<and> (\<forall>t \<in> room_sessions (dp_service d') i. sv_graceTimers (dp_service d') (se_ID t) = None)"
proof -
  let ?w = "dp_service d"
  note c = deployment_consistent [OF d]
  define w1 where "w1 = ?w\<lparr>sv_graceTimers :=
    (\<lambda>sid. if sid \<in> se_ID ` room_sessions ?w i then None else sv_graceTimers ?w sid)\<rparr>"
  have J: "JoinRoom (mem_repository ord) (pion_webrtc_peer L) E (msg_RoomID m) (msg_UserID m) (msg_Lang m) ?w
      = (Inr (se_ID s), w1)"
    unfolding assms(6,7) w1_def by (rule rejoin_mem [OF c assms(2,3,8,9,4)])
  have s: "sv_sessions w1 (se_ID s) = Some s" "se_RoomID s = i"
    using assms(4) by (simp_all add: w1_def room_sessions_iff [OF c])
  let ?w2 = "w1\<lparr>sv_sessions := (sv_sessions w1)(se_ID s \<mapsto> s\<lparr>se_Name := msg_Name m\<rparr>)\<rparr>"
  obtain resp where a: "a = Inr resp" "msg_Type resp = ''joined''" "msg_SessionID resp = se_ID s"
    and w': "sv_repo w' = sv_repo ?w2" "sv_heap w' = sv_heap ?w2" "sv_sessions w' = sv_sessions ?w2"
      "sv_graceTimers w' = sv_graceTimers ?w2"
    using assms(5,11) J s(1)
    by (auto simp: HandleSignaling_def handleJoin_def Let_def empty_message_def frame_simps
        split: option.splits if_splits)
  have S: "sv_sessions w' = (sv_sessions ?w)(se_ID s \<mapsto> s\<lparr>se_Name := msg_Name m\<rparr>)" by (simp add: w'(3)) (simp add: w1_def)
  have "sv_graceTimers w' (se_ID t) = None" if "t \<in> room_sessions w' i" for t
  proof -
    have "se_ID t \<in> se_ID ` room_sessions ?w i"
      using that assms(4) sessions_indexedD(1) [OF consistentD(3) [OF c]]
      by (fastforce simp: room_sessions_def S ran_def split: if_splits)
    then show ?thesis by (simp add: w'(4)) (simp add: w1_def)
  qed
  moreover have "dom (sv_sessions w') = dom (sv_sessions ?w)" using s(1) by (auto simp: S w1_def)
  ultimately show ?thesis
    using a w'(1,2) by (simp add: assms(10,12) bindSession_fields) (simp add: w1_def)
qed

theorem coming_back_in_time_keeps_everything_witness:
  "\<exists>a w'. HandleSignaling example_repo quiet (talk_env (4 * second) ''y'') (join_message ''r'' ''alice'' ''es'' ''Alice'') talk5 = (Return a, w')
     \<and> hb_sessionClients (dp_hub (set_read 2 (toSend a) (on_hub (bindAnswer 2 a) (call w' stageH)))) ''a'' = Some 2
     \<and> sv_repo w' = sv_repo talk5"
proof -
  let ?m = "join_message ''r'' ''alice'' ''es'' ''Alice''"
  obtain a w' where H: "HandleSignaling example_repo quiet (talk_env (4 * second) ''y'') ?m talk5 = (Return a, w')"
    using no_handler_panic [OF stageH_reach, of "talk_env (4 * second) ''y''" ?m]
    by (simp add: stageH_def) (metis go_result.exhaust surj_pair)
  have m: "msg_Type ?m = ''join''" "msg_RoomID ?m = ''r''" "msg_UserID ?m = ''alice''" "msg_Lang ?m = ''es''"
    by (simp_all add: join_message_def)
  have s: "talk_alice \<in> room_sessions (dp_service stageH) ''r''" "sv_repo (dp_service stageH) ''r'' = Some 0"
    by (simp_all add: room_sessions_def stageH_def ran_def) (metis)
  have "sv_heap talk5 0 = talk_room ''r'' ''AAAAAA'' {''alice'', ''bob''} (Some (2 * second))" by simp
  with coming_back_in_time_keeps_everything [OF stageH_reach talk_env_ok [of "4 * second" "''y''"] s(2,1) m(1,2), of a w' _ 2, OF _ _ _ _ _ refl]
  have "hb_sessionClients (dp_hub (set_read 2 (toSend a) (on_hub (bindAnswer 2 a) (call w' stageH)))) ''a'' = Some 2
     \<and> sv_repo w' = sv_repo talk5" using H m by (simp add: stageH_def)
  then show ?thesis using H by blast
qed

text \<open>
  C7: the second user of a room is announced.  While the clients behave like the app, and the room holds
  one session, bound to a connection whose queue has room, a join of another user that is accepted, and whose dispatch nothing
  interrupts, puts
  \<open>peer-joined\<close> with the new user's name at the end of that queue; the new user's connection is bound to the
  new session and answered with the first user's name; no other queue changes.
\<close>

theorem second_user_is_announced:
  assumes d: "deployment_reach getenv ord L like_the_app d" and "env_ok E" and "unused d (ev_uuid E)"
    and "like_the_app d c m" and "msg_Type m = ''join''"
    and "room_sessions (dp_service d) (msg_RoomID m) = {s}"
    and "hb_sessionClients (dp_hub d) (se_ID s) = Some p" and "length (cl_send (hb_store (dp_hub d) p)) < 8"
    and "sv_lookup (dp_service d) (lookupKey (msg_RoomID m) (msg_UserID m)) = None"
    and "fst (JoinRoom (mem_repository ord) (pion_webrtc_peer L) E (msg_RoomID m) (msg_UserID m) (msg_Lang m) (dp_service d)) = Inr sid"
    and "HandleSignaling (mem_repository ord) (pion_webrtc_peer L) E m (dp_service d) = (Return a, w')"
    and "d' = set_read c (toSend a) (on_hub (bindAnswer c a) (call w' d))"
  shows "cl_send (hb_store (dp_hub d') p) = cl_send (hb_store (dp_hub d) p) @
        [Fields [''type'' \<mapsto> ''peer-joined'', ''name'' \<mapsto> msg_Name m]]
    \<and> (\<forall>q. q \<noteq> p \<longrightarrow> cl_send (hb_store (dp_hub d') q) = cl_send (hb_store (dp_hub d) q))
    \<and> hb_sessionClients (dp_hub d') sid = Some c \<and> p \<noteq> c
    \<and> (\<exists>resp. pm_read (dp_pumps d' c) = Replying (Response resp) \<and> msg_Type resp = ''joined''
         \<and> msg_SessionID resp = sid \<and> msg_Name resp = se_Name s)"
proof -
  have ok: "hub_ok (dp_hub d)" by (rule app_hub_ok [OF d])
  have p: "cl_sessionID (hb_store (dp_hub d) p) = se_ID s" "se_ID s \<noteq> []"
    using hub_okD(3) [OF ok] assms(7) by (auto simp: sessions_bound_def)
  have f: "fresh_uuid (dp_service d) (ev_uuid E)" using assms(3) by (simp add: unused_def)
  obtain resp where a: "a = Inr resp" and J: "handleJoin (mem_repository ord) (pion_webrtc_peer L) E m (dp_service d) = (resp, w')"
    using assms(5,11) by (auto simp: HandleSignaling_def split: prod.splits)
  from join_relays_names [OF conjunct1 [OF deployment_service [OF d]] assms(2) f assms(10,9) J]
  have r: "msg_Type resp = ''joined''" "msg_SessionID resp = sid" "msg_Name resp = se_Name s"
    and out: "notified_since (dp_service d) w'
      = [\<lparr>nt_SessionID = se_ID s, nt_Type = ''peer-joined'', nt_Fields = [(''name'', msg_Name m)]\<rparr>]"
    using p(2) by (auto simp: assms(6) notified_since_def)
  have "sid \<noteq> []"
    using assms(9,10) f join_fst [OF deployment_consistent [OF d], of ord "pion_webrtc_peer L" E "msg_RoomID m" "msg_UserID m" "msg_Lang m"]
    by (auto simp: fresh_uuid_def split: option.splits if_splits)
  moreover have "p \<noteq> c" using assms(4,5) p by (auto simp: like_the_app_def)
  ultimately show ?thesis
    using r assms(7,8)
    by (auto simp: assms(12) a out bindSession_fields NotifySession_queue [OF ok] sendBufferSize_def notifyMessage_def frame_simps)
qed

theorem second_user_is_announced_witness:
  "cl_send (hb_store (dp_hub stageF) 0)
     = cl_send (hb_store (dp_hub stageE) 0) @ [Fields [''type'' \<mapsto> ''peer-joined'', ''name'' \<mapsto> ''Bob'']]"
proof -
  let ?m = "join_message ''r'' ''bob'' ''es'' ''Bob''" and ?E = "talk_env (2 * second) ''b''"
  let ?a = "Inr (joined_message ''b'' ''r'' ''Alice'') :: gerror + signaling_message"
  have d': "stageF = set_read 1 (toSend ?a) (on_hub (bindAnswer 1 ?a) (call talk4 stageE))"
    using hubF_eq by (simp add: stageE_def stageF_def joined_message_def)
  have u: "unused stageE (ev_uuid ?E)" "like_the_app stageE 1 ?m"
    by (simp_all add: stageE_def app_join hubE_def hubD_def fresh_uuid_def fresh_room_id_def)
  have s: "room_sessions (dp_service stageE) ''r'' = {talk_alice}"
    by (auto simp: room_sessions_def stageE_def ran_def)
  have J: "fst (JoinRoom example_repo quiet ?E ''r'' ''bob'' ''es'' talk3) = Inr ''b''"
    by (simp add: talk_join_eval talk_alice_def talk3_def)
  show ?thesis
    using second_user_is_announced [OF stageE_reach talk_env_ok u, of talk_alice 0 "''b''", OF _ _ _ _ _ _ _ d'] s J bob_joins
    by (simp add: join_message_def lookupKey_def stageE_def hubE_def hubD_def empty_message_def)
qed

subsection \<open>The connections\<close>



end
