(* ===== verification/Deployment_Crash.thy ===== *)
theory Deployment_Crash
  imports Deployment_Run
begin

section \<open>A visitor who joins twice takes the server down\<close>

text \<open>
  The run of theory \<open>Deployment_Run\<close>, with a client that does not behave like the mobile app: Alice joins
  room \<open>r\<close>, joins room \<open>q\<close> over the same connection and leaves.  The hub forgets her second session only;
  the first one stays bound to a closed client.  When Bob joins \<open>r\<close>, the notification for
  Alice's first session is sent to a closed channel.
\<close>

definition talk_second :: session where
  "talk_second = (NewSession ''c'' ''q'' ''alice'' ''en'' (2 * second))\<lparr>se_Name := ''Alice''\<rparr>"

definition crash1 :: "(mem_repo, unit pion_peer) service" where
  "crash1 = snd (HandleSignaling example_repo quiet (talk_env (2 * second) ''c'') (join_message ''q'' ''alice'' ''en'' ''Alice'') talk3)"

definition crash2 :: "(mem_repo, unit pion_peer) service" where
  "crash2 = OnDisconnect (talk_env (3 * second) ''x'') ''c'' crash1"

definition crash3 :: "(mem_repo, unit pion_peer) service" where
  "crash3 = snd (HandleSignaling example_repo quiet (talk_env (4 * second) ''b'') (join_message ''r'' ''bob'' ''es'' ''Bob'') crash2)"

lemma joins_second_room:
  "HandleSignaling example_repo quiet (talk_env (2 * second) ''c'') (join_message ''q'' ''alice'' ''en'' ''Alice'') talk3
     = (Return (Inr (joined_message ''c'' ''q'' [])), crash1)"
  by (simp add: crash1_def talk_join_eval talk3_def talk_alice_def)

lemma stageD_anything: "talk_reach anything stageD"
  by (rule deployment_reach_mono [OF stageD_reach]) (simp add: anything_def)

definition hubS :: hub where
  "hubS = bindSession 0 ''c'' hubD"

definition hubT :: hub where
  "hubT = trySendClient 0 (Response (joined_message ''c'' ''q'' [])) hubS"

definition hubU :: hub where
  "hubU = snd (unregisterClient 0 hubT)"

lemma crash1_sel [simp]:
  "sv_repo crash1 = sv_repo talk2" "sv_graceTimers crash1 = (\<lambda>_. None)" "sv_outbox crash1 = []"
  "sv_sessions crash1 = [''a'' \<mapsto> talk_alice, ''c'' \<mapsto> talk_second]" "sv_cfg crash1 = mainServiceConfig"
  "sv_lookup crash1 = [''r:alice'' \<mapsto> ''a'', ''q:alice'' \<mapsto> ''c'']"
  "sv_heap crash1 0 = talk_room ''r'' ''AAAAAA'' {''alice''} (Some second)"
  "pp_peers (sv_peer crash1) ''b'' = None"
  by (simp_all add: crash1_def talk_join_eval talk3_def talk_alice_def talk_second_def)

lemma talk_second_sel [simp]: "se_RoomID talk_second = ''q''"
  by (simp add: talk_second_def NewSession_def)

lemma crash2_sel [simp]:
  "sv_repo crash2 = sv_repo talk2" "sv_sessions crash2 = sv_sessions crash1" "sv_outbox crash2 = []"
  "sid \<noteq> ''c'' \<Longrightarrow> sv_graceTimers crash2 sid = None" "sv_cfg crash2 = mainServiceConfig"
  "sv_lookup crash2 = sv_lookup crash1" "sv_heap crash2 = sv_heap crash1" "sv_peer crash2 = sv_peer crash1"
  by (simp_all add: crash2_def OnDisconnect_def talk_second_def)

lemma second_user_joins:
  "HandleSignaling example_repo quiet (talk_env (4 * second) ''b'') (join_message ''r'' ''bob'' ''es'' ''Bob'') crash2
     = (Return (Inr (joined_message ''b'' ''r'' ''Alice'')), crash3)"
  "notified_since crash2 crash3 = [\<lparr>nt_SessionID = ''a'', nt_Type = ''peer-joined'', nt_Fields = [(''name'', ''Bob'')]\<rparr>]"
  by (simp_all add: crash3_def talk_join_eval NotifySession_def talk_second_def notified_since_def)

lemma hubs_sel [simp]:
  "hb_clients hubD = {0}" "\<not> hb_crashed hubD" "\<not> hb_crashed hubS" "\<not> hb_crashed hubT" "leftPeers 0 hubT = []"
  "hb_sessionClients hubD = [''a'' \<mapsto> 0]" "hb_sessionClients hubS = [''a'' \<mapsto> 0, ''c'' \<mapsto> 0]" "hb_sessionClients hubT = hb_sessionClients hubS"
  "hb_clients hubT = {0}" "cl_sessionID (hb_store hubT 0) = ''c''" "cl_closed (hb_store hubS 0) = False" "length (cl_send (hb_store hubS 0)) = 1"
  by (simp_all add: hubT_def hubS_def hubD_def bindSession_fields frame_simps trySendClient_crashed
      leftPeers_def roomPeers_def)
    (simp_all add: bindSession_def setClient_def)

lemma hubU_sel [simp]:
  "hb_clients hubU = {}" "hb_sessionClients hubU = [''a'' \<mapsto> 0]" "cl_closed (hb_store hubU 0)"
  "\<not> hb_crashed hubU"
  by (auto simp: hubU_def unregisterClient_after) (simp add: unregisterClient_eq removeClient_fields)

definition stageU :: "unit deployment" where
  "stageU = talk_state crash2 hubU ((\<lambda>_. no_pumps)(0 := started_pumps\<lparr>pm_read := ReadPumpGone, pm_open := False\<rparr>))"

lemma stageU_reach: "talk_reach anything stageU"
proof -
  let ?ps = "\<lambda>p. (\<lambda>_. no_pumps)(0 := p)"
  have "talk_reach anything (talk_state crash1 hubS (?ps (busy_pumps (Response (joined_message ''c'' ''q'' [])))))"
    unfolding hubS_def
    using talk_joins [OF stageD_anything [unfolded stageD_def] _ _ _ _ _ joins_second_room, of 0]
    by (simp add: anything_def notified_since_def fresh_uuid_def fresh_room_id_def)
  from talk_replied [OF this, of 0 "Response (joined_message ''c'' ''q'' [])"]
  have "talk_reach anything (talk_state crash1 hubT (?ps started_pumps))" by (simp add: hubT_def)
  moreover have "unregisterClient 0 hubT = (Some ''c'', hubU)" by (simp add: hubU_def unregisterClient_eq)
  ultimately show ?thesis
    unfolding stageU_def using talk_drops [of anything crash1 hubT "?ps started_pumps" 0 "''x''", OF _ _ _ _ _ crash2_def [symmetric]]
    by (simp add: notified_since_def fresh_uuid_def fresh_room_id_def)
qed

text \<open>
  Without the discipline of the mobile app two visitors can make the server panic: there is a run of
  requests and messages, in which every step of the code is the one it takes, that ends in a send on
  the closed channel of a client that has gone.
\<close>

theorem two_joins_on_one_connection_crash_the_server:
  "\<exists>d. deployment_reach talk_getenv sorted_keys quiet_pion anything d \<and> hb_crashed (dp_hub d)"
proof -
  let ?h = "registerClient 1 (serveWS 1 ''r'' hubU)" and ?ps = "(dp_pumps stageU)(1 := started_pumps)"
  have V: "talk_reach anything (talk_state crash2 ?h ?ps)"
    using talk_connects [OF stageU_reach [unfolded stageU_def], of "''r''" 1]
    by (simp add: stageU_def new_client_def fresh_uuid_def fresh_room_id_def)
  have h: "hb_sessionClients ?h = [''a'' \<mapsto> 0]" "\<not> hb_crashed ?h" "cl_closed (hb_store ?h 0)"
    using hubU_sel hubs_sel by (simp_all add: registerClient_def serveWS_def setClient_def Let_def)
  have "talk_reach anything (talk_state crash3 (bindSession 1 ''b'' (deliver (notified_since crash2 crash3) ?h))
      (?ps(1 := busy_pumps (joined_frame ''b'' ''Alice''))))"
    using talk_joins [OF V h(2) _ _ _ _ second_user_joins(1), of 1] h
    by (simp add: anything_def fresh_uuid_def fresh_room_id_def)
  moreover have "hb_crashed (deliver (notified_since crash2 crash3) ?h)"
    using h by (simp add: second_user_joins(2) hub_NotifySession_def notifyLookup_def trySendClient_crashed)
  ultimately show ?thesis by (intro exI conjI) (assumption, simp add: bindSession_fields)
qed

end
