(* ===== verification/Deployment_Shutdown.thy ===== *)
theory Deployment_Shutdown
  imports Deployment_Run
begin

section \<open>After the signal\<close>

text \<open>
  A signal cancels the context of the four goroutines of \<open>run\<close> and makes \<open>ListenAndServe\<close> shut the HTTP server
  down, which leaves hijacked WebSocket connections alone.  What the server still does then, and what it does
  no longer once the hub loop has returned.
\<close>

definition continues ::
  "(mem_repo \<Rightarrow> string list) \<Rightarrow> 'x pion_api \<Rightarrow> ('x deployment \<Rightarrow> client_ptr \<Rightarrow> signaling_message \<Rightarrow> bool)
     \<Rightarrow> 'x deployment \<Rightarrow> 'x deployment \<Rightarrow> bool" where
  "continues ord L D = (\<lambda>d d'. \<not> hb_crashed (dp_hub d) \<and> deployment_step ord L D d d')\<^sup>*\<^sup>*"

lemma continues_reach:
  "continues ord L D d d' \<Longrightarrow> deployment_reach getenv ord L D d \<Longrightarrow> deployment_reach getenv ord L D d'"
  unfolding continues_def by (induction rule: rtranclp_induct) (auto intro: deployment_reach.runs)

lemma running_kept: "deployment_step ord L D d d' \<Longrightarrow> dp_running d' \<subseteq> dp_running d"
  by (induction rule: deployment_step.induct)
     (auto simp: serve_def call_def on_hub_def set_read_def close_conn_def written_def)

lemma timers_without_the_hub:
  assumes d: "deployment_reach getenv ord L D d" and step: "deployment_step ord L D d d'" and off: "HubLoop \<notin> dp_running d"
    and none: "sv_graceTimers (dp_service d) sid = None"
  shows "sv_graceTimers (dp_service d') sid = None"
proof -
  have "pumps_match d" using deployment_pumps [OF d] by blast
  note kept = step_kept [OF step this no_handler_panic [OF d]]
  show ?thesis
  proof (cases "carried (dp_service d) (dp_service d')")
    case True
    then show ?thesis using none by (simp add: carried_def)
  next
    case False
    with kept off obtain E :: env and c m a w' where j: "env_ok E" "unused d (ev_uuid E)" "msg_Type m = ''join''"
        "HandleSignaling (mem_repository ord) (pion_webrtc_peer L) E m (dp_service d) = (Return a, w')"
        "dp_service d' = w'"
      by auto
    from j(4) obtain resp where "handleJoin (mem_repository ord) (pion_webrtc_peer L) E m (dp_service d) = (resp, w')"
      by (auto simp: HandleSignaling_def j(3) split: prod.splits)
    from handleJoin_opened [OF deployment_consistent [OF d] j(1) _ this] j(2) none show ?thesis
      by (simp add: unused_def j(5))
  qed
qed

lemma clients_without_the_hub:
  assumes "deployment_step ord L D d d'" and "HubLoop \<notin> dp_running d"
  shows "hb_clients (dp_hub d') = hb_clients (dp_hub d)"
    and "pm_read (dp_pumps d c) = Unregistering \<Longrightarrow> pm_read (dp_pumps d' c) = Unregistering"
proof -
  show "hb_clients (dp_hub d') = hb_clients (dp_hub d)"
    using assms
    by (induction rule: deployment_step.induct)
       (auto simp: frame_simps sendClient_clients onICEFailed_def written_def loop_idle_def)
  show "pm_read (dp_pumps d c) = Unregistering \<Longrightarrow> pm_read (dp_pumps d' c) = Unregistering"
    using assms by (induction rule: deployment_step.induct) (auto simp: loop_idle_def)
qed

text \<open>
  C40: once the hub loop has returned, nobody leaves any more: whatever happens later, the hub keeps the clients it has, a
  connection whose read has failed waits for good to be unregistered, and no grace timer is started.
\<close>

theorem nobody_leaves_after_the_hub_loop:
  assumes "deployment_reach getenv ord L D d" and "HubLoop \<notin> dp_running d" and "continues ord L D d d'"
  shows "hb_clients (dp_hub d') = hb_clients (dp_hub d)
    \<and> (pm_read (dp_pumps d c) = Unregistering \<longrightarrow> pm_read (dp_pumps d' c) = Unregistering)
    \<and> (sv_graceTimers (dp_service d) sid = None \<longrightarrow> sv_graceTimers (dp_service d') sid = None)"
proof -
  have "HubLoop \<notin> dp_running d' \<and> ?thesis"
    using assms(3) unfolding continues_def
  proof (induction rule: rtranclp_induct)
    case (step e e')
    have e: "deployment_reach getenv ord L D e"
      using continues_reach [OF _ assms(1)] step.hyps(1) unfolding continues_def by blast
    show ?case
      using step running_kept [of ord L D e e'] clients_without_the_hub [of ord L D e e']
        timers_without_the_hub [OF e, of e' sid] by blast
  qed (use assms(2) in simp)
  then show ?thesis by blast
qed

text \<open>Alice's read fails, a signal comes, the hub loop returns; then the other goroutines do.\<close>

definition stageZ :: "unit deployment" where
  "stageZ = (set_read 0 Unregistering stageF)\<lparr>dp_cancelled := True, dp_running := UNIV - {HubLoop}\<rparr>"

lemma stageZ_reach: "talk_reach like_the_app stageZ"
proof -
  let ?d = "set_read 0 Unregistering stageF"
  have live: "\<not> hb_crashed (dp_hub stageF)" by (simp add: stageF_def)
  have f: "pm_read (dp_pumps stageF 0) = Reading" "dp_running ?d = UNIV" "\<forall>c. pm_read (dp_pumps ?d c) \<noteq> Taken"
    by (simp_all add: stageF_def)
  have 1: "talk_reach like_the_app ?d"
    by (rule deployment_reach.runs [OF stageF_reach live deployment_step.read_failed [OF f(1)]])
  have 2: "talk_reach like_the_app (?d\<lparr>dp_cancelled := True\<rparr>)"
    by (rule deployment_reach.runs [OF 1 _ deployment_step.signalled]) (simp add: live)
  have "talk_reach like_the_app (?d\<lparr>dp_cancelled := True, dp_running := dp_running (?d\<lparr>dp_cancelled := True\<rparr>) - {HubLoop}\<rparr>)"
    by (rule deployment_reach.runs [OF 2 _ deployment_step.returned]) (use f(3) in \<open>simp_all add: live\<close>)
  then show ?thesis using f(2) by (simp add: stageZ_def)
qed

theorem nobody_leaves_after_the_hub_loop_witness:
  "pm_read (dp_pumps (stageZ\<lparr>dp_running := dp_running stageZ - {ExpirationSweep}\<rparr>) 0) = Unregistering
    \<and> HubLoop \<notin> dp_running stageZ"
proof -
  let ?d = "stageZ\<lparr>dp_running := dp_running stageZ - {ExpirationSweep}\<rparr>"
  have "\<not> hb_crashed (dp_hub stageZ)" "dp_cancelled stageZ" by (simp_all add: stageZ_def stageF_def)
  then have "continues sorted_keys quiet_pion like_the_app stageZ ?d"
    unfolding continues_def by (intro r_into_rtranclp conjI deployment_step.returned) simp_all
  from nobody_leaves_after_the_hub_loop [OF stageZ_reach _ this, of 0] show ?thesis by (simp add: stageZ_def)
qed

end
