(* ===== verification/Fine_Deployment.thy ===== *)
theory Fine_Deployment
  imports Deployment_Rooms
begin

section \<open>The whole server in finer steps\<close>

text \<open>
  The assembled server of theory \<open>Deployment\<close> with the notifications of a call taken apart: the call
  changes the service, and its goroutine then goes through what it has to tell, in order, looking the client up under the
  hub's mutex in one step and sending in another.  \<open>dispatch\<close> binds the session of a joined client only
  after that.  Any step of any other goroutine may come in between.
\<close>

text \<open>A message on its way to a client that has been looked up, and the notifications still to come.\<close>

type_synonym notifier = "(client_ptr \<times> wire_msg) option \<times> notification list"

fun notifier_step :: "notifier \<Rightarrow> hub \<Rightarrow> notifier \<times> hub" where
  "notifier_step (Some (c, m), ns) h = ((None, ns), trySendClient c m h)"
| "notifier_step (None, n # ns) h = ((map_option (\<lambda>c. (c, told n)) (notifyLookup (nt_SessionID n) h), ns), h)"
| "notifier_step (None, []) h = ((None, []), h)"

text \<open>
  \<open>fn_dispatch\<close>: the read pumps whose handler has changed the service but not returned; \<open>fn_background\<close>:
  the goroutines of the service and of the WebRTC callbacks that still notify.
\<close>

record 'x fine =
  fn_dep :: "'x deployment"
  fn_dispatch :: "client_ptr \<rightharpoonup> notifier \<times> (gerror + signaling_message)"
  fn_background :: "notifier list"

abbreviation fn_hub :: "'x fine \<Rightarrow> hub" where
  "fn_hub f \<equiv> dp_hub (fn_dep f)"

abbreviation fn_service :: "'x fine \<Rightarrow> (mem_repo, 'x pion_peer) service" where
  "fn_service f \<equiv> dp_service (fn_dep f)"

definition notifiers :: "'x fine \<Rightarrow> notifier set" where
  "notifiers f = fst ` ran (fn_dispatch f) \<union> set (fn_background f)"

text \<open>The messages that have been addressed and not sent.\<close>

definition on_the_way :: "'x fine \<Rightarrow> (client_ptr \<times> wire_msg) set" where
  "on_the_way f = {cm. \<exists>ns. (Some cm, ns) \<in> notifiers f}"

definition set_service :: "(mem_repo, 'x pion_peer) service \<Rightarrow> 'x deployment \<Rightarrow> 'x deployment" where
  "set_service w d = d\<lparr>dp_server := (dp_server d)\<lparr>sr_manager := w\<rparr>\<rparr>"

definition ice_notification :: "string \<Rightarrow> notification" where
  "ice_notification sid = \<lparr>nt_SessionID = sid, nt_Type = ''error'',
     nt_Fields = [(''code'', ''ice-failed''), (''message'', ''ICE connection failed''), (''session_id'', sid)]\<rparr>"

inductive piece_step ::
  "(mem_repo \<Rightarrow> string list) \<Rightarrow> 'x pion_api \<Rightarrow> ('x deployment \<Rightarrow> client_ptr \<Rightarrow> signaling_message \<Rightarrow> bool)
     \<Rightarrow> 'x fine \<Rightarrow> 'x fine \<Rightarrow> bool"
  for ord L D where
  handled: "fn_dep f = d \<Longrightarrow> env_ok E \<Longrightarrow> unused d (ev_uuid E) \<Longrightarrow> pm_read (dp_pumps d c) = Reading \<Longrightarrow> pm_open (dp_pumps d c)
    \<Longrightarrow> D d c m
    \<Longrightarrow> HandleSignaling (mem_repository ord) (pion_webrtc_peer L) E m (dp_service d) = (Return a, w')
    \<Longrightarrow> piece_step ord L D f (f\<lparr>fn_dep := set_read c Dispatching (set_service w' d),
          fn_dispatch := (fn_dispatch f)(c \<mapsto> ((None, notified_since (dp_service d) w'), a))\<rparr>)"
| dispatch_notifies: "fn_dispatch f c = Some (n, a) \<Longrightarrow> notifier_step n (fn_hub f) = (n', h')
    \<Longrightarrow> piece_step ord L D f (f\<lparr>fn_dep := on_hub (\<lambda>_. h') (fn_dep f), fn_dispatch := (fn_dispatch f)(c \<mapsto> (n', a))\<rparr>)"
| dispatch_returns: "fn_dispatch f c = Some ((None, []), a)
    \<Longrightarrow> piece_step ord L D f (f\<lparr>fn_dep := set_read c (toSend a) (on_hub (bindAnswer c a) (fn_dep f)),
          fn_dispatch := (fn_dispatch f)(c := None)\<rparr>)"
| acts: "fn_dep f = d \<Longrightarrow> env_ok E \<Longrightarrow> unused d (ev_uuid E) \<Longrightarrow> of_its_own k
    \<Longrightarrow> (k = CallSweep \<longrightarrow> ExpirationSweep \<in> dp_running d)
    \<Longrightarrow> w' = perform (mem_repository ord) (pion_webrtc_peer L) E k (dp_service d)
    \<Longrightarrow> piece_step ord L D f (f\<lparr>fn_dep := set_service w' d,
          fn_background := fn_background f @ [(None, notified_since (dp_service d) w')]\<rparr>)"
| ice_fails: "piece_step ord L D f (f\<lparr>fn_background := fn_background f @ [(None, [ice_notification sid])]\<rparr>)"
| background_notifies: "fn_background f = xs @ n # ys \<Longrightarrow> notifier_step n (fn_hub f) = (n', h')
    \<Longrightarrow> piece_step ord L D f (f\<lparr>fn_dep := on_hub (\<lambda>_. h') (fn_dep f), fn_background := xs @ n' # ys\<rparr>)"
| background_returns: "fn_background f = xs @ (None, []) # ys \<Longrightarrow> piece_step ord L D f (f\<lparr>fn_background := xs @ ys\<rparr>)"

text \<open>
  A new client is none that a message is on its way to.  Steps of the coarse relation are runs of pieces that nothing
  interrupts, so they may stay.
\<close>

inductive fine_step ::
  "(mem_repo \<Rightarrow> string list) \<Rightarrow> 'x pion_api \<Rightarrow> ('x deployment \<Rightarrow> client_ptr \<Rightarrow> signaling_message \<Rightarrow> bool)
     \<Rightarrow> 'x fine \<Rightarrow> 'x fine \<Rightarrow> bool"
  for ord L D where
  whole: "deployment_step ord L D (fn_dep f) d'
    \<Longrightarrow> \<forall>cm \<in> on_the_way f. fst cm \<in> hb_clients (dp_hub d') \<longrightarrow> fst cm \<in> hb_clients (fn_hub f)
    \<Longrightarrow> fine_step ord L D f (f\<lparr>fn_dep := d'\<rparr>)"
| piece: "piece_step ord L D f f' \<Longrightarrow> fine_step ord L D f f'"

abbreviation no_joins :: "('x deployment \<Rightarrow> client_ptr \<Rightarrow> signaling_message \<Rightarrow> bool)
    \<Rightarrow> 'x deployment \<Rightarrow> client_ptr \<Rightarrow> signaling_message \<Rightarrow> bool" where
  "no_joins D \<equiv> \<lambda>d c m. D d c m \<and> msg_Type m \<noteq> ''join''"

lemma piece_step_mono:
  "piece_step ord L D f f' \<Longrightarrow> (\<And>d c m. D d c m \<Longrightarrow> D' d c m) \<Longrightarrow> piece_step ord L D' f f'"
  by (induction rule: piece_step.induct) (blast intro: piece_step.intros)+

lemma fine_step_mono:
  "fine_step ord L D f f' \<Longrightarrow> (\<And>d c m. D d c m \<Longrightarrow> D' d c m) \<Longrightarrow> fine_step ord L D' f f'"
  by (induction rule: fine_step.induct) (blast intro: fine_step.intros deployment_step_mono piece_step_mono)+

definition coarse :: "'x deployment \<Rightarrow> 'x fine" where
  "coarse d = \<lparr>fn_dep = d, fn_dispatch = (\<lambda>_. None), fn_background = []\<rparr>"

inductive fine_reach ::
  "(string \<Rightarrow> string) \<Rightarrow> (mem_repo \<Rightarrow> string list) \<Rightarrow> 'x pion_api
     \<Rightarrow> ('x deployment \<Rightarrow> client_ptr \<Rightarrow> signaling_message \<Rightarrow> bool) \<Rightarrow> 'x fine \<Rightarrow> bool"
  for getenv ord L D where
  started: "wire_up getenv x = Inr (s, h, codec)
    \<Longrightarrow> fine_reach getenv ord L D (coarse \<lparr>dp_server = s, dp_hub = h, dp_pumps = (\<lambda>_. no_pumps),
       dp_running = UNIV, dp_cancelled = False\<rparr>)"
| runs: "fine_reach getenv ord L D f \<Longrightarrow> \<not> hb_crashed (fn_hub f) \<Longrightarrow> fine_step ord L D f f'
    \<Longrightarrow> fine_reach getenv ord L D f'"

lemma coarse_sel [simp]:
  "fn_dep (coarse d) = d" "fn_dispatch (coarse d) = (\<lambda>_. None)" "fn_background (coarse d) = []"
  "(coarse d)\<lparr>fn_dep := d'\<rparr> = coarse d'" "on_the_way (coarse d) = {}"
  by (simp_all add: coarse_def on_the_way_def notifiers_def)

text \<open>The coarse runs are among the fine ones.\<close>

lemma coarse_reach: "deployment_reach getenv ord L D d \<Longrightarrow> fine_reach getenv ord L D (coarse d)"
proof (induction rule: deployment_reach.induct)
  case (runs d d')
  have "fine_step ord L D (coarse d) ((coarse d)\<lparr>fn_dep := d'\<rparr>)"
    by (rule fine_step.whole) (use runs.hyps(3) in simp_all)
  then show ?case using fine_reach.runs [OF runs.IH] runs.hyps(2) by simp
qed (rule fine_reach.started)

end
