(* ===== verification/Fine_Properties.thy ===== *)
theory Fine_Properties
  imports Fine_Deployment
begin

section \<open>What the finer steps of the server keep and what they add\<close>

text \<open>
  The service of the finer relation is one the coarse relation knows too; pieces that nothing interrupts
  are the steps of the coarse relation; and while the clients behave like the mobile app, the
  one thing finer steps add is that a message can be sent to a client that has been unregistered since it was looked up.
\<close>

lemma set_service_sel [simp]:
  "dp_server (set_service w d) = (dp_server d)\<lparr>sr_manager := w\<rparr>" "dp_hub (set_service w d) = dp_hub d"
  "dp_pumps (set_service w d) = dp_pumps d"
  by (simp_all add: set_service_def)

lemma notifier_step_frame:
  assumes "notifier_step n h = (n', h')"
  shows "h' = h \<or> (\<exists>c m ns. n = (Some (c, m), ns) \<and> h' = trySendClient c m h)"
  using assms by (cases "(n, h)" rule: notifier_step.cases) auto

lemma piece_step_server:
  assumes s: "server_reach getenv ord L (dp_server (fn_dep f))" and step: "piece_step ord L D f f'"
  shows "server_reach getenv ord L (dp_server (fn_dep f'))"
proof -
  let ?R = "mem_repository ord" and ?P = "pion_webrtc_peer L"
  have own: "server_reach getenv ord L ((dp_server (fn_dep f))\<lparr>sr_manager := perform ?R ?P E k (fn_service f)\<rparr>)"
    if "env_ok E" "unused (fn_dep f) (ev_uuid E)" for E k
    using server_reach.background [OF s that(1)] that(2) by (simp add: unused_def)
  from step show ?thesis
  proof cases
    case (handled d E c m a w')
    then show ?thesis using own [of E "CallSignal m"] by simp
  next
    case (acts d E k w')
    then show ?thesis using own [of E k] by simp
  qed (use s in simp_all)
qed

lemma fine_server: "fine_reach getenv ord L D f \<Longrightarrow> server_reach getenv ord L (dp_server (fn_dep f))"
proof (induction rule: fine_reach.induct)
  case (runs f f')
  from runs.hyps(3) show ?case
    using runs.IH by cases (auto intro: deployment_step_server piece_step_server)
qed (auto intro: server_reach.listening)

subsection \<open>Uninterrupted pieces\<close>

lemma on_hub_on_hub [simp]: "on_hub g (on_hub h d) = on_hub (\<lambda>x. g (h x)) d"
  by (simp add: on_hub_def)

lemma on_hub_id: "on_hub (\<lambda>_. dp_hub d) d = d"
  by (simp add: on_hub_def)

text \<open>A notification is told to the client bound to its session.\<close>

lemma NotifySession_told: "hub_NotifySession (nt_SessionID n) (nt_Type n) (nt_Fields n) h =
    (case notifyLookup (nt_SessionID n) h of None \<Rightarrow> h | Some c \<Rightarrow> trySendClient c (told n) h)"
  by (simp add: hub_NotifySession_def told_def split: option.split)

lemma dispatch_runs_on:
  "fn_dispatch f c = Some ((None, ns), a) \<Longrightarrow> (piece_step ord L D)\<^sup>*\<^sup>* f
     (f\<lparr>fn_dep := on_hub (\<lambda>_. deliver ns (fn_hub f)) (fn_dep f), fn_dispatch := (fn_dispatch f)(c \<mapsto> ((None, []), a))\<rparr>)"
proof (induction ns arbitrary: f)
  case Nil
  then show ?case by (simp add: on_hub_id fun_upd_idem)
next
  case (Cons n ns)
  let ?next = "\<lambda>s h. f\<lparr>fn_dep := on_hub (\<lambda>_. h) (fn_dep f), fn_dispatch := (fn_dispatch f)(c \<mapsto> ((s, ns), a))\<rparr>"
  let ?h = "hub_NotifySession (nt_SessionID n) (nt_Type n) (nt_Fields n) (fn_hub f)"
  have "(piece_step ord L D)\<^sup>*\<^sup>* f (?next None ?h)"
  proof (cases "notifyLookup (nt_SessionID n) (fn_hub f)")
    case None
    then show ?thesis
      using piece_step.dispatch_notifies [OF Cons.prems, of "(None, ns)" "fn_hub f" ord L D]
      by (simp add: NotifySession_told r_into_rtranclp)
  next
    case (Some q)
    have "piece_step ord L D f (?next (Some (q, told n)) (fn_hub f))"
      using piece_step.dispatch_notifies [OF Cons.prems, of "(Some (q, told n), ns)" "fn_hub f" ord L D] Some by simp
    moreover have "piece_step ord L D (?next (Some (q, told n)) (fn_hub f)) (?next None ?h)"
      using piece_step.dispatch_notifies [of "?next (Some (q, told n)) (fn_hub f)" c "(Some (q, told n), ns)" a "(None, ns)" ?h ord L D]
        Some by (simp add: NotifySession_told)
    ultimately show ?thesis by (rule converse_rtranclp_into_rtranclp [OF _ r_into_rtranclp])
  qed
  moreover have "(piece_step ord L D)\<^sup>*\<^sup>* (?next None ?h)
      (f\<lparr>fn_dep := on_hub (\<lambda>_. deliver (n # ns) (fn_hub f)) (fn_dep f), fn_dispatch := (fn_dispatch f)(c \<mapsto> ((None, []), a))\<rparr>)"
  proof -
    have "fn_dispatch (?next None ?h) c = Some ((None, ns), a)" by simp
    from Cons.IH [OF this] show ?thesis by (simp del: fun_upd_apply)
  qed
  ultimately show ?case by (rule rtranclp_trans)
qed

lemma background_runs_on:
  "fn_background f = xs @ [(None, ns)] \<Longrightarrow> (piece_step ord L D)\<^sup>*\<^sup>* f
     (f\<lparr>fn_dep := on_hub (\<lambda>_. deliver ns (fn_hub f)) (fn_dep f), fn_background := xs\<rparr>)"
proof (induction ns arbitrary: f)
  case Nil
  then show ?case using piece_step.background_returns [of f xs "[]" ord L D] by (simp add: on_hub_id r_into_rtranclp)
next
  case (Cons n ns)
  let ?next = "\<lambda>s h. f\<lparr>fn_dep := on_hub (\<lambda>_. h) (fn_dep f), fn_background := xs @ [(s, ns)]\<rparr>"
  let ?h = "hub_NotifySession (nt_SessionID n) (nt_Type n) (nt_Fields n) (fn_hub f)"
  have "(piece_step ord L D)\<^sup>*\<^sup>* f (?next None ?h)"
  proof (cases "notifyLookup (nt_SessionID n) (fn_hub f)")
    case None
    then show ?thesis
      using piece_step.background_notifies [OF Cons.prems, of "(None, ns)" "fn_hub f" ord L D]
      by (simp add: NotifySession_told r_into_rtranclp)
  next
    case (Some q)
    have "piece_step ord L D f (?next (Some (q, told n)) (fn_hub f))"
      using piece_step.background_notifies [OF Cons.prems, of "(Some (q, told n), ns)" "fn_hub f" ord L D] Some by simp
    moreover have "piece_step ord L D (?next (Some (q, told n)) (fn_hub f)) (?next None ?h)"
      using piece_step.background_notifies [of "?next (Some (q, told n)) (fn_hub f)" xs "(Some (q, told n), ns)" "[]" "(None, ns)" ?h ord L D]
        Some by (simp add: NotifySession_told)
    ultimately show ?thesis by (rule converse_rtranclp_into_rtranclp [OF _ r_into_rtranclp])
  qed
  moreover have "(piece_step ord L D)\<^sup>*\<^sup>* (?next None ?h)
      (f\<lparr>fn_dep := on_hub (\<lambda>_. deliver (n # ns) (fn_hub f)) (fn_dep f), fn_background := xs\<rparr>)"
    using Cons.IH [of "?next None ?h"] by simp
  ultimately show ?case by (rule rtranclp_trans)
qed

lemma onICEFailed_deliver: "onICEFailed sid h = deliver [ice_notification sid] h"
  by (simp add: onICEFailed_def ice_notification_def)

lemma dispatching_kept:
  assumes "pumps_match d" and "pm_read (dp_pumps d c) = Dispatching" and "deployment_step ord L D d d'"
  shows "pm_read (dp_pumps d' c) = Dispatching"
proof -
  have c: "c \<in> hb_clients (dp_hub d)" using assms(1,2) by (simp add: pumps_match_def)
  from assms(3) show ?thesis
  proof cases
    case (upgraded E rq i s' p)
    then have "p \<noteq> c" using c by (auto simp: new_client_def)
    then show ?thesis using assms(2) by (simp add: upgraded(1))
  qed (use assms(2) in \<open>auto simp: written_sel(2)\<close>)
qed

lemma notifier_step_clients: "notifier_step n h = (n', h') \<Longrightarrow> hb_clients h' = hb_clients h"
  using notifier_step_frame by (fastforce simp: frame_simps)

lemma pumps_match_hub: "hb_clients h = hb_clients (dp_hub d) \<Longrightarrow> pumps_match (on_hub (\<lambda>_. h) d) \<longleftrightarrow> pumps_match d"
  by (simp add: pumps_match_def)

text \<open>A read pump whose handler has not returned dispatches.\<close>

definition dispatches_match :: "'x fine \<Rightarrow> bool" where
  "dispatches_match f \<longleftrightarrow> pumps_match (fn_dep f) \<and> (\<forall>c. fn_dispatch f c \<noteq> None \<longrightarrow> pm_read (dp_pumps (fn_dep f) c) = Dispatching)"

lemma dispatches_match_piece:
  assumes "dispatches_match f" and "piece_step ord L D f f'"
  shows "dispatches_match f'"
  using assms(2)
proof cases
  case (dispatch_notifies c n a n' h')
  then show ?thesis using assms(1) notifier_step_clients [OF dispatch_notifies(3)]
    by (auto simp: dispatches_match_def pumps_match_hub)
next
  case (background_notifies xs n ys n' h')
  then show ?thesis using assms(1) notifier_step_clients [OF background_notifies(3)]
    by (auto simp: dispatches_match_def pumps_match_hub)
qed (use assms(1) in \<open>auto simp: dispatches_match_def pumps_match_def\<close>)

lemma fine_dispatches: "fine_reach getenv ord L D f \<Longrightarrow> dispatches_match f"
proof (induction rule: fine_reach.induct)
  case (started x s h codec)
  then show ?case by (auto simp: wire_up_def Let_def NewHub_def no_pumps_def dispatches_match_def pumps_match_def split: sum.splits)
next
  case (runs f f')
  from runs.hyps(3) show ?case
  proof cases
    case (whole d')
    then show ?thesis using runs.IH by (auto simp: dispatches_match_def intro: dispatching_kept pumps_match_step)
  next
    case piece
    then show ?thesis by (rule dispatches_match_piece [OF runs.IH])
  qed
qed

text \<open>
  In every state the finer relation reaches, the HTTP server and the service are in a state the coarse relation
  knows, and a step of the whole server in which the service notifies somebody (a message dispatched, or an action of its
  own) is a run of pieces that nothing interrupts, with the same effect on the service, the hub and the
  pumps; so is the report of a failed ICE connection.
\<close>

lemma pieces_make_the_steps:
  assumes f: "fine_reach getenv ord L D f"
    and "deployment_step ord L D (fn_dep f) d' \<and> sv_outbox (dp_service d') \<noteq> sv_outbox (fn_service f)
      \<or> d' = on_hub (onICEFailed sid) (fn_dep f)"
  shows "server_reach getenv ord L (dp_server (fn_dep f)) \<and> (piece_step ord L D)\<^sup>*\<^sup>* f (f\<lparr>fn_dep := d'\<rparr>)"
proof (rule conjI [OF fine_server [OF f]])
  let ?goal = "(piece_step ord L D)\<^sup>*\<^sup>* f (f\<lparr>fn_dep := d'\<rparr>)"
  let ?d = "fn_dep f" and ?R = "mem_repository ord" and ?P = "pion_webrtc_peer L"
  have acts: ?goal
    if "piece_step ord L D f (f\<lparr>fn_dep := e, fn_background := fn_background f @ [(None, ns)]\<rparr>)"
      and "d' = on_hub (deliver ns) e" for e ns
  proof -
    let ?g = "f\<lparr>fn_dep := e, fn_background := fn_background f @ [(None, ns)]\<rparr>"
    have "(piece_step ord L D)\<^sup>*\<^sup>* ?g (?g\<lparr>fn_dep := on_hub (\<lambda>_. deliver ns (fn_hub ?g)) (fn_dep ?g), fn_background := fn_background f\<rparr>)"
      by (rule background_runs_on) simp
    from converse_rtranclp_into_rtranclp [where r = "piece_step ord L D", OF that(1) this]
    show ?thesis using that(2) by (simp add: on_hub_def)
  qed
  have dispatch: ?goal
    if h: "env_ok E" "unused ?d (ev_uuid E)" "pm_read (dp_pumps ?d c) = Reading" "pm_open (dp_pumps ?d c)" "D ?d c m"
      "HandleSignaling ?R ?P E m (fn_service f) = (Return a, w')"
      and d': "d' = set_read c (toSend a) (on_hub (bindAnswer c a) (call w' ?d))" for E c m a w'
  proof -
    let ?ns = "notified_since (fn_service f) w'" and ?e = "set_read c Dispatching (set_service w' ?d)"
    let ?g = "f\<lparr>fn_dep := ?e, fn_dispatch := (fn_dispatch f)(c \<mapsto> ((None, ?ns), a))\<rparr>"
    let ?k = "?g\<lparr>fn_dep := on_hub (\<lambda>_. deliver ?ns (fn_hub ?g)) (fn_dep ?g), fn_dispatch := (fn_dispatch ?g)(c \<mapsto> ((None, []), a))\<rparr>"
    have "fn_dispatch f c = None" using fine_dispatches [OF f] h(3) unfolding dispatches_match_def
      by (metis read_pump.distinct(1))
    then have k: "?k\<lparr>fn_dep := set_read c (toSend a) (on_hub (bindAnswer c a) (fn_dep ?k)), fn_dispatch := (fn_dispatch ?k)(c := None)\<rparr>
        = f\<lparr>fn_dep := d'\<rparr>"
      by (cases f) (simp add: d' on_hub_def set_read_def call_def serve_def set_service_def fun_upd_idem)
    have "piece_step ord L D f ?g" by (rule piece_step.handled [where f = f and d = ?d and D = D, OF refl h])
    also have "(piece_step ord L D)\<^sup>*\<^sup>* ?g ?k" by (rule dispatch_runs_on) simp
    also have "piece_step ord L D ?k (f\<lparr>fn_dep := d'\<rparr>)"
      using piece_step.dispatch_returns [of ?k c a ord L D] unfolding k by simp
    finally show ?thesis by blast
  qed
  from assms(2) show ?goal
  proof
    assume "d' = on_hub (onICEFailed sid) ?d"
    then have "d' = on_hub (deliver [ice_notification sid]) ?d" by (simp add: onICEFailed_deliver on_hub_def)
    moreover have "piece_step ord L D f (f\<lparr>fn_dep := ?d, fn_background := fn_background f @ [(None, [ice_notification sid])]\<rparr>)"
      using piece_step.ice_fails [of ord L D f sid] by (cases f) simp
    ultimately show ?thesis by (intro acts)
  next
    assume step: "deployment_step ord L D ?d d' \<and> sv_outbox (dp_service d') \<noteq> sv_outbox (fn_service f)"
    from conjunct1 [OF step] show ?goal
    proof cases
      case (dispatched E c m a w')
      then show ?thesis using dispatch by blast
    next
      case (background E k)
      let ?w = "perform ?R ?P E k (fn_service f)"
      have "d' = on_hub (deliver (notified_since (fn_service f) ?w)) (set_service ?w ?d)"
        by (simp add: background(1) call_def serve_def on_hub_def set_service_def)
      then show ?thesis using acts [OF piece_step.acts [where f = f and d = ?d, OF refl background(2-5) refl]] by blast
    next
      case (handler_panics E c m w')
      then show ?thesis using server_never_panics [OF fine_server [OF f]] by blast
    next
      case (request E rq r out s')
      then show ?thesis using step handle_outbox [of ?R ?P E rq r "dp_server ?d"] by simp
    next
      case (upgraded E rq i s' c)
      then show ?thesis using step handle_outbox [of ?R ?P E rq "GetWS i" "dp_server ?d"] by (simp del: handle.simps)
    next
      case (unregistered E c gone h' w')
      then show ?thesis using step by (auto simp: OnDisconnect_def split: option.splits)
    qed (use step in simp_all)
  qed
qed

subsection \<open>The app's clients\<close>

text \<open>What is known of a message on its way: which session it is for, and that its client has been registered.\<close>

definition flying_ok :: "hub \<Rightarrow> client_ptr \<times> wire_msg \<Rightarrow> bool" where
  "flying_ok h cm \<longleftrightarrow> (\<exists>n. snd cm = told n \<and> nt_SessionID n = cl_sessionID (hb_store h (fst cm)) \<and> nt_SessionID n \<noteq> []
     \<and> (fst cm \<in> hb_clients h \<or> cl_closed (hb_store h (fst cm))))"

definition fine_ok :: "'x fine \<Rightarrow> bool" where
  "fine_ok f \<longleftrightarrow> hub_reach single_join (fn_hub f) \<and> dispatches_match f \<and> (\<forall>cm \<in> on_the_way f. flying_ok (fn_hub f) cm)
     \<and> (\<forall>c n resp. fn_dispatch f c = Some (n, Inr resp) \<longrightarrow> msg_Type resp = ''joined'' \<longrightarrow> cl_sessionID (hb_store (fn_hub f) c) = [])"

lemma fine_okI:
  assumes "hub_reach single_join (fn_hub f)" and "dispatches_match f" and "\<And>cm. cm \<in> on_the_way f \<Longrightarrow> flying_ok (fn_hub f) cm"
    and "\<And>c n resp. fn_dispatch f c = Some (n, Inr resp) \<Longrightarrow> msg_Type resp = ''joined'' \<Longrightarrow> cl_sessionID (hb_store (fn_hub f) c) = []"
  shows "fine_ok f"
  using assms unfolding fine_ok_def by blast

lemma fine_okD:
  assumes "fine_ok f"
  shows "hub_reach single_join (fn_hub f)" and "dispatches_match f" and "cm \<in> on_the_way f \<Longrightarrow> flying_ok (fn_hub f) cm"
    and "fn_dispatch f c = Some (n, Inr resp) \<Longrightarrow> msg_Type resp = ''joined'' \<Longrightarrow> cl_sessionID (hb_store (fn_hub f) c) = []"
  using assms unfolding fine_ok_def by blast+

text \<open>One notifier's step, with the others standing by.\<close>

lemma notifier_step_flying:
  assumes h: "hub_reach single_join h" and n: "notifier_step n h = (n', h')" and live: "\<not> hb_crashed h'"
    and fly: "\<And>cm. fst n = Some cm \<Longrightarrow> flying_ok h cm"
  shows "hub_reach single_join h'" and "fst n' = Some cm \<Longrightarrow> flying_ok h' cm"
    and "flying_ok h cm \<Longrightarrow> flying_ok h' cm" and "cl_sessionID (hb_store h' p) = cl_sessionID (hb_store h p)"
proof -
  have ok: "hub_ok h" by (rule hub_reach_ok [OF h])
  show "hub_reach single_join h'"
  proof (cases "h' = h")
    case False
    then obtain c m ns where s: "n = (Some (c, m), ns)" "h' = trySendClient c m h" using notifier_step_frame [OF n] by blast
    then have c: "c \<in> hb_clients h" using fly [of "(c, m)"] live by (auto simp: flying_ok_def trySendClient_crashed)
    have "hub_step h (Replied c m) = h'"
      using False hub_okD(1) [OF ok] c
      by (auto simp: s(2) sendClient_try [OF ok c] trySendClient_def Let_def clients_open_def split: if_splits)
    then show ?thesis using hub_reach.event [OF h, of "Replied c m"] c by simp
  qed (use h in simp)
  show "cl_sessionID (hb_store h' p) = cl_sessionID (hb_store h p)" for p
    using notifier_step_frame [OF n] by (auto simp: frame_simps)
  then show "flying_ok h cm \<Longrightarrow> flying_ok h' cm"
    using notifier_step_frame [OF n] by (cases cm) (auto simp: flying_ok_def frame_simps)
  show "fst n' = Some cm \<Longrightarrow> flying_ok h' cm"
    using n hub_okD(3) [OF ok]
    by (cases "(n, h)" rule: notifier_step.cases) (fastforce simp: flying_ok_def notifyLookup_def sessions_bound_def)+
qed

lemma client_kept:
  assumes ok: "hub_ok (dp_hub d)" and m: "pumps_match d" and step: "deployment_step ord L like_the_app d d'"
    and p: "p \<in> hb_clients (dp_hub d') \<longrightarrow> p \<in> hb_clients (dp_hub d)"
    and joined: "cl_sessionID (hb_store (dp_hub d) p) \<noteq> [] \<or> pm_read (dp_pumps d p) = Dispatching"
  shows "cl_sessionID (hb_store (dp_hub d') p) = cl_sessionID (hb_store (dp_hub d) p)
    \<and> (p \<in> hb_clients (dp_hub d) \<or> cl_closed (hb_store (dp_hub d) p) \<longrightarrow> p \<in> hb_clients (dp_hub d') \<or> cl_closed (hb_store (dp_hub d') p))"
  using step
proof cases
  case (upgraded E rq i s' c)
  then have "c \<noteq> p" using p by (auto simp: new_client_def registerClient_fields frame_simps)
  then show ?thesis by (simp add: upgraded(1) registerClient_fields frame_simps) (simp add: hub_defs Let_def frame_simps)
next
  case (dispatched E c x a w')
  have "cl_sessionID (hb_store (bindAnswer c a h) p) = cl_sessionID (hb_store h p)" for h
  proof (cases a)
    case (Inr resp)
    then show ?thesis
      using joined_by_join [OF dispatched(7) [unfolded Inr]] dispatched(4,6) joined
      by (auto simp: bindSession_fields like_the_app_def)
  qed simp
  then show ?thesis by (simp add: dispatched(1) frame_simps)
next
  case (replied c x h')
  then have c: "c \<in> hb_clients (dp_hub d)" using m by (simp add: pumps_match_def)
  then show ?thesis using replied(1,3) by (auto simp: sendClient_try [OF ok c] frame_simps split: if_splits)
next
  case (unregistered E c gone h' w')
  have c: "c \<in> hb_clients (dp_hub d)" using m unregistered(4) by (simp add: pumps_match_def)
  have "h' = snd (unregisterClient c (dp_hub d))" using unregistered(5) by simp
  then show ?thesis
    by (auto simp: unregistered(1) frame_simps unregisterClient_eq [OF c] removeClient_fields [OF c])
next
  case (write_pump c acc s)
  then show ?thesis by (auto simp: written_def setClient_def)
qed (simp_all add: frame_simps onICEFailed_def)

text \<open>The invariant, up to the first panic.\<close>

lemma fine_ok_whole:
  assumes ok: "fine_ok f"
    and calm: "\<And>E m w. HandleSignaling (mem_repository ord) (pion_webrtc_peer L) E m (fn_service f) \<noteq> (Panic, w)"
    and step: "deployment_step ord L like_the_app (fn_dep f) d'"
    and new: "\<forall>cm \<in> on_the_way f. fst cm \<in> hb_clients (dp_hub d') \<longrightarrow> fst cm \<in> hb_clients (fn_hub f)"
  shows "fine_ok (f\<lparr>fn_dep := d'\<rparr>)"
proof (rule fine_okI, goal_cases)
  note h = fine_okD(1) [OF ok] and m = fine_okD(2) [OF ok]
  have pumps: "pumps_match (fn_dep f)" using m by (simp add: dispatches_match_def)
  note kept = client_kept [OF hub_reach_ok [OF h] pumps step]
  have reading: "pm_read (dp_pumps (fn_dep f) c) = Dispatching" if "fn_dispatch f c = Some x" for c x
    using m that unfolding dispatches_match_def by blast
  {
    case 1
    show ?case using deployment_hub_step [OF app_disciplined h pumps calm step] by simp
  next
    case 2
    show ?case
      using pumps_match_step [OF pumps step] dispatching_kept [OF pumps _ step] reading
      by (simp add: dispatches_match_def del: split_paired_All not_None_eq) blast
  next
    case (3 cm)
    then have cm: "cm \<in> on_the_way f" by (simp add: on_the_way_def notifiers_def)
    have fly: "flying_ok (fn_hub f) cm" by (rule fine_okD(3) [OF ok cm])
    then have "cl_sessionID (hb_store (fn_hub f) (fst cm)) \<noteq> []" by (auto simp: flying_ok_def)
    with kept [of "fst cm"] new cm have "cl_sessionID (hb_store (dp_hub d') (fst cm)) = cl_sessionID (hb_store (fn_hub f) (fst cm))
      \<and> (fst cm \<in> hb_clients (fn_hub f) \<or> cl_closed (hb_store (fn_hub f) (fst cm))
          \<longrightarrow> fst cm \<in> hb_clients (dp_hub d') \<or> cl_closed (hb_store (dp_hub d') (fst cm)))" by blast
    then show ?case using fly unfolding flying_ok_def by simp metis
  next
    case (4 c n resp)
    then have d: "fn_dispatch f c = Some (n, Inr resp)" by simp
    have "c \<in> hb_clients (fn_hub f)" using pumps reading [OF d] by (simp add: pumps_match_def)
    then show ?case using kept [of c] reading [OF d] fine_okD(4) [OF ok d 4(2)] by simp
  }
qed

lemma on_the_way_notifier: "n \<in> notifiers f \<Longrightarrow> fst n = Some cm \<Longrightarrow> cm \<in> on_the_way f"
  by (cases n) (auto simp: on_the_way_def)

text \<open>What a piece changes in the set of notifiers.\<close>

lemma notifiers_dispatch:
  "fn_dispatch f c = Some (n, a) \<Longrightarrow> n \<in> notifiers f"
  "notifiers (f\<lparr>fn_dep := d, fn_dispatch := (fn_dispatch f)(c \<mapsto> (n', a))\<rparr>) \<subseteq> insert n' (notifiers f)"
  "notifiers (f\<lparr>fn_dep := d, fn_dispatch := (fn_dispatch f)(c := None)\<rparr>) \<subseteq> notifiers f"
  by (force simp: notifiers_def ran_def split: if_splits)+

lemma notifiers_background:
  "fn_background f = xs @ n # ys \<Longrightarrow> n \<in> notifiers f"
  "fn_background f = xs @ n # ys \<Longrightarrow> notifiers (f\<lparr>fn_dep := d, fn_background := xs @ n' # ys\<rparr>) \<subseteq> insert n' (notifiers f)"
  "fn_background f = xs @ n # ys \<Longrightarrow> notifiers (f\<lparr>fn_background := xs @ ys\<rparr>) \<subseteq> notifiers f"
  "notifiers (f\<lparr>fn_dep := d, fn_background := fn_background f @ [n]\<rparr>) = insert n (notifiers f)"
  "notifiers (f\<lparr>fn_background := fn_background f @ [n]\<rparr>) = insert n (notifiers f)"
  by (auto simp: notifiers_def)

lemma on_the_way_after:
  "notifiers g \<subseteq> insert n (notifiers f) \<Longrightarrow> cm \<in> on_the_way g \<Longrightarrow> cm \<in> on_the_way f \<or> fst n = Some cm"
  by (fastforce simp: on_the_way_def)

lemma fine_ok_notified:
  assumes ok: "fine_ok f" and n: "n \<in> notifiers f" "notifier_step n (fn_hub f) = (n', h')" and live: "\<not> hb_crashed h'"
    and f': "fn_hub f' = h'" "dispatches_match f'" "notifiers f' \<subseteq> insert n' (notifiers f)"
    and d: "\<And>c n2 a. fn_dispatch f' c = Some (n2, a) \<Longrightarrow> \<exists>n1. fn_dispatch f c = Some (n1, a)"
  shows "fine_ok f'"
proof (rule fine_okI)
  note told = fine_okD(3) [OF ok on_the_way_notifier [OF n(1)]]
  note step = notifier_step_flying [OF fine_okD(1) [OF ok] n(2) live told]
  show "hub_reach single_join (fn_hub f')" using step(1) f'(1) by simp
  show "dispatches_match f'" by (rule f'(2))
  show "flying_ok (fn_hub f') cm" if "cm \<in> on_the_way f'" for cm
    using on_the_way_after [OF f'(3) that] step(2,3) fine_okD(3) [OF ok] f'(1) by blast
  show "cl_sessionID (hb_store (fn_hub f') c) = []"
    if "fn_dispatch f' c = Some (n2, Inr resp)" "msg_Type resp = ''joined''" for c n2 resp
    using d [OF that(1)] fine_okD(4) [OF ok _ that(2)] step(4) f'(1) by metis
qed

lemma fine_ok_quiet:
  assumes ok: "fine_ok f" and f': "fn_hub f' = fn_hub f" "dispatches_match f'" "notifiers f' \<subseteq> insert (None, ns) (notifiers f)"
    and d: "\<And>c n2 resp. fn_dispatch f' c = Some (n2, Inr resp) \<Longrightarrow> msg_Type resp = ''joined'' \<Longrightarrow>
       cl_sessionID (hb_store (fn_hub f) c) = []"
  shows "fine_ok f'"
proof (rule fine_okI)
  show "flying_ok (fn_hub f') cm" if "cm \<in> on_the_way f'" for cm
    using on_the_way_after [OF f'(3) that] fine_okD(3) [OF ok] f'(1) by fastforce
qed (use fine_okD(1) [OF ok] f'(1,2) d in simp_all)

lemma bindAnswer_session:
  "cl_sessionID (hb_store (bindAnswer c a h) p) = cl_sessionID (hb_store h p)
     \<or> p = c \<and> (\<exists>resp. a = Inr resp \<and> msg_Type resp = ''joined'')"
  by (cases a) (auto simp: bindSession_fields)

lemma fine_ok_returns:
  assumes ok: "fine_ok f" and c: "fn_dispatch f c = Some ((None, []), a)"
    and f': "f' = f\<lparr>fn_dep := set_read c (toSend a) (on_hub (bindAnswer c a) (fn_dep f)), fn_dispatch := (fn_dispatch f)(c := None)\<rparr>"
    and m: "dispatches_match f'"
  shows "fine_ok f'"
proof (rule fine_okI)
  have h: "fn_hub f' = bindAnswer c a (fn_hub f)" by (simp add: f')
  have one: "cl_sessionID (hb_store (fn_hub f) c) = []" if "a = Inr resp" "msg_Type resp = ''joined''" for resp
    using fine_okD(4) [OF ok c [unfolded that(1)] that(2)] .
  have "pm_read (dp_pumps (fn_dep f) c) = Dispatching" "pumps_match (fn_dep f)"
    using fine_okD(2) [OF ok] c unfolding dispatches_match_def by blast+
  then have reg: "c \<in> hb_clients (fn_hub f)" by (simp add: pumps_match_def)
  show "hub_reach single_join (fn_hub f')"
  proof (cases "\<exists>resp. a = Inr resp \<and> msg_Type resp = ''joined'' \<and> msg_SessionID resp \<noteq> []")
    case True
    then obtain resp where r: "a = Inr resp" "msg_Type resp = ''joined''" "msg_SessionID resp \<noteq> []" by blast
    have "hub_reach single_join (hub_step (fn_hub f) (Joined c (msg_SessionID resp)))"
      by (rule hub_reach.event [OF fine_okD(1) [OF ok]]) (use reg r one [OF r(1,2)] in simp_all)
    then show ?thesis by (simp add: h r)
  next
    case False
    then have "bindAnswer c a (fn_hub f) = fn_hub f" by (cases a) auto
    then show ?thesis using fine_okD(1) [OF ok] h by simp
  qed
  show "dispatches_match f'" by (rule m)
  have "notifiers f' \<subseteq> insert (None, []) (notifiers f)" unfolding f' using notifiers_dispatch(3) [where f = f and c = c] by blast
  note after = on_the_way_after [OF this]
  show "flying_ok (fn_hub f') cm" if "cm \<in> on_the_way f'" for cm
  proof -
    have fly: "flying_ok (fn_hub f) cm" using after [OF that] fine_okD(3) [OF ok] by auto
    then have "cl_sessionID (hb_store (fn_hub f) (fst cm)) \<noteq> []" by (auto simp: flying_ok_def)
    then have "cl_sessionID (hb_store (fn_hub f') (fst cm)) = cl_sessionID (hb_store (fn_hub f) (fst cm))"
      using bindAnswer_session [of c a "fn_hub f" "fst cm"] one unfolding h by auto
    then show ?thesis using fly by (auto simp: flying_ok_def h)
  qed
  show "cl_sessionID (hb_store (fn_hub f') p) = []"
    if "fn_dispatch f' p = Some (n2, Inr resp)" "msg_Type resp = ''joined''" for p n2 resp
    using that fine_okD(4) [OF ok _ that(2), of p n2] bindAnswer_session [of c a "fn_hub f" p]
    unfolding h by (auto simp: f' split: if_splits)
qed

lemma fine_ok_piece:
  assumes ok: "fine_ok f" and step: "piece_step ord L like_the_app f f'" and live: "\<not> hb_crashed (fn_hub f')"
  shows "fine_ok f'"
proof -
  note m = dispatches_match_piece [OF fine_okD(2) [OF ok] step]
  note one = fine_okD(4) [OF ok]
  from step show ?thesis
  proof cases
    case (handled d E c msg a w')
    have new: "cl_sessionID (hb_store (dp_hub d) c) = []" if "a = Inr resp" "msg_Type resp = ''joined''" for resp
      using joined_by_join [OF handled(8) [unfolded that(1)] that(2)] handled(7) by (simp add: like_the_app_def)
    show ?thesis
    proof (rule fine_ok_quiet [OF ok _ m])
      show "notifiers f' \<subseteq> insert (None, notified_since (dp_service d) w') (notifiers f)"
        unfolding handled(1) by (rule notifiers_dispatch(2))
      show "cl_sessionID (hb_store (fn_hub f) p) = []"
        if "fn_dispatch f' p = Some (n, Inr resp)" "msg_Type resp = ''joined''" for p n resp
        using that one [of p n resp] new [of resp] handled(2) unfolding handled(1) by (simp split: if_splits)
    qed (simp add: handled(1,2))
  next
    case (dispatch_notifies c n a n' h')
    show ?thesis
    proof (rule fine_ok_notified [OF ok notifiers_dispatch(1) [OF dispatch_notifies(2)] dispatch_notifies(3) _ _ m])
      show "notifiers f' \<subseteq> insert n' (notifiers f)" unfolding dispatch_notifies(1) by (rule notifiers_dispatch(2))
      show "\<exists>n1. fn_dispatch f p = Some (n1, b)" if "fn_dispatch f' p = Some (n2, b)" for p n2 b
        using that dispatch_notifies(2) unfolding dispatch_notifies(1) by (simp split: if_splits)
    qed (use live in \<open>simp_all add: dispatch_notifies(1)\<close>)
  next
    case (dispatch_returns c a)
    then show ?thesis by (intro fine_ok_returns [OF ok _ _ m])
  next
    case (acts d E k w')
    then show ?thesis using fine_ok_quiet [OF ok _ m] one notifiers_background(4) [of f] by simp blast
  next
    case (ice_fails sid)
    then show ?thesis using fine_ok_quiet [OF ok _ m] one notifiers_background(5) [of f] by simp blast
  next
    case (background_notifies xs n ys n' h')
    show ?thesis
    proof (rule fine_ok_notified [OF ok notifiers_background(1) [OF background_notifies(2)] background_notifies(3) _ _ m])
      show "notifiers f' \<subseteq> insert n' (notifiers f)"
        unfolding background_notifies(1) by (rule notifiers_background(2) [OF background_notifies(2)])
    qed (use live in \<open>simp_all add: background_notifies(1)\<close>)
  next
    case (background_returns xs ys)
    then show ?thesis
      using fine_ok_quiet [OF ok _ m] one notifiers_background(3) [OF background_returns(2)] by simp blast
  qed
qed

lemma fine_reach_ok: "fine_reach getenv ord L like_the_app f \<Longrightarrow> \<not> hb_crashed (fn_hub f) \<Longrightarrow> fine_ok f"
proof (induction rule: fine_reach.induct)
  case (started x s h codec)
  then have "h = NewHub" by (auto simp: wire_up_def Let_def split: sum.splits)
  then show ?case
    using fine_dispatches [OF fine_reach.started [OF started(1)]] hub_reach.start by (simp add: fine_ok_def)
next
  case (runs f f')
  have ok: "fine_ok f" by (rule runs.IH [OF runs.hyps(2)])
  from runs.hyps(3) show ?case
  proof cases
    case (whole d')
    then show ?thesis using fine_ok_whole [OF ok server_never_panics [OF fine_server [OF runs.hyps(1)]]] by simp
  next
    case piece
    then show ?thesis using fine_ok_piece [OF ok _ runs.prems] by blast
  qed
qed

text \<open>
  A goroutine sends a notification to a client it looked up before and that has been unregistered since, its queue
  closed.  The client is the one that carried the session the notification is for.
\<close>

definition sends_late :: "'x fine \<Rightarrow> hub \<Rightarrow> bool" where
  "sends_late f h \<longleftrightarrow> (\<exists>c n ns. (Some (c, told n), ns) \<in> notifiers f \<and> h = trySendClient c (told n) (fn_hub f)
     \<and> cl_sessionID (hb_store (fn_hub f) c) = nt_SessionID n
     \<and> c \<notin> hb_clients (fn_hub f) \<and> cl_closed (hb_store (fn_hub f) c))"

text \<open>With the notifications taken apart that is the one panic left.\<close>

lemma fine_panics_late:
  assumes ok: "fine_ok f"
    and calm: "\<And>E m w. HandleSignaling (mem_repository ord) (pion_webrtc_peer L) E m (fn_service f) \<noteq> (Panic, w)"
    and step: "fine_step ord L like_the_app f f'" and crash: "hb_crashed (fn_hub f')"
  shows "sends_late f (fn_hub f')"
proof -
  have live: "\<not> hb_crashed (fn_hub f)" by (rule hub_okD(4) [OF hub_reach_ok [OF fine_okD(1) [OF ok]]])
  have late: ?thesis if n: "n \<in> notifiers f" and s: "notifier_step n (fn_hub f) = (n', fn_hub f')" for n n'
  proof -
    from notifier_step_frame [OF s] crash live obtain c m ns
      where send: "n = (Some (c, m), ns)" "fn_hub f' = trySendClient c m (fn_hub f)" by metis
    then have closed: "cl_closed (hb_store (fn_hub f) c)" using crash live by (simp add: trySendClient_crashed)
    then have "c \<notin> hb_clients (fn_hub f)" using hub_okD(1) [OF hub_reach_ok [OF fine_okD(1) [OF ok]]] by (auto simp: clients_open_def)
    moreover have "flying_ok (fn_hub f) (c, m)" using fine_okD(3) [OF ok on_the_way_notifier [OF n]] send(1) by simp
    ultimately show ?thesis using n send closed by (auto simp: flying_ok_def sends_late_def) metis
  qed
  from step show ?thesis
  proof cases
    case (whole d')
    then have "fine_ok f'" using fine_ok_whole [OF ok calm] by simp
    then show ?thesis using crash hub_okD(4) [OF hub_reach_ok [OF fine_okD(1)]] by blast
  next
    case piece
    then show ?thesis
    proof cases
      case (dispatch_notifies c n a n' h')
      then show ?thesis using late [OF notifiers_dispatch(1)] by simp
    next
      case (background_notifies xs n ys n' h')
      then show ?thesis using late [OF notifiers_background(1)] by simp
    next
      case (dispatch_returns c a)
      then show ?thesis using crash live by (cases a) (auto simp: bindSession_fields split: if_splits)
    qed (use crash live in simp_all)
  qed
qed

end
