(* ===== verification/Interleaving_Registry.thy ===== *)
theory Interleaving_Registry
  imports Interleaving
begin

section \<open>No schedule makes LeaveRoom panic: app/roomsvc/service.go\<close>

text \<open>
  \<open>LeaveRoom\<close> looks a session up and uses it without asking whether it is there; a nil session is a panic.
  What protects it is an invariant of the two maps of the registry that holds between any two accesses of
  concurrent calls: the session a key leads to is there and is a session of that room and user.  It holds as long as
  the UUIDs of the calls in progress differ.
\<close>

text \<open>The UUID a join has still to register, and the session a leave has found and has not yet removed, with its key.\<close>

fun unregistered :: "pending_call \<Rightarrow> string option" where
  "unregistered (JoinCall E i u lang (JoinTouch p)) = None"
| "unregistered (JoinCall E i u lang (JoinResave p)) = None"
| "unregistered (JoinCall E i u lang (JoinFull p)) = None"
| "unregistered (JoinCall E i u lang (JoinDone r)) = None"
| "unregistered (JoinCall E i u lang pc) = Some (ev_uuid E)"
| "unregistered _ = None"

fun found :: "pending_call \<Rightarrow> (string \<times> string) option" where
  "found (LeaveCall E i u (LeaveDisconnect sid s)) = Some (sid, lookupKey i u)"
| "found (LeaveCall E i u (LeaveClose sid s)) = Some (sid, lookupKey i u)"
| "found (LeaveCall E i u (LeaveFind sid s)) = Some (sid, lookupKey i u)"
| "found (LeaveCall E i u (LeaveMember sid s p)) = Some (sid, lookupKey i u)"
| "found (LeaveCall E i u (LeaveSave sid s p)) = Some (sid, lookupKey i u)"
| "found (LeaveCall E i u (LeaveForget sid s)) = Some (sid, lookupKey i u)"
| "found _ = None"

definition call_ok :: "('r, 'p) service \<Rightarrow> pending_call \<Rightarrow> bool" where
  "call_ok w c \<longleftrightarrow> (\<forall>sid. unregistered c = Some sid \<longrightarrow> sv_sessions w sid = None)
     \<and> (\<forall>sid k s. found c = Some (sid, k) \<longrightarrow> sv_sessions w sid = Some s \<longrightarrow> keyOf s = k)
     \<and> (\<forall>E i u. c \<noteq> LeaveCall E i u (LeaveDone Panic))"

text \<open>What one call has still to register is neither what another registers nor what another has found.\<close>

definition apart :: "pending_call \<Rightarrow> pending_call \<Rightarrow> bool" where
  "apart c d \<longleftrightarrow> (\<forall>sid. unregistered c = Some sid \<longrightarrow> unregistered d \<noteq> Some sid \<and> (\<forall>k. found d \<noteq> Some (sid, k)))"

definition calls_ok :: "pending_call list \<times> ('r, 'p) service \<Rightarrow> bool" where
  "calls_ok = (\<lambda>(cs, w). svc_registered w \<and> (\<forall>c \<in> set cs. call_ok w c)
     \<and> (\<forall>a < length cs. \<forall>b < length cs. a \<noteq> b \<longrightarrow> apart (cs ! a) (cs ! b)))"

text \<open>Sessions are at most lost, and keep their room and user.\<close>

definition sessions_shrink :: "('r, 'p) service \<Rightarrow> ('r, 'p) service \<Rightarrow> bool" where
  "sessions_shrink w w' \<longleftrightarrow>
     (\<forall>sid s'. sv_sessions w' sid = Some s' \<longrightarrow> (\<exists>s. sv_sessions w sid = Some s \<and> keyOf s' = keyOf s))"

lemma sessions_shrink_same [simp]: "sv_sessions w' = sv_sessions w \<Longrightarrow> sessions_shrink w w'"
  by (simp add: sessions_shrink_def)

lemma sessions_shrink_trans: "sessions_shrink u v \<Longrightarrow> sessions_shrink v w \<Longrightarrow> sessions_shrink u w"
  unfolding sessions_shrink_def by metis

lemma dropLookupKey_shrinks: "sessions_shrink w (dropLookupKey P i k w)"
  by (auto simp: dropLookupKey_def Let_def sessions_shrink_def split: option.split)

lemma fold_drop_shrinks: "sessions_shrink w (fold (dropLookupKey P i) ks w)"
  by (induction ks arbitrary: w) (auto intro: sessions_shrink_trans dropLookupKey_shrinks)

lemma delete_step_registry:
  assumes "svc_registered w" and "delete_step R P E i pc w = (pc', w')"
  shows "svc_registered w' \<and> sessions_shrink w w'"
  using assms registered_dropLoop [OF assms(1)] fold_drop_shrinks [of w]
  by (cases pc) (auto simp: frame_simps sessions_shrink_def split: sum.splits prod.splits option.splits)

lemma timer_step_registry:
  assumes "svc_registered w" and "timer_step R P E sid t pc w = (pc', w')"
  shows "svc_registered w' \<and> sessions_shrink w w'"
proof (cases pc)
  case (TimerDelete dpc)
  then show ?thesis
    using assms delete_step_registry [OF assms(1), of R P E "gt_roomID t" dpc] by (cases dpc) (auto simp: frame_simps split: prod.splits)
qed (use assms in \<open>auto simp: sessions_shrink_def\<close>)

lemma create_step_registry:
  assumes "create_step R E a b pc w = (pc', w')"
  shows "sv_sessions w' = sv_sessions w \<and> sv_lookup w' = sv_lookup w"
  using assms
  by (induction R E a b pc w rule: create_step.induct) (auto split: sum.splits prod.splits option.splits if_splits)

text \<open>A leave removes what it found, which is nobody else's session any more even when its key leads elsewhere.\<close>

lemma registered_forget:
  assumes "registered S L" and "\<forall>s. S sid = Some s \<longrightarrow> keyOf s = k"
  shows "registered (S(sid := None)) (L(k := None))"
  using assms unfolding registered_def by (metis fun_upd_apply option.distinct(1))

lemma leave_step_registry:
  assumes w: "svc_registered w" "call_ok w (LeaveCall E i u pc)" and step: "leave_step R P E i u pc w = (pc', w')"
  shows "svc_registered w' \<and> sessions_shrink w w' \<and> call_ok w' (LeaveCall E i u pc')
    \<and> (\<forall>sid k. found (LeaveCall E i u pc') = Some (sid, k) \<longrightarrow>
         found (LeaveCall E i u pc) = Some (sid, k) \<or> sv_sessions w sid \<noteq> None)"
proof (cases pc)
  case LeaveStart
  then show ?thesis
    using assms by (auto simp: call_ok_def sessions_shrink_def elim!: registeredE split: option.splits)
next
  case (LeaveDisconnect sid s)
  show ?thesis
  proof (cases "sv_sessions w sid")
    case None
    then show ?thesis using assms LeaveDisconnect by (auto simp: call_ok_def)
  next
    case (Some x)
    have same: "se_ID (Disconnect x) = se_ID x" "keyOf (Disconnect x) = keyOf x" by (simp_all add: Disconnect_def)
    have w': "w' = w\<lparr>sv_sessions := (sv_sessions w)(sid \<mapsto> Disconnect x)\<rparr>" "pc' = LeaveClose sid s"
      using step Some LeaveDisconnect by auto
    have "sessions_shrink w w'" using Some same(2) by (simp add: w' sessions_shrink_def)
    then show ?thesis
      using registered_update [OF w(1) Some same] w(2) Some LeaveDisconnect same(2) by (simp add: w' call_ok_def)
  qed
next
  case (LeaveForget sid s)
  then show ?thesis
    using assms by (auto simp: call_ok_def sessions_shrink_def Let_def frame_simps intro!: registered_forget split: if_splits)
qed (use assms in \<open>auto simp: call_ok_def split: sum.splits prod.splits option.splits if_splits\<close>)

lemma join_step_registry:
  assumes w: "svc_registered w" "call_ok w (JoinCall E i u lang pc)" and step: "join_step R P E i u lang pc w = (pc', w')"
  shows "svc_registered w' \<and> call_ok w' (JoinCall E i u lang pc')
    \<and> (sessions_shrink w w' \<or> unregistered (JoinCall E i u lang pc) = Some (ev_uuid E)
        \<and> sv_sessions w' = (sv_sessions w)(ev_uuid E \<mapsto> NewSession (ev_uuid E) i u lang (ev_now E)))
    \<and> (unregistered (JoinCall E i u lang pc') = None \<or> unregistered (JoinCall E i u lang pc) = Some (ev_uuid E))"
  using assms
  by (cases pc) (auto simp: call_ok_def frame_simps NewSession_def intro!: registered_insert split: sum.splits prod.splits option.splits if_splits)

text \<open>One access of one call, and what it means for the others.\<close>

lemma call_step_registry:
  assumes w: "svc_registered w" "call_ok w c" and step: "call_step R P c w = (c', w')"
  shows "svc_registered w'" and "call_ok w' c'"
    and "call_ok w d \<Longrightarrow> apart c d \<Longrightarrow> apart d c \<Longrightarrow> call_ok w' d \<and> apart c' d \<and> apart d c'"
proof -
  have all: "svc_registered w' \<and> call_ok w' c'
    \<and> (sessions_shrink w w' \<or> (\<exists>sid s. unregistered c = Some sid \<and> sv_sessions w' = (sv_sessions w)(sid \<mapsto> s)))
    \<and> (unregistered c' = None \<or> unregistered c' = unregistered c)
    \<and> (\<forall>sid k. found c' = Some (sid, k) \<longrightarrow> found c = Some (sid, k) \<or> sv_sessions w sid \<noteq> None)"
  proof (cases c)
    case (JoinCall E i u lang pc)
    obtain pc' where pc': "join_step R P E i u lang pc w = (pc', w')" "c' = JoinCall E i u lang pc'"
      using step JoinCall by (auto split: prod.splits)
    have "unregistered (JoinCall E i u lang pc') = None \<or> unregistered (JoinCall E i u lang pc') = Some (ev_uuid E)"
      by (cases pc') simp_all
    then show ?thesis using join_step_registry [OF w(1) _ pc'(1)] w(2) pc'(2) JoinCall by auto
  next
    case (LeaveCall E i u pc)
    obtain pc' where "leave_step R P E i u pc w = (pc', w')" "c' = LeaveCall E i u pc'"
      using step LeaveCall by (auto split: prod.splits)
    then show ?thesis using leave_step_registry [OF w(1), of E i u pc R P pc' w'] w(2) LeaveCall by auto
  next
    case (DeleteCall E i pc)
    then show ?thesis using step delete_step_registry [OF w(1)] by (auto simp: call_ok_def split: prod.splits)
  next
    case (CreateCall E a b pc)
    then show ?thesis using step create_step_registry [of R E a b pc w] w(1) by (auto simp: call_ok_def split: prod.splits)
  next
    case (TimerCall E sid t pc)
    then show ?thesis using step timer_step_registry [OF w(1)] by (auto simp: call_ok_def split: prod.splits)
  qed
  then show "svc_registered w'" "call_ok w' c'" by blast+
  assume d: "call_ok w d" and cd: "apart c d" and dc: "apart d c"
  have "call_ok w' d"
  proof (cases "sessions_shrink w w'")
    case True
    have gone: "sv_sessions w' sid = None" if "sv_sessions w sid = None" for sid
      using True that unfolding sessions_shrink_def by (metis not_None_eq)
    have key: "keyOf s' = k" if "found d = Some (sid, k)" "sv_sessions w' sid = Some s'" for sid k s'
      using True that d unfolding sessions_shrink_def call_ok_def by metis
    show ?thesis using d gone key by (simp add: call_ok_def)
  next
    case False
    then obtain sid s where "unregistered c = Some sid" "sv_sessions w' = (sv_sessions w)(sid \<mapsto> s)" using all by blast
    then show ?thesis using d cd by (auto simp: call_ok_def apart_def)
  qed
  moreover have "apart c' d" using cd all by (auto simp: apart_def)
  moreover have "apart d c'" unfolding apart_def using dc d all unfolding apart_def call_ok_def by (metis option.distinct(1))
  ultimately show "call_ok w' d \<and> apart c' d \<and> apart d c'" by blast
qed

lemma calls_okD:
  assumes "calls_ok (cs, w)"
  shows "svc_registered w" and "a < length cs \<Longrightarrow> call_ok w (cs ! a)"
    and "a < length cs \<Longrightarrow> b < length cs \<Longrightarrow> a \<noteq> b \<Longrightarrow> apart (cs ! a) (cs ! b)"
  using assms by (simp_all add: calls_ok_def)

lemma calls_okI:
  assumes "svc_registered w" and "\<And>a. a < length cs \<Longrightarrow> call_ok w (cs ! a)"
    and "\<And>a b. a < length cs \<Longrightarrow> b < length cs \<Longrightarrow> a \<noteq> b \<Longrightarrow> apart (cs ! a) (cs ! b)"
  shows "calls_ok (cs, w)"
  using assms by (auto simp: calls_ok_def in_set_conv_nth)

lemma calls_ok_step:
  assumes ok: "calls_ok (cs, w)" and n: "n < length cs" and c: "call_step R P (cs ! n) w = (c, w1)"
  shows "calls_ok (cs[n := c], w1)"
proof (rule calls_okI)
  note step = call_step_registry [OF calls_okD(1,2) [OF ok] c] 
  have others: "call_ok w1 (cs ! a) \<and> apart c (cs ! a) \<and> apart (cs ! a) c" if "a < length cs" "a \<noteq> n" for a
    using step(3) [OF n calls_okD(2) [OF ok that(1)]] calls_okD(3) [OF ok n that(1)] calls_okD(3) [OF ok that(1) n] that(2) by simp
  show "svc_registered w1" by (rule step(1) [OF n])
  show "call_ok w1 (cs[n := c] ! a)" if "a < length (cs[n := c])" for a
    using step(2) [OF n] others [of a] that by (cases "a = n") simp_all
  show "apart (cs[n := c] ! a) (cs[n := c] ! b)" if "a < length (cs[n := c])" "b < length (cs[n := c])" "a \<noteq> b" for a b
    using that others [of a] others [of b] calls_okD(3) [OF ok, of a b] by (cases "a = n"; cases "b = n") simp_all
qed

lemma interleave_registry:
  "calls_ok (cs, w) \<Longrightarrow> interleave R P ns (cs, w) = (cs', w') \<Longrightarrow> calls_ok (cs', w')"
proof (induction ns arbitrary: cs w)
  case (Cons n ns)
  obtain c w1 where c: "call_step R P (cs ! n) w = (c, w1)" by fastforce
  show ?case
  proof (cases "n < length cs")
    case True
    then show ?thesis using Cons.IH [OF calls_ok_step [OF Cons.prems(1) True c]] Cons.prems(2) c by simp
  qed (use Cons in simp)
qed simp

text \<open>Calls that have not begun.\<close>

fun not_begun :: "pending_call \<Rightarrow> bool" where
  "not_begun (JoinCall E i u lang pc) = (pc = JoinStart)"
| "not_begun (LeaveCall E i u pc) = (pc = LeaveStart)"
| "not_begun (DeleteCall E i pc) = (pc = DeleteStart)"
| "not_begun (CreateCall E a b pc) = (pc = CreateStart)"
| "not_begun (TimerCall E sid t pc) = (pc = TimerForget)"

lemma not_begun_found: "not_begun c \<Longrightarrow> found c = None"
  by (cases c) simp_all

text \<open>
  C15: whatever calls of \<open>CreateRoom\<close>, \<open>JoinRoom\<close>, \<open>LeaveRoom\<close> and \<open>DeleteRoom\<close> and timers are begun in a
  reachable state, with UUIDs that differ and are not in use, and however their accesses interleave, over any repository and peer: at every
  moment each key of the registry leads to a session of its room and user, and no \<open>LeaveRoom\<close> panics.
\<close>

theorem no_interleaving_panics:
  assumes "service_reach ord P w" and "\<forall>c \<in> set cs. not_begun c"
    and "\<forall>a < length cs. \<forall>b < length cs. a \<noteq> b \<longrightarrow> unregistered (cs ! a) \<noteq> None \<longrightarrow> unregistered (cs ! a) \<noteq> unregistered (cs ! b)"
    and "\<forall>c \<in> set cs. \<forall>sid. unregistered c = Some sid \<longrightarrow> sv_sessions w sid = None"
    and "interleave R Q ns (cs, w) = (cs', w')"
  shows "LeaveCall E i u (LeaveDone Panic) \<notin> set cs'
    \<and> (sv_lookup w' k = Some sid \<longrightarrow>
         (\<exists>s. sv_sessions w' sid = Some s \<and> se_ID s = sid \<and> k = lookupKey (se_RoomID s) (se_UserID s)))"
proof -
  have "call_ok w c" if "c \<in> set cs" for c
    using assms(2,4) that not_begun_found [of c] by (auto simp: call_ok_def)
  moreover have "apart (cs ! a) (cs ! b)" if "a < length cs" "b < length cs" "a \<noteq> b" for a b
    using assms(2,3) that not_begun_found [of "cs ! b"] by (force simp: apart_def)
  ultimately have "calls_ok (cs, w)"
    using consistentD(1) [OF service_reach_consistent [OF assms(1)]] by (simp add: calls_ok_def)
  from interleave_registry [OF this assms(5)] show ?thesis
    by (auto simp: calls_ok_def call_ok_def registered_def)
qed

text \<open>The one user of a room leaves twice at once while another one joins and the room is deleted.\<close>

definition leave_twice :: "pending_call list \<times> (mem_repo, unit) service" where
  "leave_twice = interleave example_repo quiet_peer [0, 2, 1, 0, 3, 2, 1, 0, 3, 2, 1, 3, 0, 0, 1, 3, 0, 0, 1, 1, 2]
     ([LeaveCall (example_env (2 * second) ''x'') ''r'' ''alice'' LeaveStart,
       LeaveCall (example_env (2 * second) ''y'') ''r'' ''alice'' LeaveStart,
       JoinCall (example_env (2 * second) ''b'') ''r'' ''bob'' ''es'' JoinStart,
       DeleteCall (example_env (2 * second) ''d'') ''r'' DeleteStart], run2)"

theorem no_interleaving_panics_witness:
  "LeaveCall (example_env (2 * second) ''y'') ''r'' ''alice'' (LeaveDone Panic) \<notin> set (fst leave_twice)"
proof -
  obtain cs w' where s: "leave_twice = (cs, w')" by fastforce
  have "sv_sessions run2 (ev_uuid (example_env (2 * second) ''b'')) = None" by (simp add: run2_sel example_env_def)
  with no_interleaving_panics [OF reach2 _ _ _ s [unfolded leave_twice_def]] show ?thesis
    by (simp add: s All_less_Suc numeral_eq_Suc)
qed

end
