(* ===== verification/Access_Deployment.thy ===== *)
theory Access_Deployment
  imports Fine_Properties Interleaving_Registry
begin

section \<open>The whole server, access by access\<close>

text \<open>
  The server of theory \<open>Fine_Deployment\<close> with the calls of the service taken apart too: joins and leaves that come
  with messages, creations and deletions that come with requests or the sweep, and the functions of the grace timers are
  pending calls of theory \<open>Interleaving\<close>, of which any number may be in progress, one access at a time.  After
  \<open>JoinRoom\<close> a join stores the display name, then looks for the other session of the room, then notifies.
  Everything else the server does is a step of the finer relation.

  The relation has more orders than the code where that is simpler: the deletions of one sweep may overlap, a timer may
  fire again before its function has forgotten it, and what a timer reports is notified by a goroutine of its own.
\<close>

text \<open>The two accesses of \<open>case "join"\<close> after \<open>JoinRoom\<close>.\<close>

definition storeName :: "signaling_message \<Rightarrow> string \<Rightarrow> ('r, 'p) service \<Rightarrow> ('r, 'p) service" where
  "storeName m sid w =
     (case sv_sessions w sid of
        None \<Rightarrow> w
      | Some sess \<Rightarrow> w\<lparr>sv_sessions := (sv_sessions w)(sid \<mapsto> sess\<lparr>se_Name := msg_Name m\<rparr>)\<rparr>)"

definition relayNames ::
  "env \<Rightarrow> signaling_message \<Rightarrow> string \<Rightarrow> ('r, 'p) service \<Rightarrow> signaling_message \<times> ('r, 'p) service" where
  "relayNames E m sid w =
     (let resp = empty_message\<lparr>msg_Type := ''joined'', msg_SessionID := sid, msg_RoomID := msg_RoomID m\<rparr>
      in case List.find (\<lambda>s. se_ID s \<noteq> sid) (sessionsInRoom E (msg_RoomID m) (sv_sessions w)) of
           None \<Rightarrow> (resp, w)
         | Some peer \<Rightarrow>
             (resp\<lparr>msg_Name := se_Name peer\<rparr>,
              if se_ID peer \<noteq> [] then NotifySession (se_ID peer) ''peer-joined'' [(''name'', msg_Name m)] w else w))"

lemma handleJoin_in_pieces:
  "handleJoin R P E m w =
     (case JoinRoom R P E (msg_RoomID m) (msg_UserID m) (msg_Lang m) w of
        (Inl e, w1) \<Rightarrow> (errorMessage (error_text e), w1)
      | (Inr sid, w1) \<Rightarrow> relayNames E m sid (storeName m sid w1))"
  by (simp add: handleJoin_def relayNames_def storeName_def Let_def split: prod.split sum.split option.split)

text \<open>Who waits for a call: a read pump, with the message it read, or a goroutine nobody waits for.\<close>

datatype call_owner = Joining client_ptr signaling_message | Leaving client_ptr | Own

fun pump_of :: "call_owner \<Rightarrow> client_ptr option" where
  "pump_of (Joining c m) = Some c"
| "pump_of (Leaving c) = Some c"
| "pump_of Own = None"

fun finished :: "pending_call \<Rightarrow> bool" where
  "finished (CreateCall E a b (CreateDone x)) = True"
| "finished (DeleteCall E i (DeleteDone x)) = True"
| "finished (TimerCall E sid t TimerDone) = True"
| "finished _ = False"

text \<open>\<open>ac_named\<close>: the read pumps whose join has stored its name and not yet looked for the other session.\<close>

record 'x accesses =
  ac_fine :: "'x fine"
  ac_calls :: "(call_owner \<times> pending_call) list"
  ac_named :: "client_ptr \<rightharpoonup> env \<times> signaling_message \<times> string"

abbreviation ac_dep :: "'x accesses \<Rightarrow> 'x deployment" where
  "ac_dep g \<equiv> fn_dep (ac_fine g)"

abbreviation ac_service :: "'x accesses \<Rightarrow> (mem_repo, 'x pion_peer) service" where
  "ac_service g \<equiv> fn_service (ac_fine g)"

text \<open>A UUID that is new: neither in use nor held by a call in progress.\<close>

definition taken :: "pending_call list \<Rightarrow> string set" where
  "taken cs = {sid. \<exists>c \<in> set cs. unregistered c = Some sid \<or> (\<exists>k. found c = Some (sid, k))}"

definition new_uuid :: "'x accesses \<Rightarrow> string \<Rightarrow> bool" where
  "new_uuid g i \<longleftrightarrow> unused (ac_dep g) i \<and> i \<notin> taken (map snd (ac_calls g))"

text \<open>An access changes the service and leaves what it reports to a goroutine that notifies.\<close>

definition access :: "(mem_repo, 'x pion_peer) service \<Rightarrow> 'x fine \<Rightarrow> 'x fine" where
  "access w' f = f\<lparr>fn_dep := set_service w' (fn_dep f),
     fn_background := fn_background f @
       (case notified_since (fn_service f) w' of [] \<Rightarrow> [] | ns \<Rightarrow> [(None, ns)])\<rparr>"

definition reads_on :: "client_ptr \<Rightarrow> 'x fine \<Rightarrow> 'x fine" where
  "reads_on c f = f\<lparr>fn_dep := set_read c Dispatching (fn_dep f)\<rparr>"

definition answered :: "client_ptr \<Rightarrow> notification list \<Rightarrow> signaling_message \<Rightarrow> 'x fine \<Rightarrow> 'x fine" where
  "answered c ns resp f = f\<lparr>fn_dispatch := (fn_dispatch f)(c \<mapsto> ((None, ns), Inr resp))\<rparr>"

inductive access_step ::
  "(mem_repo \<Rightarrow> string list) \<Rightarrow> 'x pion_api \<Rightarrow> ('x deployment \<Rightarrow> client_ptr \<Rightarrow> signaling_message \<Rightarrow> bool)
     \<Rightarrow> 'x accesses \<Rightarrow> 'x accesses \<Rightarrow> bool"
  for ord L D where
  other: "fine_step ord L (no_joins D) (ac_fine g) f
    \<Longrightarrow> access_step ord L D g (g\<lparr>ac_fine := f\<rparr>)"
| join_begins: "ac_dep g = d \<Longrightarrow> env_ok E \<Longrightarrow> new_uuid g (ev_uuid E)
    \<Longrightarrow> pm_read (dp_pumps d c) = Reading \<Longrightarrow> pm_open (dp_pumps d c) \<Longrightarrow> D d c m \<Longrightarrow> msg_Type m = ''join''
    \<Longrightarrow> access_step ord L D g (g\<lparr>ac_fine := reads_on c (ac_fine g), ac_calls := ac_calls g @
          [(Joining c m, JoinCall E (msg_RoomID m) (msg_UserID m) (msg_Lang m) JoinStart)]\<rparr>)"
| leave_begins: "ac_dep g = d \<Longrightarrow> env_ok E
    \<Longrightarrow> pm_read (dp_pumps d c) = Reading \<Longrightarrow> pm_open (dp_pumps d c) \<Longrightarrow> D d c m \<Longrightarrow> msg_Type m = ''leave''
    \<Longrightarrow> sv_sessions (dp_service d) (msg_SessionID m) = Some s
    \<Longrightarrow> access_step ord L D g (g\<lparr>ac_fine := reads_on c (ac_fine g), ac_calls := ac_calls g @
          [(Leaving c, LeaveCall E (se_RoomID s) (se_UserID s) LeaveStart)]\<rparr>)"
| create_begins: "ac_dep g = d \<Longrightarrow> env_ok E \<Longrightarrow> new_uuid g (ev_uuid E)
    \<Longrightarrow> limited rq (ev_now E) (sr_roomLimiter (dp_server d)) = (PassOn, rl)
    \<Longrightarrow> access_step ord L D g (g\<lparr>ac_fine := (ac_fine g)\<lparr>fn_dep := d\<lparr>dp_server := (dp_server d)\<lparr>sr_roomLimiter := rl\<rparr>\<rparr>\<rparr>,
          ac_calls := ac_calls g @ [(Own, CreateCall E src tgt CreateStart)]\<rparr>)"
| delete_begins: "env_ok E \<Longrightarrow> access_step ord L D g (g\<lparr>ac_calls := ac_calls g @ [(Own, DeleteCall E i DeleteStart)]\<rparr>)"
| timer_begins: "env_ok E \<Longrightarrow> sv_graceTimers (ac_service g) sid = Some t \<Longrightarrow> gt_deadline t \<le> ev_now E
    \<Longrightarrow> access_step ord L D g (g\<lparr>ac_calls := ac_calls g @ [(Own, TimerCall E sid t TimerForget)]\<rparr>)"
| sweep_begins: "ac_service g = w \<Longrightarrow> env_ok E \<Longrightarrow> ExpirationSweep \<in> dp_running (ac_dep g)
    \<Longrightarrow> ListExpired (mem_repository ord) (ev_now E - RoomTTL (sv_cfg w)) (sv_heap w) (sv_repo w) = Inr rooms
    \<Longrightarrow> access_step ord L D g (g\<lparr>ac_calls := ac_calls g @
          map (\<lambda>p. (Own, DeleteCall E (rm_ID (sv_heap w p)) DeleteStart)) rooms\<rparr>)"
| accesses: "ac_calls g = xs @ (who, k) # ys
    \<Longrightarrow> call_step (mem_repository ord) (pion_webrtc_peer L) k (ac_service g) = (k', w')
    \<Longrightarrow> \<forall>E i u. k' \<noteq> LeaveCall E i u (LeaveDone Panic)
    \<Longrightarrow> access_step ord L D g (g\<lparr>ac_fine := access w' (ac_fine g), ac_calls := xs @ (who, k') # ys\<rparr>)"
| leave_panics: "ac_calls g = xs @ (who, k) # ys
    \<Longrightarrow> call_step (mem_repository ord) (pion_webrtc_peer L) k (ac_service g) = (LeaveCall E i u (LeaveDone Panic), w')
    \<Longrightarrow> access_step ord L D g (g\<lparr>ac_fine := (ac_fine g)\<lparr>fn_dep := on_hub (\<lambda>h. h\<lparr>hb_crashed := True\<rparr>) (ac_dep g)\<rparr>\<rparr>)"
| join_fails: "ac_calls g = xs @ (Joining c m, JoinCall E i u lang (JoinDone (Inl e))) # ys
    \<Longrightarrow> access_step ord L D g (g\<lparr>ac_fine := answered c [] (errorMessage (error_text e)) (ac_fine g), ac_calls := xs @ ys\<rparr>)"
| name_stored: "ac_calls g = xs @ (Joining c m, JoinCall E i u lang (JoinDone (Inr sid))) # ys
    \<Longrightarrow> access_step ord L D g (g\<lparr>ac_fine := access (storeName m sid (ac_service g)) (ac_fine g), ac_calls := xs @ ys,
          ac_named := (ac_named g)(c \<mapsto> (E, m, sid))\<rparr>)"
| names_relayed: "ac_named g c = Some (E, m, sid) \<Longrightarrow> ac_service g = w \<Longrightarrow> relayNames E m sid w = (resp, w')
    \<Longrightarrow> access_step ord L D g (g\<lparr>ac_fine := answered c (notified_since w w') resp
          ((ac_fine g)\<lparr>fn_dep := set_service w' (ac_dep g)\<rparr>), ac_named := (ac_named g)(c := None)\<rparr>)"
| leave_returns: "ac_calls g = xs @ (Leaving c, LeaveCall E i u (LeaveDone (Return x))) # ys
    \<Longrightarrow> access_step ord L D g (g\<lparr>ac_fine := answered c [] empty_message (ac_fine g), ac_calls := xs @ ys\<rparr>)"
| own_returns: "ac_calls g = xs @ (Own, k) # ys \<Longrightarrow> finished k \<Longrightarrow> access_step ord L D g (g\<lparr>ac_calls := xs @ ys\<rparr>)"

inductive access_reach ::
  "(string \<Rightarrow> string) \<Rightarrow> (mem_repo \<Rightarrow> string list) \<Rightarrow> 'x pion_api
     \<Rightarrow> ('x deployment \<Rightarrow> client_ptr \<Rightarrow> signaling_message \<Rightarrow> bool) \<Rightarrow> 'x accesses \<Rightarrow> bool"
  for getenv ord L D where
  started: "wire_up getenv x = Inr (s, h, codec)
    \<Longrightarrow> access_reach getenv ord L D \<lparr>ac_fine = coarse \<lparr>dp_server = s, dp_hub = h, dp_pumps = (\<lambda>_. no_pumps),
       dp_running = UNIV, dp_cancelled = False\<rparr>, ac_calls = [], ac_named = (\<lambda>_. None)\<rparr>"
| runs: "access_reach getenv ord L D g \<Longrightarrow> \<not> hb_crashed (dp_hub (ac_dep g)) \<Longrightarrow> access_step ord L D g g'
    \<Longrightarrow> access_reach getenv ord L D g'"

end
