(* ===== verification/Access_Properties.thy ===== *)
theory Access_Properties
  imports Access_Deployment
begin

section \<open>What the whole server keeps, access by access\<close>

text \<open>
  The invariant of the registry holds of the whole server between any two accesses, so no message makes it panic, and
  the only panic of a server of well-behaved clients is still a notification that is sent too late.  A connected client is told
  of its own messages, its own session and its own room.
\<close>

subsection \<open>Calls that come and go\<close>

lemma calls_ok_alt:
  "calls_ok (cs, w) \<longleftrightarrow> svc_registered w \<and> (\<forall>c \<in> set cs. call_ok w c) \<and> sorted_wrt (\<lambda>c d. apart c d \<and> apart d c) cs"
proof -
  let ?P = "\<lambda>c d. apart c d \<and> apart d c"
  have "(\<forall>a < length cs. \<forall>b < length cs. a \<noteq> b \<longrightarrow> apart (cs ! a) (cs ! b))
      \<longleftrightarrow> (\<forall>b < length cs. \<forall>a < b. ?P (cs ! a) (cs ! b))" (is "?l = ?r")
  proof
    assume r: ?r
    show ?l
    proof (intro allI impI)
      fix a b assume "a < length cs" "b < length cs" "a \<noteq> b"
      then show "apart (cs ! a) (cs ! b)" using r by (cases "a < b") auto
    qed
  qed auto
  then show ?thesis by (auto simp: calls_ok_def sorted_wrt_iff_nth_less)
qed

lemma calls_ok_access:
  assumes "calls_ok (map snd (xs @ (who, k) # ys), w)" and "call_step R P k w = (k', w')"
  shows "calls_ok (map snd (xs @ (who, k') # ys), w')" and "call_ok w' k'"
  using calls_ok_step [OF assms(1), of "length xs" R P k' w'] assms(2)
    call_step_registry(2) [OF _ _ assms(2)] assms(1)
  by (simp_all add: nth_append list_update_append calls_ok_alt)

lemma calls_ok_ends: "calls_ok (map snd (xs @ x # ys), w) \<Longrightarrow> calls_ok (map snd (xs @ ys), w)"
  by (auto simp: calls_ok_alt sorted_wrt_append)

lemma calls_ok_service:
  assumes "calls_ok (cs, w)" and "svc_registered w'" and "sessions_shrink w w'"
  shows "calls_ok (cs, w')"
proof -
  have "call_ok w' c" if "call_ok w c" for c
    using that assms(3) unfolding call_ok_def sessions_shrink_def by (metis not_None_eq)
  then show ?thesis using assms(1,2) by (auto simp: calls_ok_alt)
qed

text \<open>Calls that have nothing to register may begin at any time, one that has with a UUID that is new.\<close>

lemma sorted_wrt_all: "(\<And>c d. c \<in> set cs \<Longrightarrow> d \<in> set cs \<Longrightarrow> P c d) \<Longrightarrow> sorted_wrt P cs"
  by (induction cs) auto

lemma calls_ok_begin:
  assumes "calls_ok (cs, w)" and "\<And>c. c \<in> set new \<Longrightarrow> not_begun c \<and> unregistered c = None"
  shows "calls_ok (cs @ new, w)"
proof -
  have "call_ok w c \<and> unregistered c = None \<and> found c = None" if "c \<in> set new" for c
    using assms(2) [OF that] not_begun_found [of c] by (auto simp: call_ok_def)
  then show ?thesis using assms(1) by (auto simp: calls_ok_alt sorted_wrt_append apart_def intro!: sorted_wrt_all)
qed

lemma calls_ok_join:
  assumes "calls_ok (cs, w)" and "sv_sessions w (ev_uuid E) = None" and "ev_uuid E \<notin> taken cs"
  shows "calls_ok (cs @ [JoinCall E i u lang JoinStart], w)"
  using assms by (auto simp: calls_ok_alt sorted_wrt_append apart_def call_ok_def taken_def)

subsection \<open>The rest of the server meanwhile\<close>

text \<open>No message but a join brings a session into being.\<close>

lemma carried_shrinks: "carried w w' \<Longrightarrow> sessions_shrink w w'"
  unfolding carried_def sessions_shrink_def by metis

lemma OnDisconnect_shrinks: "sessions_shrink w (OnDisconnect E sid w)"
  by (auto simp: OnDisconnect_def sessions_shrink_def Disconnect_def split: option.split)

lemma registered_applyAction: "svc_registered w \<Longrightarrow> svc_registered (applyAction a w)"
  by (cases a) (auto simp: logSessionError_def Let_def frame_simps intro!: registered_update split: option.split)

lemma registered_perform: "svc_registered w \<Longrightarrow> of_its_own k \<Longrightarrow> svc_registered (perform R P E k w)"
  by (cases k) (auto simp: runTimer_def localCandidate_def frame_simps intro!: registered_graceTimerFires registered_sweep registered_applyAction split: option.split)

lemma registered_handle:
  assumes "svc_registered (sr_manager s)"
  shows "svc_registered (sr_manager (snd (handle R P E rq r s)))"
proof -
  have "svc_registered (snd (CreateRoom R E a b (sr_manager s)))" for a b
    using CreateRoom_frame [of _ _ R E a b "sr_manager s"] assms by (metis prod.collapse)
  then show ?thesis
    unfolding handle_manager using registered_DeleteRoom [OF assms] assms by (auto split: route.split option.split)
qed

lemma calm_service:
  "svc_registered w \<Longrightarrow> HandleSignaling R P E m w \<noteq> (Panic, w')"
  using HandleSignaling_no_panic by (metis fst_conv)

lemma whole_registry:
  assumes w: "svc_registered (dp_service d)" and m: "pumps_match d" and step: "deployment_step ord L (no_joins D) d d'"
  shows "svc_registered (dp_service d') \<and> sessions_shrink (dp_service d) (dp_service d')"
proof
  show "sessions_shrink (dp_service d) (dp_service d')"
    using step_kept [OF step m calm_service [OF w]] carried_shrinks OnDisconnect_shrinks by metis
  from step show "svc_registered (dp_service d')"
  proof cases
    case (request E rq r out s')
    then show ?thesis using registered_handle [OF w] by (metis serve_sel(1) snd_conv)
  next
    case (upgraded E rq i s' c)
    then have "svc_registered (sr_manager s')" using registered_handle [OF w] by (metis snd_conv)
    then show ?thesis by (simp add: upgraded(1))
  next
    case (dispatched E c msg a w')
    then show ?thesis
      using registered_HandleSignaling [OF w, of E "mem_repository ord" "pion_webrtc_peer L" msg] by (simp add: unused_def fresh_uuid_def)
  next
    case (handler_panics E c msg w')
    then show ?thesis using calm_service [OF w] by metis
  next
    case (unregistered E c gone h' w')
    then show ?thesis using w registered_OnDisconnect by (auto split: option.splits)
  next
    case (background E k)
    then show ?thesis using registered_perform [OF w] by simp
  qed (use w in simp_all)
qed

lemma fine_registry:
  assumes w: "svc_registered (fn_service f)" and m: "dispatches_match f" and step: "fine_step ord L (no_joins D) f f'"
  shows "svc_registered (fn_service f') \<and> sessions_shrink (fn_service f) (fn_service f')"
  using step
proof cases
  case (whole d')
  then show ?thesis using whole_registry [OF w] m by (simp add: dispatches_match_def)
next
  case piece
  then show ?thesis
  proof cases
    case (handled d E c msg a w')
    then have "svc_registered w'" using registered_HandleSignaling [of "dp_service d" E "mem_repository ord" "pion_webrtc_peer L" msg] w
      by (simp add: unused_def fresh_uuid_def)
    moreover have "sessions_shrink (fn_service f) w'" using carried_shrinks [OF carried_signal] handled(2,7,8) by metis
    ultimately show ?thesis by (simp add: handled(1))
  next
    case (acts d E k w')
    then show ?thesis
      using registered_perform [OF w acts(5)] carried_shrinks [OF carried_of_its_own [OF acts(5)]] by simp
  qed (use w in simp_all)
qed

text \<open>A client whose read pump waits for a call.\<close>

definition held :: "'x fine \<Rightarrow> client_ptr \<Rightarrow> bool" where
  "held f c \<longleftrightarrow> pm_read (dp_pumps (fn_dep f) c) = Dispatching \<and> fn_dispatch f c = None"

lemma held_kept:
  assumes ok: "fine_ok f" and c: "held f c" and step: "fine_step ord L like_the_app f f'"
  shows "held f' c \<and> cl_sessionID (hb_store (fn_hub f') c) = cl_sessionID (hb_store (fn_hub f) c)"
  using step
proof cases
  case (whole d')
  have m: "pumps_match (fn_dep f)" using fine_okD(2) [OF ok] by (simp add: dispatches_match_def)
  then have "c \<in> hb_clients (fn_hub f)" using c by (simp add: pumps_match_def held_def)
  then show ?thesis
    using whole c dispatching_kept [OF m _ whole(2), of c] client_kept [OF hub_reach_ok [OF fine_okD(1) [OF ok]] m whole(2), of c]
    by (simp add: held_def)
next
  case piece
  then show ?thesis
  proof cases
    case (dispatch_notifies p n a n' h')
    then show ?thesis using c notifier_step_frame [OF dispatch_notifies(3)] by (auto simp: held_def frame_simps)
  next
    case (dispatch_returns p a)
    then show ?thesis using c bindAnswer_session [of p a "fn_hub f" c] by (auto simp: held_def)
  next
    case (background_notifies xs n ys n' h')
    then show ?thesis using c notifier_step_frame [OF background_notifies(3)]
      by (auto simp: held_def frame_simps)
  qed (use c in \<open>auto simp: held_def\<close>)
qed

subsection \<open>The invariant\<close>

text \<open>Every call of a message has its read pump to itself.\<close>

definition owners :: "(call_owner \<times> pending_call) list \<Rightarrow> client_ptr list" where
  "owners cs = List.map_filter (pump_of \<circ> fst) cs"

definition joiners :: "(call_owner \<times> pending_call) list \<Rightarrow> client_ptr set" where
  "joiners cs = {c. \<exists>m. Joining c m \<in> fst ` set cs}"

definition accesses_ok :: "'x accesses \<Rightarrow> bool" where
  "accesses_ok g \<longleftrightarrow> fine_ok (ac_fine g) \<and> calls_ok (map snd (ac_calls g), ac_service g)
     \<and> (\<forall>c \<in> set (owners (ac_calls g)) \<union> dom (ac_named g). held (ac_fine g) c)
     \<and> (\<forall>c \<in> joiners (ac_calls g) \<union> dom (ac_named g). cl_sessionID (hb_store (fn_hub (ac_fine g)) c) = [])
     \<and> distinct (owners (ac_calls g)) \<and> set (owners (ac_calls g)) \<inter> dom (ac_named g) = {}"

lemma owners_simps [simp]:
  "owners [] = []" "owners (xs @ ys) = owners xs @ owners ys"
  "owners ((who, k) # ys) = (case pump_of who of None \<Rightarrow> owners ys | Some c \<Rightarrow> c # owners ys)"
  by (auto simp: owners_def List.map_filter_def split: option.split)

lemma owners_Own [simp]: "owners (map (\<lambda>x. (Own, k x)) xs) = []"
  by (induction xs) simp_all

lemma joiners_simps [simp]:
  "joiners [] = {}" "joiners (xs @ ys) = joiners xs \<union> joiners ys"
  "joiners ((who, k) # ys) = (case who of Joining c m \<Rightarrow> insert c (joiners ys) | _ \<Rightarrow> joiners ys)"
  by (auto simp: joiners_def split: call_owner.split)

lemma joiners_own: "c \<in> joiners cs \<Longrightarrow> c \<in> set (owners cs)"
  by (induction cs) (auto split: call_owner.splits)

lemma accesses_okI:
  assumes "fine_ok (ac_fine g)" and "calls_ok (map snd (ac_calls g), ac_service g)"
    and "\<And>c. c \<in> set (owners (ac_calls g)) \<or> c \<in> dom (ac_named g) \<Longrightarrow> held (ac_fine g) c"
    and "\<And>c. c \<in> joiners (ac_calls g) \<union> dom (ac_named g) \<Longrightarrow> cl_sessionID (hb_store (fn_hub (ac_fine g)) c) = []"
    and "distinct (owners (ac_calls g))" and "set (owners (ac_calls g)) \<inter> dom (ac_named g) = {}"
  shows "accesses_ok g"
  using assms by (simp add: accesses_ok_def ball_Un)

lemma accesses_okD:
  assumes "accesses_ok g"
  shows "fine_ok (ac_fine g)" and "calls_ok (map snd (ac_calls g), ac_service g)"
    and "c \<in> set (owners (ac_calls g)) \<or> c \<in> dom (ac_named g) \<Longrightarrow> held (ac_fine g) c"
    and "c \<in> joiners (ac_calls g) \<union> dom (ac_named g) \<Longrightarrow> cl_sessionID (hb_store (fn_hub (ac_fine g)) c) = []"
    and "distinct (owners (ac_calls g))" and "set (owners (ac_calls g)) \<inter> dom (ac_named g) = {}"
  using assms unfolding accesses_ok_def by blast+

text \<open>Steps that leave the hub alone.\<close>

lemma fine_ok_same:
  assumes "fine_ok f" and "fn_hub f' = fn_hub f" and "pumps_match (fn_dep f')" and "notifiers f' \<subseteq> notifiers f"
    and "\<And>c. fn_dispatch f' c = fn_dispatch f c" and "\<And>c. pm_read (dp_pumps (fn_dep f) c) = Dispatching \<Longrightarrow> pm_read (dp_pumps (fn_dep f') c) = Dispatching"
  shows "fine_ok f'"
proof (rule fine_ok_quiet [OF assms(1,2)])
  show "dispatches_match f'" using fine_okD(2) [OF assms(1)] assms(3,5,6) by (auto simp: dispatches_match_def)
  show "notifiers f' \<subseteq> insert (None, []) (notifiers f)" using assms(4) by blast
  show "cl_sessionID (hb_store (fn_hub f) c) = []"
    if "fn_dispatch f' c = Some (n, Inr resp)" "msg_Type resp = ''joined''" for c n resp
    using fine_okD(4) [OF assms(1), of c n resp] assms(5) that by simp
qed

lemma reads_on_ok:
  assumes ok: "fine_ok f" and c: "pm_read (dp_pumps (fn_dep f) c) = Reading"
  shows "fine_ok (reads_on c f)" and "held (reads_on c f) c" and "held f p \<Longrightarrow> held (reads_on c f) p"
proof -
  have m: "pumps_match (fn_dep f)" and d: "fn_dispatch f c = None"
    using fine_okD(2) [OF ok] c unfolding dispatches_match_def by (blast, metis read_pump.distinct(1))
  show "fine_ok (reads_on c f)"
    by (rule fine_ok_same [OF ok]) (use m c in \<open>auto simp: reads_on_def pumps_match_def notifiers_def\<close>)
  show "held (reads_on c f) c" "held f p \<Longrightarrow> held (reads_on c f) p" using c d by (auto simp: reads_on_def held_def)
qed

lemma access_ok:
  assumes ok: "fine_ok f"
  shows "fine_ok (access w f)" and "held (access w f) p \<longleftrightarrow> held f p" and "fn_hub (access w f) = fn_hub f" and "fn_service (access w f) = w"
proof -
  have m: "dispatches_match (access w f)" using fine_okD(2) [OF ok] by (auto simp: access_def dispatches_match_def pumps_match_def)
  have "notifiers (access w f) \<subseteq> insert (None, notified_since (fn_service f) w) (notifiers f)"
    by (auto simp: access_def notifiers_def split: list.splits)
  from fine_ok_quiet [OF ok _ m this] fine_okD(4) [OF ok] show "fine_ok (access w f)" by (simp add: access_def)
qed (simp_all add: access_def held_def)

lemma answered_ok:
  assumes ok: "fine_ok f" and c: "held f c" and one: "msg_Type resp = ''joined'' \<Longrightarrow> cl_sessionID (hb_store (fn_hub f) c) = []"
  shows "fine_ok (answered c ns resp f)" and "p \<noteq> c \<Longrightarrow> held (answered c ns resp f) p \<longleftrightarrow> held f p"
proof -
  show "fine_ok (answered c ns resp f)"
  proof (rule fine_ok_quiet [OF ok])
    show "dispatches_match (answered c ns resp f)" using fine_okD(2) [OF ok] c by (auto simp: answered_def dispatches_match_def held_def)
    show "notifiers (answered c ns resp f) \<subseteq> insert (None, ns) (notifiers f)"
      by (force simp: answered_def notifiers_def ran_def split: if_splits)
    show "cl_sessionID (hb_store (fn_hub f) p) = []"
      if "fn_dispatch (answered c ns resp f) p = Some (n, Inr r)" "msg_Type r = ''joined''" for p n r
      using that one fine_okD(4) [OF ok, of p n r] by (auto simp: answered_def split: if_splits)
  qed (simp add: answered_def)
  show "p \<noteq> c \<Longrightarrow> held (answered c ns resp f) p \<longleftrightarrow> held f p" by (simp add: answered_def held_def)
qed

subsection \<open>Every step\<close>

text \<open>A call begins, with a read pump that was reading or with none.\<close>

lemma call_begins:
  assumes "accesses_ok g" and "\<And>x. x \<in> set new \<Longrightarrow> not_begun (snd x) \<and> unregistered (snd x) = None"
  shows "calls_ok (map snd (ac_calls g @ new), ac_service g)"
  unfolding map_append by (rule calls_ok_begin [OF accesses_okD(2) [OF assms(1)]]) (use assms(2) in auto)

lemma own_begins:
  assumes ok: "accesses_ok g" and cs: "calls_ok (map snd (ac_calls g @ new), ac_service g)"
    and own: "\<And>x. x \<in> set new \<Longrightarrow> fst x = Own"
    and f: "fine_ok f'" "fn_hub f' = fn_hub (ac_fine g)" "fn_service f' = ac_service g" "\<And>c. held f' c \<longleftrightarrow> held (ac_fine g) c"
  shows "accesses_ok (g\<lparr>ac_fine := f', ac_calls := ac_calls g @ new\<rparr>)"
proof -
  have "pump_of (fst x) = None" if "x \<in> set new" for x using own [OF that] by simp
  then have "owners new = []" by (simp add: owners_def List.map_filter_def filter_empty_conv)
  moreover have "joiners new = {}" using own by (auto simp: joiners_def dest!: own)
  ultimately show ?thesis
    using accesses_okD [OF ok] by (intro accesses_okI) (simp_all add: f cs del: map_append)
qed

lemma pump_begins:
  assumes ok: "accesses_ok g" and cs: "calls_ok (map snd (ac_calls g @ [(who, k)]), ac_service g)"
    and who: "pump_of who = Some c" and read: "pm_read (dp_pumps (ac_dep g) c) = Reading"
    and one: "\<And>p m. who = Joining p m \<Longrightarrow> cl_sessionID (hb_store (fn_hub (ac_fine g)) p) = []"
  shows "accesses_ok (g\<lparr>ac_fine := reads_on c (ac_fine g), ac_calls := ac_calls g @ [(who, k)]\<rparr>)"
proof -
  note r = reads_on_ok [OF accesses_okD(1) [OF ok] read]
  have new: "c \<notin> set (owners (ac_calls g)) \<union> dom (ac_named g)" using accesses_okD(3) [OF ok, of c] read by (auto simp: held_def)
  have same: "fn_hub (reads_on c (ac_fine g)) = fn_hub (ac_fine g)" "fn_service (reads_on c (ac_fine g)) = ac_service g"
    by (simp_all add: reads_on_def)
  show ?thesis
    using accesses_okD [OF ok] r new one
    by (intro accesses_okI) (auto simp: same cs who simp del: map_append iff del: domIff split: call_owner.splits)
qed

text \<open>A call ends and its read pump has an answer.\<close>

lemma call_ends:
  assumes ok: "accesses_ok g" and cs: "ac_calls g = xs @ (who, k) # ys" and who: "pump_of who = Some c"
    and one: "msg_Type resp = ''joined'' \<Longrightarrow> cl_sessionID (hb_store (fn_hub (ac_fine g)) c) = []"
  shows "accesses_ok (g\<lparr>ac_fine := answered c ns resp (ac_fine g), ac_calls := xs @ ys\<rparr>)"
proof -
  have c: "held (ac_fine g) c" using accesses_okD(3) [OF ok, of c] cs who by simp
  note a = answered_ok [OF accesses_okD(1) [OF ok] c one]
  have same: "fn_hub (answered c ns resp (ac_fine g)) = fn_hub (ac_fine g)" "fn_service (answered c ns resp (ac_fine g)) = ac_service g"
    by (simp_all add: answered_def)
  have calls: "calls_ok (map snd (xs @ ys), ac_service g)" using accesses_okD(2) [OF ok] calls_ok_ends unfolding cs by blast
  have gone: "c \<notin> set (owners (xs @ ys)) \<union> dom (ac_named g)" using accesses_okD(5,6) [OF ok] by (auto simp: cs who)
  show ?thesis
  proof (rule accesses_okI)
    show "held (ac_fine (g\<lparr>ac_fine := answered c ns resp (ac_fine g), ac_calls := xs @ ys\<rparr>)) p"
      if "p \<in> set (owners (ac_calls (g\<lparr>ac_fine := answered c ns resp (ac_fine g), ac_calls := xs @ ys\<rparr>)))
        \<or> p \<in> dom (ac_named (g\<lparr>ac_fine := answered c ns resp (ac_fine g), ac_calls := xs @ ys\<rparr>))" for p
      using that gone a(2) [where p = p] accesses_okD(3) [OF ok, of p] by (auto simp: cs who)
  qed (use a(1) calls accesses_okD(4-6) [OF ok] in \<open>auto simp: same cs who simp del: map_append iff del: domIff split: call_owner.splits\<close>)
qed

lemma storeName_registry:
  assumes "svc_registered w"
  shows "svc_registered (storeName m sid w) \<and> sessions_shrink w (storeName m sid w)"
  using assms by (auto simp: storeName_def sessions_shrink_def intro!: registered_update split: option.split)

lemma relayNames_same: "relayNames E m sid w = (resp, w') \<Longrightarrow> sv_sessions w' = sv_sessions w \<and> sv_lookup w' = sv_lookup w"
  by (auto simp: relayNames_def Let_def frame_simps split: option.splits if_splits)

lemma accesses_ok_other:
  assumes ok: "accesses_ok g" and step: "fine_step ord L (no_joins like_the_app) (ac_fine g) f" and live: "\<not> hb_crashed (fn_hub f)"
  shows "accesses_ok (g\<lparr>ac_fine := f\<rparr>)"
proof -
  note fine = accesses_okD(1) [OF ok]
  have w: "svc_registered (ac_service g)" using accesses_okD(2) [OF ok] by (simp add: calls_ok_alt)
  have app: "fine_step ord L like_the_app (ac_fine g) f" by (rule fine_step_mono [OF step]) simp
  have "fine_ok f" using app
  proof cases
    case (whole d')
    then show ?thesis using fine_ok_whole [OF fine calm_service [OF w]] by simp
  qed (use fine_ok_piece [OF fine _ live] in blast)
  moreover have "held f c" if "c \<in> set (owners (ac_calls g)) \<or> c \<in> dom (ac_named g)" for c
    using held_kept [OF fine accesses_okD(3) [OF ok that] app] by simp
  moreover have "cl_sessionID (hb_store (fn_hub f) c) = []" if "c \<in> joiners (ac_calls g) \<union> dom (ac_named g)" for c
  proof -
    have "c \<in> set (owners (ac_calls g)) \<or> c \<in> dom (ac_named g)" using that joiners_own by auto
    from held_kept [OF fine accesses_okD(3) [OF ok this] app] show ?thesis using accesses_okD(4) [OF ok that] by simp
  qed
  moreover have "calls_ok (map snd (ac_calls g), fn_service f)"
    using calls_ok_service [OF accesses_okD(2) [OF ok]] fine_registry [OF w fine_okD(2) [OF fine] step] by blast
  ultimately show ?thesis using accesses_okD(5,6) [OF ok] by (intro accesses_okI) simp_all
qed

text \<open>One access of a call, and the two of a join that has its session.\<close>

lemma accesses_ok_access:
  assumes ok: "accesses_ok g" and cs: "ac_calls g = xs @ (who, k) # ys" and step: "call_step R P k (ac_service g) = (k', w')"
  shows "accesses_ok (g\<lparr>ac_fine := access w' (ac_fine g), ac_calls := xs @ (who, k') # ys\<rparr>)"
proof -
  have "calls_ok (map snd (xs @ (who, k') # ys), w')"
    by (rule calls_ok_access(1) [OF _ step]) (use accesses_okD(2) [OF ok] cs in metis)
  then show ?thesis
    using accesses_okD(3-6) [OF ok] access_ok [OF accesses_okD(1) [OF ok]]
    by (intro accesses_okI) (auto simp: cs simp del: map_append iff del: domIff)
qed

lemma accesses_ok_named:
  assumes ok: "accesses_ok g" and cs: "ac_calls g = xs @ (Joining c m, k) # ys"
  shows "accesses_ok (g\<lparr>ac_fine := access (storeName m sid (ac_service g)) (ac_fine g), ac_calls := xs @ ys,
      ac_named := (ac_named g)(c \<mapsto> (E, m, sid))\<rparr>)"
proof -
  have calls: "calls_ok (map snd (xs @ ys), ac_service g)"
    using accesses_okD(2) [OF ok] calls_ok_ends unfolding cs by blast
  have w: "svc_registered (ac_service g)" using accesses_okD(2) [OF ok] by (simp add: calls_ok_alt)
  have "calls_ok (map snd (xs @ ys), storeName m sid (ac_service g))"
    using calls_ok_service [OF calls] storeName_registry [OF w] by blast
  then show ?thesis
    using accesses_okD(3-6) [OF ok] access_ok [OF accesses_okD(1) [OF ok]]
    by (intro accesses_okI) (auto simp: cs simp del: map_append iff del: domIff)
qed

lemma accesses_ok_relayed:
  assumes ok: "accesses_ok g" and c: "ac_named g c = Some (E, m, sid)" and r: "relayNames E m sid (ac_service g) = (resp, w')"
  shows "accesses_ok (g\<lparr>ac_fine := answered c ns resp ((ac_fine g)\<lparr>fn_dep := set_service w' (ac_dep g)\<rparr>), ac_named := (ac_named g)(c := None)\<rparr>)"
proof -
  let ?f = "(ac_fine g)\<lparr>fn_dep := set_service w' (ac_dep g)\<rparr>"
  have "pumps_match (ac_dep g)" using fine_okD(2) [OF accesses_okD(1) [OF ok]] by (simp add: dispatches_match_def)
  then have f: "fine_ok ?f" by (intro fine_ok_same [OF accesses_okD(1) [OF ok]]) (auto simp: pumps_match_def notifiers_def)
  have dom: "c \<in> dom (ac_named g)" using c by blast
  have held: "held ?f p \<longleftrightarrow> held (ac_fine g) p" for p by (simp add: held_def)
  have one: "cl_sessionID (hb_store (fn_hub ?f) c) = []" using accesses_okD(4) [OF ok, of c] dom by simp
  have "held ?f c" using accesses_okD(3) [OF ok, of c] dom held by simp
  note a = answered_ok [OF f this one]
  have same: "fn_hub (answered c ns resp ?f) = fn_hub (ac_fine g)" "fn_service (answered c ns resp ?f) = w'" by (simp_all add: answered_def)
  have "svc_registered w'" "sessions_shrink (ac_service g) w'"
    using relayNames_same [OF r] accesses_okD(2) [OF ok] by (simp_all add: calls_ok_alt)
  from calls_ok_service [OF accesses_okD(2) [OF ok] this] have calls: "calls_ok (map snd (ac_calls g), w')" .
  have gone: "c \<notin> set (owners (ac_calls g))" using accesses_okD(6) [OF ok] dom by blast
  show ?thesis
  proof (rule accesses_okI)
    show "held (ac_fine (g\<lparr>ac_fine := answered c ns resp ?f, ac_named := (ac_named g)(c := None)\<rparr>)) p"
      if "p \<in> set (owners (ac_calls (g\<lparr>ac_fine := answered c ns resp ?f, ac_named := (ac_named g)(c := None)\<rparr>)))
        \<or> p \<in> dom (ac_named (g\<lparr>ac_fine := answered c ns resp ?f, ac_named := (ac_named g)(c := None)\<rparr>))" for p
    proof -
      have "p \<noteq> c" "p \<in> set (owners (ac_calls g)) \<or> p \<in> dom (ac_named g)" using that gone by auto
      then show ?thesis using a(2) [where p = p] accesses_okD(3) [OF ok, of p] held by simp
    qed
    show "cl_sessionID (hb_store (fn_hub (ac_fine (g\<lparr>ac_fine := answered c ns resp ?f, ac_named := (ac_named g)(c := None)\<rparr>))) p) = []"
      if "p \<in> joiners (ac_calls (g\<lparr>ac_fine := answered c ns resp ?f, ac_named := (ac_named g)(c := None)\<rparr>))
        \<union> dom (ac_named (g\<lparr>ac_fine := answered c ns resp ?f, ac_named := (ac_named g)(c := None)\<rparr>))" for p
      using that accesses_okD(4) [OF ok, of p] by (auto simp: same)
  qed (use a(1) calls accesses_okD(5,6) [OF ok] in \<open>auto simp: same\<close>)
qed

lemma accesses_ok_step:
  assumes ok: "accesses_ok g" and step: "access_step ord L like_the_app g g'" and live: "\<not> hb_crashed (fn_hub (ac_fine g'))"
  shows "accesses_ok g'"
  using step
proof cases
  case (other f)
  then show ?thesis using accesses_ok_other [OF ok] live by simp
next
  case (join_begins d E c m)
  have "calls_ok (map snd (ac_calls g @ [(Joining c m, JoinCall E (msg_RoomID m) (msg_UserID m) (msg_Lang m) JoinStart)]), ac_service g)"
    using calls_ok_join [OF accesses_okD(2) [OF ok], of E] join_begins(4) by (simp add: new_uuid_def unused_def fresh_uuid_def)
  from pump_begins [OF ok this, of c] show ?thesis
    using join_begins by (simp add: like_the_app_def)
next
  case (leave_begins d E c m s)
  have "calls_ok (map snd (ac_calls g @ [(Leaving c, LeaveCall E (se_RoomID s) (se_UserID s) LeaveStart)]), ac_service g)"
    by (rule call_begins [OF ok]) simp
  from pump_begins [OF ok this, of c] show ?thesis using leave_begins by simp
next
  case (create_begins d E rq rl src tgt)
  have "pumps_match (ac_dep g)" using fine_okD(2) [OF accesses_okD(1) [OF ok]] by (simp add: dispatches_match_def)
  then have "fine_ok ((ac_fine g)\<lparr>fn_dep := d\<lparr>dp_server := (dp_server d)\<lparr>sr_roomLimiter := rl\<rparr>\<rparr>\<rparr>)"
    using create_begins(2) by (intro fine_ok_same [OF accesses_okD(1) [OF ok]]) (auto simp: pumps_match_def notifiers_def)
  moreover have "calls_ok (map snd (ac_calls g @ [(Own, CreateCall E src tgt CreateStart)]), ac_service g)"
    by (rule call_begins [OF ok]) simp
  ultimately show ?thesis
    unfolding create_begins(1) using create_begins(2) by (intro own_begins [OF ok]) (simp_all add: held_def)
next
  case (delete_begins E i)
  have "calls_ok (map snd (ac_calls g @ [(Own, DeleteCall E i DeleteStart)]), ac_service g)"
    by (rule call_begins [OF ok]) simp
  from own_begins [OF ok this, of "ac_fine g"] show ?thesis using accesses_okD(1) [OF ok] delete_begins by simp
next
  case (timer_begins E sid t)
  have "calls_ok (map snd (ac_calls g @ [(Own, TimerCall E sid t TimerForget)]), ac_service g)"
    by (rule call_begins [OF ok]) simp
  from own_begins [OF ok this, of "ac_fine g"] show ?thesis using accesses_okD(1) [OF ok] timer_begins by simp
next
  case (sweep_begins w E rooms)
  let ?new = "map (\<lambda>p. (Own, DeleteCall E (rm_ID (sv_heap w p)) DeleteStart)) rooms"
  have "calls_ok (map snd (ac_calls g @ ?new), ac_service g)"
    by (rule call_begins [OF ok]) auto
  from own_begins [OF ok this _ accesses_okD(1) [OF ok]] show ?thesis by (force simp: sweep_begins(1))
next
  case (accesses xs who k ys k' w')
  then show ?thesis using accesses_ok_access [OF ok] by simp
next
  case leave_panics
  then show ?thesis using live by simp
next
  case (join_fails xs c m E i u lang e ys)
  show ?thesis unfolding join_fails(1) by (rule call_ends [OF ok join_fails(2)]) (simp_all add: errorMessage_def empty_message_def)
next
  case (name_stored xs c m E i u lang sid ys)
  then show ?thesis using accesses_ok_named [OF ok] by simp
next
  case (names_relayed c E m sid w resp w')
  then show ?thesis using accesses_ok_relayed [OF ok] by simp
next
  case (leave_returns xs c E i u x ys)
  show ?thesis unfolding leave_returns(1) by (rule call_ends [OF ok leave_returns(2)]) (simp_all add: empty_message_def)
next
  case (own_returns xs k ys)
  have "calls_ok (map snd (xs @ ys), ac_service g)"
    using accesses_okD(2) [OF ok] calls_ok_ends own_returns(2) by metis
  then show ?thesis
    using accesses_okD [OF ok] unfolding own_returns(1) by (intro accesses_okI) (auto simp: own_returns(2) simp del: map_append iff del: domIff)
qed

lemma access_reach_ok: "access_reach getenv ord L like_the_app g \<Longrightarrow> \<not> hb_crashed (fn_hub (ac_fine g)) \<Longrightarrow> accesses_ok g"
proof (induction rule: access_reach.induct)
  case (started x s h codec)
  let ?f = "coarse \<lparr>dp_server = s, dp_hub = h, dp_pumps = \<lambda>_. no_pumps, dp_running = UNIV, dp_cancelled = False\<rparr>"
  have f: "fine_reach getenv ord L like_the_app ?f" by (rule fine_reach.started [OF started(1)])
  have "svc_registered (fn_service ?f)"
    using consistentD(1) [OF service_reach_consistent [OF conjunct1 [OF server_reach_service [OF fine_server [OF f]]]]] .
  then show ?case
    using fine_reach_ok [OF f] started(2) by (intro accesses_okI) (simp_all add: calls_ok_alt)
next
  case (runs g g')
  show ?case by (rule accesses_ok_step [OF runs.IH [OF runs.hyps(2)] runs.hyps(3) runs.prems])
qed

text \<open>
  C2: while the clients behave like the mobile app, and however the accesses of the calls, the notifications and everything else
  the server does interleave, it panics in one way only: a notification is sent to a client that had been looked up for it and has
  been unregistered since, its queue closed.
\<close>

theorem the_only_panic_is_a_late_send:
  assumes g: "access_reach getenv ord L like_the_app g" and live: "\<not> hb_crashed (fn_hub (ac_fine g))"
    and step: "access_step ord L like_the_app g g'" and crash: "hb_crashed (fn_hub (ac_fine g'))"
  shows "\<exists>c n ns. (Some (c, told n), ns) \<in> notifiers (ac_fine g) \<and> fn_hub (ac_fine g') = trySendClient c (told n) (fn_hub (ac_fine g))
    \<and> cl_sessionID (hb_store (fn_hub (ac_fine g)) c) = nt_SessionID n
    \<and> c \<notin> hb_clients (fn_hub (ac_fine g)) \<and> cl_closed (hb_store (fn_hub (ac_fine g)) c)"
proof -
  note ok = access_reach_ok [OF g live]
  have w: "svc_registered (ac_service g)" using accesses_okD(2) [OF ok] by (simp add: calls_ok_alt)
  from step show ?thesis
  proof cases
    case (other f)
    have "fine_step ord L like_the_app (ac_fine g) f" by (rule fine_step_mono [OF other(2)]) simp
    from fine_panics_late [OF accesses_okD(1) [OF ok] calm_service [OF w] this] show ?thesis
      using crash unfolding sends_late_def other(1) by simp
  next
    case (leave_panics xs who k ys E i u w')
    have "calls_ok (map snd (xs @ (who, k) # ys), ac_service g)" using accesses_okD(2) [OF ok] leave_panics(2) by metis
    from calls_ok_access(2) [OF this leave_panics(3)] show ?thesis by (simp add: call_ok_def)
  next
    case (names_relayed c E m sid w resp w')
    then show ?thesis using crash live by (simp add: answered_def)
  qed (use crash live in \<open>auto simp: reads_on_def answered_def access_def\<close>)
qed


end
