(* ===== verification/Fine_Run.thy ===== *)
theory Fine_Run
  imports Fine_Properties Deployment_Run
begin

section \<open>Two runs of the finer server\<close>

text \<open>
  Runs of the server of theory \<open>Deployment_Run\<close> in finer steps, with clients that behave like the mobile app.
  In the first one Alice's connection drops while Bob's join is being announced to her, and the server
  can panic with its next step.  In the second one Bob's join is announced before \<open>dispatch\<close> has bound Alice's session, and
  Alice never hears of him.
\<close>

definition talk_fine ::
  "(mem_repo, unit pion_peer) service \<Rightarrow> hub \<Rightarrow> (client_ptr \<Rightarrow> pumps)
     \<Rightarrow> (client_ptr \<rightharpoonup> notifier \<times> (gerror + signaling_message)) \<Rightarrow> unit fine" where
  "talk_fine w h ps D = \<lparr>fn_dep = talk_state w h ps, fn_dispatch = D, fn_background = []\<rparr>"

lemma talk_fine_sel [simp]:
  "fn_dep (talk_fine w h ps D) = talk_state w h ps" "fn_dispatch (talk_fine w h ps D) = D"
  "fn_background (talk_fine w h ps D) = []"
  "(talk_fine w h ps D)\<lparr>fn_dep := talk_state w' h' ps'\<rparr> = talk_fine w' h' ps' D"
  "(talk_fine w h ps D)\<lparr>fn_dep := talk_state w' h' ps', fn_dispatch := D'\<rparr> = talk_fine w' h' ps' D'"
  "(talk_fine w h ps D)\<lparr>fn_dispatch := D'\<rparr> = talk_fine w h ps D'"
  "set_service w' (talk_state w h ps) = talk_state w' h ps"
  by (simp_all add: talk_fine_def) (simp add: talk_state_def set_service_def)

lemma talk_coarse: "coarse (talk_state w h ps) = talk_fine w h ps (\<lambda>_. None)"
  by (simp add: coarse_def talk_fine_def)

subsection \<open>A drop while a join is announced\<close>

definition bob_news :: notification where
  "bob_news = \<lparr>nt_SessionID = ''a'', nt_Type = ''peer-joined'', nt_Fields = [(''name'', ''Bob'')]\<rparr>"

definition late_pumps :: "client_ptr \<Rightarrow> pumps" where
  "late_pumps = (\<lambda>_. no_pumps)(0 := started_pumps\<lparr>pm_read := ReadPumpGone, pm_open := False\<rparr>,
     1 := started_pumps\<lparr>pm_read := Dispatching\<rparr>)"

definition late_hub :: hub where
  "late_hub = snd (unregisterClient 0 hubE)"

abbreviation bob_answer :: "gerror + signaling_message" where
  "bob_answer \<equiv> Inr (joined_message ''b'' ''r'' ''Alice'')"

definition late_send :: "unit fine" where
  "late_send = talk_fine talk5 late_hub late_pumps [1 \<mapsto> ((Some (0, told bob_news), []), bob_answer)]"

text \<open>Alice has been looked up and is about to be told of Bob.\<close>

definition news_waits :: "unit fine" where
  "news_waits = talk_fine talk4 hubE
     (((\<lambda>_. no_pumps)(0 := started_pumps, 1 := started_pumps))(1 := started_pumps\<lparr>pm_read := Dispatching\<rparr>))
     [1 \<mapsto> ((Some (0, told bob_news), []), bob_answer)]"

lemma hubE_sel [simp]:
  "\<not> hb_crashed hubE" "hb_clients hubE = {0, 1}" "hb_sessionClients hubE = [''a'' \<mapsto> 0]"
  "cl_sessionID (hb_store hubE 0) = ''a''" "cl_sessionID (hb_store hubE (Suc 0)) = []" "cl_roomID (hb_store hubE (Suc 0)) = ''r''"
  by (simp_all add: hubE_def hubD_def)

lemma late_hub_sel [simp]: "hb_clients late_hub = {1}" "cl_closed (hb_store late_hub 0)" "\<not> hb_crashed late_hub"
  by (auto simp: late_hub_def unregisterClient_after) (simp_all add: hubE_def hubD_def hub_eval)

definition late_crash :: "unit fine" where
  "late_crash = talk_fine talk5 (trySendClient 0 (told bob_news) late_hub) late_pumps [1 \<mapsto> ((None, []), bob_answer)]"

lemma late_crash_step: "fine_step sorted_keys quiet_pion (no_joins like_the_app) late_send late_crash"
  using piece_step.dispatch_notifies [of late_send 1 "(Some (0, told bob_news), [])" bob_answer "(None, [])"
      "trySendClient 0 (told bob_news) late_hub" sorted_keys quiet_pion "no_joins like_the_app"]
  by (intro fine_step.piece) (simp add: late_send_def late_crash_def)

lemma late_crashed: "hb_crashed (fn_hub late_crash)" "\<not> hb_crashed (fn_hub late_send)"
  by (simp_all add: late_crash_def late_send_def trySendClient_crashed)


subsection \<open>An announcement that comes too early\<close>

definition early_hub :: hub where
  "early_hub = registerClient 1 (serveWS 1 ''r'' hubB)"

abbreviation alice_answer :: "gerror + signaling_message" where
  "alice_answer \<equiv> Inr (joined_message ''a'' ''r'' [])"

abbreviation pumps_pair :: "read_pump \<Rightarrow> read_pump \<Rightarrow> client_ptr \<Rightarrow> pumps" where
  "pumps_pair a b \<equiv> (\<lambda>_. no_pumps)(0 := started_pumps\<lparr>pm_read := a\<rparr>, 1 := started_pumps\<lparr>pm_read := b\<rparr>)"

definition unheard_hub :: hub where
  "unheard_hub = trySendClient 1 (joined_frame ''b'' ''Alice'') (trySendClient 0 (joined_frame ''a'' [])
     (bindSession 1 ''b'' (bindSession 0 ''a'' early_hub)))"

definition unheard :: "unit fine" where
  "unheard = talk_fine talk4 unheard_hub (pumps_pair Reading Reading) (\<lambda>_. None)"

lemma hubB_sel [simp]: "\<not> hb_crashed hubB" "hb_clients hubB = {0}" "hb_sessionClients hubB = (\<lambda>_. None)"
  "cl_sessionID (hb_store hubB 0) = []" "cl_roomID (hb_store hubB 0) = ''r''"
  "\<not> cl_closed (hb_store hubB 0)" "cl_send (hb_store hubB 0) = []"
  by (simp_all add: hubB_def)

lemma early_hub_sel [simp]: "\<not> hb_crashed early_hub" "hb_clients early_hub = {0, 1}" "hb_sessionClients early_hub = (\<lambda>_. None)"
  "cl_sessionID (hb_store early_hub (Suc 0)) = []" "cl_roomID (hb_store early_hub (Suc 0)) = ''r''"
  "cl_closed (hb_store early_hub 0) = False" "cl_closed (hb_store early_hub (Suc 0)) = False"
  "cl_send (hb_store early_hub 0) = []" "cl_send (hb_store early_hub (Suc 0)) = []"
  by (auto simp: early_hub_def hubB_def hub_defs Let_def)

lemma join_message_type [simp]: "msg_Type (join_message i u l n) = ''join''"
  by (simp add: join_message_def)

lemma hubD_alice: "trySendClient 0 (joined_frame ''a'' []) (bindSession 0 ''a'' hubB) = hubD"
  by (simp add: hubB_def hubD_def trySendClient_def bindSession_def setClient_def sendBufferSize_def)

lemma hubD_sel [simp]: "\<not> hb_crashed hubD" "hb_sessionClients hubD = [''a'' \<mapsto> 0]" "hb_clients hubD = {0}"
  by (simp_all add: hubD_def)

lemma hubE_bob: "registerClient 1 (serveWS 1 ''r'' hubD) = hubE"
  by (simp add: hubD_def hubE_def serveWS_wired registerClient_def setClient_def roomPeers_def Let_def fun_upd_twist
      insert_commute)

subsection \<open>What the runs use of the relation\<close>

text \<open>
  The runs are made of steps that are no joins and of joins handled in one piece, so they are runs of every relation that
  has these: the finer one, and that of theory \<open>Access_Deployment\<close>, where a join is many steps.
\<close>

locale talk_system =
  fixes reach :: "unit fine \<Rightarrow> bool"
  assumes connected: "reach (coarse stageB)"
    and moves: "reach f \<Longrightarrow> \<not> hb_crashed (fn_hub f) \<Longrightarrow> fine_step sorted_keys quiet_pion (no_joins like_the_app) f f' \<Longrightarrow> reach f'"
    and joins: "reach f \<Longrightarrow> \<not> hb_crashed (fn_hub f) \<Longrightarrow> env_ok E \<Longrightarrow> unused (fn_dep f) (ev_uuid E)
      \<Longrightarrow> pm_read (dp_pumps (fn_dep f) c) = Reading \<Longrightarrow> pm_open (dp_pumps (fn_dep f) c)
      \<Longrightarrow> like_the_app (fn_dep f) c m \<Longrightarrow> msg_Type m = ''join'' \<Longrightarrow> HandleSignaling example_repo quiet E m (fn_service f) = (Return a, w')
      \<Longrightarrow> reach (f\<lparr>fn_dep := set_read c Dispatching (set_service w' (fn_dep f)),
            fn_dispatch := (fn_dispatch f)(c \<mapsto> ((None, notified_since (fn_service f) w'), a))\<rparr>)"
begin

lemma handles:
  assumes "reach (talk_fine w h ps D)" and "\<not> hb_crashed h" and "unused (talk_state w h ps) u"
    and "pm_read (ps c) = Reading" and "pm_open (ps c)" and "like_the_app (talk_state w h ps) c m" and "msg_Type m = ''join''"
    and "HandleSignaling example_repo quiet (talk_env t u) m w = (Return a, w')"
  shows "reach (talk_fine w' h (ps(c := (ps c)\<lparr>pm_read := Dispatching\<rparr>)) (D(c \<mapsto> ((None, notified_since w w'), a))))"
  using joins [OF assms(1), of "talk_env t u" c m a w'] assms(2-8) by (simp add: talk_env_ok)

lemma notifies:
  assumes "reach (talk_fine w h ps D)" and "\<not> hb_crashed h" and "D c = Some (n, a)" and "notifier_step n h = (n', h')"
  shows "reach (talk_fine w h' ps (D(c \<mapsto> (n', a))))"
  using piece_step.dispatch_notifies [of "talk_fine w h ps D" c n a n' h' sorted_keys quiet_pion "no_joins like_the_app"] assms(3,4)
    moves [OF assms(1) _ fine_step.piece] assms(2) by simp

lemma returns:
  assumes "reach (talk_fine w h ps D)" and "\<not> hb_crashed h" and "D c = Some ((None, []), a)"
  shows "reach (talk_fine w (bindAnswer c a h) (ps(c := (ps c)\<lparr>pm_read := toSend a\<rparr>)) (D(c := None)))"
  using piece_step.dispatch_returns [of "talk_fine w h ps D" c a sorted_keys quiet_pion "no_joins like_the_app"] assms(3)
    moves [OF assms(1) _ fine_step.piece] assms(2) by simp

lemma wholly:
  assumes "reach (talk_fine w h ps D)" and "\<not> hb_crashed h"
    and "talk_step (no_joins like_the_app) (talk_state w h ps) (talk_state w' h' ps')"
    and "\<forall>cm \<in> on_the_way (talk_fine w h ps D). fst cm \<in> hb_clients h' \<longrightarrow> fst cm \<in> hb_clients h"
  shows "reach (talk_fine w' h' ps' D)"
  using fine_step.whole [of sorted_keys quiet_pion "no_joins like_the_app" "talk_fine w h ps D" "talk_state w' h' ps'"] assms(3,4)
    moves [OF assms(1)] assms(2) by simp

lemma drops:
  assumes "reach (talk_fine w h ps D)" and "\<not> hb_crashed h" and "pm_read (ps c) = Reading"
    and "unused (talk_state w h ps) u" and "unregisterClient c h = (Some sid, h')" and "hb_clients h' \<subseteq> hb_clients h"
    and "OnDisconnect (talk_env t u) sid w = w'" and "notified_since w w' = []" and "untaken ps" and "\<not> hb_crashed h'"
  shows "reach (talk_fine w' h' (ps(c := (ps c)\<lparr>pm_read := ReadPumpGone, pm_open := False\<rparr>)) D)"
proof -
  have "reach (talk_fine w h (ps(c := (ps c)\<lparr>pm_read := Unregistering\<rparr>)) D)"
    by (rule wholly [OF assms(1,2) talk_fail_step [where ps = ps, OF assms(3)]]) simp
  from wholly [OF this assms(2) talk_taken_step [where c = c]] assms(9)
  have "reach (talk_fine w h (ps(c := (ps c)\<lparr>pm_read := Taken\<rparr>)) D)" by simp
  from wholly [OF this assms(2) talk_gone_step [OF _ _ assms(5,7)]] assms(4,6,8)
  have "reach (talk_fine w' h' (ps(c := (ps c)\<lparr>pm_read := Closing\<rparr>)) D)" by auto
  from wholly [OF this assms(10) talk_closed_step [where c = c]] show ?thesis by simp
qed

text \<open>Alice joins, is answered, and Bob connects.\<close>

lemma both_connected:
  "reach (talk_fine talk3 hubE ((\<lambda>_. no_pumps)(0 := started_pumps, 1 := started_pumps)) (\<lambda>_. None))"
proof -
  have "reach (talk_fine talk2 hubB ((\<lambda>_. no_pumps)(0 := started_pumps)) (\<lambda>_. None))"
    using connected by (simp add: stageB_def talk_coarse)
  from handles [OF this _ _ _ _ _ _ alice_joins, of 0]
  have "reach (talk_fine talk3 hubB ((\<lambda>_. no_pumps)(0 := started_pumps\<lparr>pm_read := Dispatching\<rparr>)) [0 \<mapsto> ((None, []), alice_answer)])"
    by (simp add: app_join fresh_uuid_def fresh_room_id_def)
  from returns [OF this, of 0 alice_answer]
  have "reach (talk_fine talk3 (bindSession 0 ''a'' hubB) ((\<lambda>_. no_pumps)(0 := started_pumps\<lparr>pm_read := Replying (joined_frame ''a'' [])\<rparr>)) (\<lambda>_. None))"
    by (simp add: joined_message_def)
  from wholly [OF this _ talk_reply_step, of 0 "joined_frame ''a'' []"]
  have "reach (talk_fine talk3 hubD ((\<lambda>_. no_pumps)(0 := started_pumps)) (\<lambda>_. None))"
    by (simp add: hubD_alice bindSession_fields on_the_way_def notifiers_def)
  from wholly [OF this _ talk_connect_step, of "''r''" 1]
  show ?thesis by (simp add: hubE_bob [unfolded One_nat_def] new_client_def fresh_uuid_def fresh_room_id_def on_the_way_def notifiers_def)
qed

lemma news_waits_reach: "reach news_waits"
proof -
  let ?ps = "(\<lambda>_. no_pumps)(0 := started_pumps, 1 := started_pumps)"
  from handles [OF both_connected _ _ _ _ _ _ bob_joins, of 1]
  have "reach (talk_fine talk4 hubE (?ps(1 := started_pumps\<lparr>pm_read := Dispatching\<rparr>)) [1 \<mapsto> ((None, [bob_news]), bob_answer)])"
    by (simp add: app_join fresh_uuid_def fresh_room_id_def bob_news_def)
  from notifies [OF this, of 1 "(None, [bob_news])" bob_answer "(Some (0, told bob_news), [])" hubE]
  show ?thesis by (simp add: news_waits_def notifyLookup_def bob_news_def)
qed

lemma late_send_reach: "reach late_send"
proof -
  note r = news_waits_reach [unfolded news_waits_def]
  have u: "unregisterClient 0 hubE = (Some ''a'', late_hub)" by (simp add: late_hub_def unregisterClient_eq)
  show ?thesis
    unfolding late_send_def late_pumps_def
    using drops [OF r _ _ _ u _ talk5_def [symmetric]]
    by (simp add: fun_upd_twist fresh_uuid_def fresh_room_id_def notified_since_def)
qed

lemma unheard_reach: "reach unheard"
proof -
  have "reach (talk_fine talk2 hubB ((\<lambda>_. no_pumps)(0 := started_pumps)) (\<lambda>_. None))"
    using connected by (simp add: stageB_def talk_coarse)
  from handles [OF this _ _ _ _ _ _ alice_joins, of 0]
  have "reach (talk_fine talk3 hubB ((\<lambda>_. no_pumps)(0 := started_pumps\<lparr>pm_read := Dispatching\<rparr>)) [0 \<mapsto> ((None, []), alice_answer)])"
    by (simp add: app_join fresh_uuid_def fresh_room_id_def)
  from wholly [OF this _ talk_connect_step, of "''r''" 1]
  have "reach (talk_fine talk3 early_hub (pumps_pair Dispatching Reading) [0 \<mapsto> ((None, []), alice_answer)])"
    by (simp add: early_hub_def new_client_def fresh_uuid_def fresh_room_id_def on_the_way_def notifiers_def)
  from handles [OF this _ _ _ _ _ _ bob_joins, of 1]
  have "reach (talk_fine talk4 early_hub (pumps_pair Dispatching Dispatching)
      [0 \<mapsto> ((None, []), alice_answer), 1 \<mapsto> ((None, [bob_news]), bob_answer)])"
    by (simp add: app_join fresh_uuid_def fresh_room_id_def bob_news_def)
  from notifies [OF this, of 1 "(None, [bob_news])" bob_answer "(None, [])" early_hub]
  have "reach (talk_fine talk4 early_hub (pumps_pair Dispatching Dispatching)
      [0 \<mapsto> ((None, []), alice_answer), 1 \<mapsto> ((None, []), bob_answer)])"
    by (simp add: notifyLookup_def)
  from returns [OF this, of 0 alice_answer]
  have "reach (talk_fine talk4 (bindSession 0 ''a'' early_hub) (pumps_pair (Replying (joined_frame ''a'' [])) Dispatching)
      [1 \<mapsto> ((None, []), bob_answer)])"
    by (simp add: joined_message_def fun_upd_twist)
  from returns [OF this, of 1 bob_answer]
  have "reach (talk_fine talk4 (bindSession 1 ''b'' (bindSession 0 ''a'' early_hub))
      (pumps_pair (Replying (joined_frame ''a'' [])) (Replying (joined_frame ''b'' ''Alice''))) (\<lambda>_. None))"
    by (simp add: joined_message_def bindSession_fields)
  from wholly [OF this _ talk_reply_step, of 0 "joined_frame ''a'' []"]
  have "reach (talk_fine talk4 (trySendClient 0 (joined_frame ''a'' []) (bindSession 1 ''b'' (bindSession 0 ''a'' early_hub)))
      (pumps_pair Reading (Replying (joined_frame ''b'' ''Alice''))) (\<lambda>_. None))"
    by (simp add: bindSession_fields frame_simps fun_upd_twist)
  from wholly [OF this _ talk_reply_step, of 1 "joined_frame ''b'' ''Alice''"]
  show ?thesis
    by (simp add: bindSession_fields frame_simps unheard_def unheard_hub_def trySendClient_crashed trySendClient_queue)
qed

end

text \<open>The finer relation has these steps.\<close>

abbreviation talk_fine_reach :: "unit fine \<Rightarrow> bool" where
  "talk_fine_reach \<equiv> fine_reach talk_getenv sorted_keys quiet_pion like_the_app"

interpretation fine_talk: talk_system talk_fine_reach
proof
  show "talk_fine_reach (coarse stageB)" by (rule coarse_reach [OF stageB_reach])
  show "talk_fine_reach f'" if "talk_fine_reach f" "\<not> hb_crashed (fn_hub f)"
    "fine_step sorted_keys quiet_pion (no_joins like_the_app) f f'" for f f'
    using fine_reach.runs [OF that(1,2) fine_step_mono [OF that(3)]] by simp
  show "talk_fine_reach (f\<lparr>fn_dep := set_read c Dispatching (set_service w' (fn_dep f)),
      fn_dispatch := (fn_dispatch f)(c \<mapsto> ((None, notified_since (fn_service f) w'), a))\<rparr>)"
    if "talk_fine_reach f" "\<not> hb_crashed (fn_hub f)" "env_ok E" "unused (fn_dep f) (ev_uuid E)" "pm_read (dp_pumps (fn_dep f) c) = Reading"
      "pm_open (dp_pumps (fn_dep f) c)" "like_the_app (fn_dep f) c m" "msg_Type m = ''join''"
      "HandleSignaling example_repo quiet E m (fn_service f) = (Return a, w')" for f E c m a w'
    by (rule fine_reach.runs [OF that(1,2) fine_step.piece [OF piece_step.handled [where f = f and d = "fn_dep f" and D = like_the_app, OF refl that(3-7,9)]]])
qed

subsection \<open>What the runs show\<close>

text \<open>
  There is a run of well-behaved clients after which both users of a room hold their sessions, each
  connection is bound to its own and every answer has been delivered, but the first user has been told neither by the answer nor
  by a notification that the second one is there, and nothing is left to be sent.
\<close>

theorem an_announcement_can_be_lost:
  "\<exists>f. fine_reach talk_getenv sorted_keys quiet_pion like_the_app f \<and> notifiers f = {} \<and> \<not> hb_crashed (fn_hub f)
     \<and> room_sessions (fn_service f) ''r'' = {talk_alice, talk_bob}
     \<and> hb_sessionClients (fn_hub f) = [''a'' \<mapsto> 0, ''b'' \<mapsto> 1]
     \<and> pm_frames (dp_pumps (fn_dep f) 0) = [] \<and> cl_send (hb_store (fn_hub f) 0) = [joined_frame ''a'' []]"
proof (intro exI [of _ unheard] conjI)
  show "fine_reach talk_getenv sorted_keys quiet_pion like_the_app unheard" by (rule fine_talk.unheard_reach)
  show "room_sessions (fn_service unheard) ''r'' = {talk_alice, talk_bob}"
  proof -
    have "ran (sv_sessions talk4) = {talk_alice, talk_bob}" by (simp add: insert_commute)
    then show ?thesis by (auto simp: unheard_def room_sessions_def)
  qed
  show "notifiers unheard = {}" by (simp add: unheard_def notifiers_def)
  show "pm_frames (dp_pumps (fn_dep unheard) 0) = []" by (simp add: unheard_def started_pumps_def)
  show "hb_sessionClients (fn_hub unheard) = [''a'' \<mapsto> 0, ''b'' \<mapsto> 1]"
    by (simp add: unheard_def unheard_hub_def bindSession_fields frame_simps)
  show "cl_send (hb_store (fn_hub unheard) 0) = [joined_frame ''a'' []]"
    by (simp add: unheard_def unheard_hub_def bindSession_fields trySendClient_queue frame_simps sendBufferSize_def)
  show "\<not> hb_crashed (fn_hub unheard)"
    by (simp add: unheard_def unheard_hub_def bindSession_fields trySendClient_crashed frame_simps)
qed

end
