(* ===== verification/Access_Run.thy ===== *)
theory Access_Run
  imports Access_Properties Fine_Run
begin

section \<open>A join of the whole server, access by access\<close>

text \<open>
  A join that nothing interrupts is the piece \<open>handled\<close> of the finer relation; with it the runs of theory \<open>Fine_Run\<close> are
  runs of accesses.  Whenever a client is about to be told something by a handler, its connection can drop before the send, and the
  send then panics.
\<close>

definition idle :: "'x fine \<Rightarrow> 'x accesses" where
  "idle f = \<lparr>ac_fine = f, ac_calls = [], ac_named = (\<lambda>_. None)\<rparr>"

lemma idle_sel [simp]:
  "ac_fine (idle f) = f" "ac_calls (idle f) = []" "ac_named (idle f) = (\<lambda>_. None)"
  "(idle f)\<lparr>ac_fine := f'\<rparr> = idle f'"
  by (simp_all add: idle_def)

lemma idle_other: "fine_step ord L (no_joins D) f f' \<Longrightarrow> access_step ord L D (idle f) (idle f')"
  using access_step.other [of ord L D "idle f" f'] by simp

text \<open>Accesses do not touch the hub.\<close>

definition still_step ::
  "(mem_repo \<Rightarrow> string list) \<Rightarrow> 'x pion_api \<Rightarrow> ('x deployment \<Rightarrow> client_ptr \<Rightarrow> signaling_message \<Rightarrow> bool)
     \<Rightarrow> 'x accesses \<Rightarrow> 'x accesses \<Rightarrow> bool" where
  "still_step ord L D g g' \<longleftrightarrow> access_step ord L D g g' \<and> fn_hub (ac_fine g') = fn_hub (ac_fine g)"

lemma join_step_outbox: "join_step R P E i u lang pc w = (pc', w') \<Longrightarrow> sv_outbox w' = sv_outbox w"
  by (cases pc) (auto simp: frame_simps cancelGraceTimersForRoom_def split: sum.splits prod.splits option.splits if_splits)

lemma set_service_again [simp]:
  "set_service w' (set_service w d) = set_service w' d" "set_service (dp_service d) d = d"
  "set_service w (set_read c r d) = set_read c r (set_service w d)"
  by (simp_all add: set_service_def set_read_def)

lemma access_quiet: "sv_outbox w' = sv_outbox (fn_service f) \<Longrightarrow> access w' f = f\<lparr>fn_dep := set_service w' (fn_dep f)\<rparr>"
  by (cases f) (simp add: access_def)

lemma join_runs_on:
  assumes "ac_calls g = [(who, JoinCall E i u lang pc)]"
    and "interleave (mem_repository ord) (pion_webrtc_peer L) (replicate n 0) ([JoinCall E i u lang pc], ac_service g)
      = ([JoinCall E i u lang (JoinDone x)], w')"
  shows "(still_step ord L D)\<^sup>*\<^sup>* g
      (g\<lparr>ac_fine := (ac_fine g)\<lparr>fn_dep := set_service w' (ac_dep g)\<rparr>, ac_calls := [(who, JoinCall E i u lang (JoinDone x))]\<rparr>)
    \<and> sv_outbox w' = sv_outbox (ac_service g)"
  using assms
proof (induction n arbitrary: g pc)
  case 0
  then have "g\<lparr>ac_fine := (ac_fine g)\<lparr>fn_dep := set_service w' (ac_dep g)\<rparr>, ac_calls := [(who, JoinCall E i u lang (JoinDone x))]\<rparr> = g"
    by (cases g, cases "ac_fine g") auto
  then show ?case using 0 by simp
next
  case (Suc n)
  obtain pc1 w1 where s: "join_step (mem_repository ord) (pion_webrtc_peer L) E i u lang pc (ac_service g) = (pc1, w1)" by fastforce
  let ?g = "g\<lparr>ac_fine := (ac_fine g)\<lparr>fn_dep := set_service w1 (ac_dep g)\<rparr>, ac_calls := [(who, JoinCall E i u lang pc1)]\<rparr>"
  note out = join_step_outbox [OF s]
  have "access_step ord L D g ?g"
    using access_step.accesses [of g "[]" who "JoinCall E i u lang pc" "[]" ord L "JoinCall E i u lang pc1" w1 D] Suc.prems(1) s
    by (simp add: access_quiet [OF out])
  then have "still_step ord L D g ?g" by (simp add: still_step_def)
  moreover have "interleave (mem_repository ord) (pion_webrtc_peer L) (replicate n 0) ([JoinCall E i u lang pc1], ac_service ?g)
      = ([JoinCall E i u lang (JoinDone x)], w')"
    using Suc.prems(2) s by simp
  from Suc.IH [OF _ this] have "(still_step ord L D)\<^sup>*\<^sup>* ?g
      (g\<lparr>ac_fine := (ac_fine g)\<lparr>fn_dep := set_service w' (ac_dep g)\<rparr>, ac_calls := [(who, JoinCall E i u lang (JoinDone x))]\<rparr>)"
    and "sv_outbox w' = sv_outbox w1" by simp_all
  ultimately show ?case using out by (metis converse_rtranclp_into_rtranclp)
qed

text \<open>
  The accesses of a \<open>join\<close> message, from its dispatch to the answer its handler returns, make the one step that
  the finer relation has for it, with the same answer, the same notifications and the same state, on every branch.
\<close>

lemma join_is_its_accesses:
  assumes E: "env_ok E" "unused (fn_dep f) (ev_uuid E)" and c: "pm_read (dp_pumps (fn_dep f) c) = Reading" "pm_open (dp_pumps (fn_dep f) c)"
    and m: "D (fn_dep f) c m" "msg_Type m = ''join''"
    and H: "HandleSignaling (mem_repository ord) (pion_webrtc_peer L) E m (fn_service f) = (Return a, w')"
  shows "(still_step ord L D)\<^sup>*\<^sup>* (idle f) (idle (f\<lparr>fn_dep := set_read c Dispatching (set_service w' (fn_dep f)),
    fn_dispatch := (fn_dispatch f)(c \<mapsto> ((None, notified_since (fn_service f) w'), a))\<rparr>))"
proof -
  let ?R = "mem_repository ord" and ?P = "pion_webrtc_peer L"
  let ?k = "\<lambda>pc. (Joining c m, JoinCall E (msg_RoomID m) (msg_UserID m) (msg_Lang m) pc)"
  obtain x w1 where J: "JoinRoom ?R ?P E (msg_RoomID m) (msg_UserID m) (msg_Lang m) (fn_service f) = (x, w1)" by fastforce
  let ?g = "(idle f)\<lparr>ac_fine := reads_on c f, ac_calls := [?k JoinStart]\<rparr>"
  let ?f = "f\<lparr>fn_dep := set_read c Dispatching (set_service w1 (fn_dep f))\<rparr>"
  have start: "still_step ord L D (idle f) ?g"
    using access_step.join_begins [of "idle f" "fn_dep f" E c D m ord L] assms
    by (simp add: still_step_def new_uuid_def taken_def reads_on_def)
  have "interleave ?R ?P (replicate 11 0) ([JoinCall E (msg_RoomID m) (msg_UserID m) (msg_Lang m) JoinStart], ac_service ?g)
      = ([JoinCall E (msg_RoomID m) (msg_UserID m) (msg_Lang m) (JoinDone x)], w1)"
    using interleave_join [of ?R ?P 0 E "msg_RoomID m" "msg_UserID m" "msg_Lang m" "fn_service f"] J by (simp add: reads_on_def)
  from join_runs_on [where D = D and g = ?g and who = "Joining c m", OF _ this]
  have accesses: "(still_step ord L D)\<^sup>*\<^sup>* ?g ((idle ?f)\<lparr>ac_calls := [?k (JoinDone x)]\<rparr>)" and out: "sv_outbox w1 = sv_outbox (fn_service f)"
    by (simp_all add: reads_on_def idle_def)
  have handled: "handleJoin ?R ?P E m (fn_service f) = (case a of Inr resp \<Rightarrow> resp, w') \<and> (\<exists>resp. a = Inr resp)"
    using H m(2) by (auto simp: HandleSignaling_def split: prod.splits)
  then obtain resp where a: "a = Inr resp" by blast
  have rest: "(still_step ord L D)\<^sup>*\<^sup>* ((idle ?f)\<lparr>ac_calls := [?k (JoinDone x)]\<rparr>)
      (idle (f\<lparr>fn_dep := set_read c Dispatching (set_service w' (fn_dep f)),
        fn_dispatch := (fn_dispatch f)(c \<mapsto> ((None, notified_since (fn_service f) w'), a))\<rparr>))"
  proof (cases x)
    case (Inl e)
    then have "resp = errorMessage (error_text e)" "w' = w1" using handled a J by (auto simp: handleJoin_def)
    then have "still_step ord L D ((idle ?f)\<lparr>ac_calls := [?k (JoinDone x)]\<rparr>)
        (idle (f\<lparr>fn_dep := set_read c Dispatching (set_service w' (fn_dep f)),
          fn_dispatch := (fn_dispatch f)(c \<mapsto> ((None, notified_since (fn_service f) w'), a))\<rparr>))"
      using access_step.join_fails [of "(idle ?f)\<lparr>ac_calls := [?k (JoinDone x)]\<rparr>" "[]" c m E "msg_RoomID m" "msg_UserID m" "msg_Lang m" e "[]" ord L D] Inl a out
      by (simp add: still_step_def idle_def answered_def)
    then show ?thesis by blast
  next
    case (Inr sid)
    let ?w2 = "storeName m sid w1"
    let ?h = "\<lparr>ac_fine = ?f\<lparr>fn_dep := set_service ?w2 (fn_dep ?f)\<rparr>, ac_calls = [], ac_named = [c \<mapsto> (E, m, sid)]\<rparr>"
    have out2: "sv_outbox ?w2 = sv_outbox (fn_service f)" using out by (simp add: storeName_def split: option.split)
    have "still_step ord L D ((idle ?f)\<lparr>ac_calls := [?k (JoinDone x)]\<rparr>) ?h"
      using access_step.name_stored [of "(idle ?f)\<lparr>ac_calls := [?k (JoinDone x)]\<rparr>" "[]" c m E "msg_RoomID m" "msg_UserID m" "msg_Lang m" sid "[]" ord L D] Inr
      by (simp add: still_step_def idle_def access_quiet out out2)
    moreover have r: "relayNames E m sid ?w2 = (resp, w')" using handled a J Inr by (simp add: handleJoin_in_pieces)
    have "still_step ord L D ?h (idle (f\<lparr>fn_dep := set_read c Dispatching (set_service w' (fn_dep f)),
          fn_dispatch := (fn_dispatch f)(c \<mapsto> ((None, notified_since (fn_service f) w'), a))\<rparr>))"
      using access_step.names_relayed [of ?h c E m sid ?w2 resp w' ord L D] r a out2
      by (simp add: still_step_def idle_def answered_def notified_since_def)
    ultimately show ?thesis by (meson converse_rtranclp_into_rtranclp r_into_rtranclp)
  qed
  from converse_rtranclp_into_rtranclp [where r = "still_step ord L D", OF start rtranclp_trans [OF accesses rest]] show ?thesis .
qed

subsection \<open>The run that ends in a late send\<close>

abbreviation talk_access_reach :: "unit accesses \<Rightarrow> bool" where
  "talk_access_reach \<equiv> access_reach talk_getenv sorted_keys quiet_pion like_the_app"

lemma coarse_accesses: "deployment_reach getenv ord L (no_joins D) d \<Longrightarrow> access_reach getenv ord L D (idle (coarse d))"
proof (induction rule: deployment_reach.induct)
  case (started x s h codec)
  then show ?case using access_reach.started by (simp add: idle_def)
next
  case (runs d d')
  have "fine_step ord L (no_joins D) (coarse d) (coarse d')"
    using fine_step.whole [of ord L "no_joins D" "coarse d" d'] runs.hyps(3) by simp
  from access_reach.runs [OF runs.IH _ idle_other [OF this]]
  show ?case using runs.hyps(2) by simp
qed

lemma still_reach:
  assumes "(still_step ord L D)\<^sup>*\<^sup>* g g'" and "access_reach getenv ord L D g" and "\<not> hb_crashed (fn_hub (ac_fine g))"
  shows "access_reach getenv ord L D g' \<and> \<not> hb_crashed (fn_hub (ac_fine g'))"
  using assms
proof (induction rule: rtranclp_induct)
  case (step g1 g2)
  then show ?case using access_reach.runs [of getenv ord L D g1 g2] by (simp add: still_step_def)
qed simp

interpretation access_talk: talk_system "\<lambda>f. talk_access_reach (idle f)"
proof
  show "talk_access_reach (idle (coarse stageB))" by (rule coarse_accesses [OF stageB_reach])
  show "talk_access_reach (idle f')" if "talk_access_reach (idle f)" "\<not> hb_crashed (fn_hub f)"
    "fine_step sorted_keys quiet_pion (no_joins like_the_app) f f'" for f f'
    using access_reach.runs [OF that(1) _ idle_other [OF that(3)]] that(2) by simp
  show "talk_access_reach (idle (f\<lparr>fn_dep := set_read c Dispatching (set_service w' (fn_dep f)),
      fn_dispatch := (fn_dispatch f)(c \<mapsto> ((None, notified_since (fn_service f) w'), a))\<rparr>))"
    if "talk_access_reach (idle f)" "\<not> hb_crashed (fn_hub f)" "env_ok E" "unused (fn_dep f) (ev_uuid E)" "pm_read (dp_pumps (fn_dep f) c) = Reading"
      "pm_open (dp_pumps (fn_dep f) c)" "like_the_app (fn_dep f) c m" "msg_Type m = ''join''"
      "HandleSignaling example_repo quiet E m (fn_service f) = (Return a, w')" for f E c m a w'
  proof -
    have "(still_step sorted_keys quiet_pion like_the_app)\<^sup>*\<^sup>* (idle f) (idle (f\<lparr>fn_dep := set_read c Dispatching (set_service w' (fn_dep f)),
        fn_dispatch := (fn_dispatch f)(c \<mapsto> ((None, notified_since (fn_service f) w'), a))\<rparr>))"
      by (rule join_is_its_accesses) (use that(3-9) in simp_all)
    from still_reach [OF this that(1)] that(2) show ?thesis by simp
  qed
qed

lemma late_access_step: "access_step sorted_keys quiet_pion like_the_app (idle late_send) (idle late_crash)"
  by (rule idle_other [OF late_crash_step])

theorem the_only_panic_is_a_late_send_witness:
  "\<exists>c n. fn_hub late_crash = trySendClient c (told n) (fn_hub late_send) \<and> c \<notin> hb_clients (fn_hub late_send)"
  using the_only_panic_is_a_late_send [OF access_talk.late_send_reach _ late_access_step] late_crashed by auto


subsection \<open>A drop before the send\<close>

lemma whole_access:
  assumes "deployment_step ord L (no_joins D) (ac_dep g) d" and "hb_clients (dp_hub d) \<subseteq> hb_clients (fn_hub (ac_fine g))"
  shows "access_step ord L D g (g\<lparr>ac_fine := (ac_fine g)\<lparr>fn_dep := d\<rparr>\<rparr>)"
  using assms by (intro access_step.other fine_step.whole) auto

text \<open>A connection whose read pump fails while the hub loop is free is unregistered by three steps of its own and the loop's.\<close>

definition dropped :: "env \<Rightarrow> client_ptr \<Rightarrow> 'x deployment \<Rightarrow> 'x deployment" where
  "dropped E c d = (case unregisterClient c (dp_hub d) of (gone, h) \<Rightarrow>
     call (case gone of None \<Rightarrow> dp_service d | Some sid \<Rightarrow> OnDisconnect E sid (dp_service d))
       (set_read c Closing (d\<lparr>dp_hub := h\<rparr>)))"

lemma dropped_sel [simp]:
  "dp_hub (dropped E c d) = snd (unregisterClient c (dp_hub d))"
  by (auto simp: dropped_def OnDisconnect_def split: prod.split option.split)

lemma set_read_read [simp]: "set_read c r (set_read c q d) = set_read c r d"
  by (simp add: set_read_def)

lemma set_read_running [simp]: "dp_running (set_read c r d) = dp_running d"
  by (simp add: set_read_def)

lemma set_read_hub [simp]: "(set_read c q d)\<lparr>dp_hub := h\<rparr> = set_read c q (d\<lparr>dp_hub := h\<rparr>)"
  by (simp add: set_read_def)

lemma connection_drops:
  assumes g: "access_reach getenv ord L D g" "\<not> hb_crashed (fn_hub (ac_fine g))"
    and c: "pm_read (dp_pumps (ac_dep g) c) = Reading" "c \<in> hb_clients (fn_hub (ac_fine g))"
    and loop: "loop_idle (ac_dep g)" and E: "env_ok E" "unused (ac_dep g) (ev_uuid E)"
  shows "access_reach getenv ord L D (g\<lparr>ac_fine := (ac_fine g)\<lparr>fn_dep := dropped E c (ac_dep g)\<rparr>\<rparr>)
    \<and> (access_step ord L D)\<^sup>*\<^sup>* g (g\<lparr>ac_fine := (ac_fine g)\<lparr>fn_dep := dropped E c (ac_dep g)\<rparr>\<rparr>)"
proof -
  let ?d = "ac_dep g" and ?G = "\<lambda>d. g\<lparr>ac_fine := (ac_fine g)\<lparr>fn_dep := d\<rparr>\<rparr>"
  have fails: "access_step ord L D g (?G (set_read c Unregistering ?d))"
    by (rule whole_access [OF deployment_step.read_failed [OF c(1)]]) simp
  have "loop_idle (set_read c Unregistering ?d)" using loop by (simp add: loop_idle_def set_read_def)
  from deployment_step.taken [OF _ this, of c]
  have "access_step ord L D (?G (set_read c Unregistering ?d)) (?G (set_read c Taken ?d))"
    using whole_access [of ord L D "?G (set_read c Unregistering ?d)" "set_read c Taken ?d"] by simp
  note taken = this
  obtain gone h where u: "unregisterClient c (dp_hub ?d) = (gone, h)" by fastforce
  have "deployment_step ord L (no_joins D) (set_read c Taken ?d) (dropped E c ?d)"
    using deployment_step.unregistered [OF E(1), of "set_read c Taken ?d" c gone h _ ord L "no_joins D", OF _ _ _ refl] loop E(2) u
    by (cases gone) (simp_all add: dropped_def loop_idle_def unused_def)
  then have gone: "access_step ord L D (?G (set_read c Taken ?d)) (?G (dropped E c ?d))"
    using whole_access [of ord L D "?G (set_read c Taken ?d)" "dropped E c ?d"] unregisterClient_after(2) [OF c(2)] by auto
  have "access_reach getenv ord L D (?G (dropped E c ?d))"
    using access_reach.runs [OF access_reach.runs [OF access_reach.runs [OF g fails] _ taken] _ gone] g(2) by simp
  moreover have "(access_step ord L D)\<^sup>*\<^sup>* g (?G (dropped E c ?d))"
    using fails taken gone by (meson converse_rtranclp_into_rtranclp r_into_rtranclp)
  ultimately show ?thesis ..
qed

text \<open>
  C3: two visitors who use the app as it is meant to be used can take the server down.  Whenever the handler of one
  client's message has looked up another client to send it a notification, and that other client's read pump waits for
  its next message and the hub loop for its next event, the server has a run in which the other client's connection drops, the
  hub unregisters it, and the notification is then sent all the same: that send is the next step, and it panics.
\<close>

theorem a_drop_before_the_send_crashes_the_server:
  assumes g: "access_reach getenv ord L like_the_app g" and live: "\<not> hb_crashed (fn_hub (ac_fine g))"
    and send: "fn_dispatch (ac_fine g) p = Some ((Some (c, m), ns), a)"
    and c: "pm_read (dp_pumps (ac_dep g) c) = Reading" and loop: "loop_idle (ac_dep g)"
    and E: "env_ok E" "unused (ac_dep g) (ev_uuid E)"
  shows "\<exists>g' g''. access_reach getenv ord L like_the_app g' \<and> (access_step ord L like_the_app)\<^sup>*\<^sup>* g g'
    \<and> fn_hub (ac_fine g') = snd (unregisterClient c (fn_hub (ac_fine g))) \<and> \<not> hb_crashed (fn_hub (ac_fine g'))
    \<and> access_step ord L like_the_app g' g''
    \<and> fn_hub (ac_fine g'') = trySendClient c m (fn_hub (ac_fine g')) \<and> hb_crashed (fn_hub (ac_fine g''))"
proof -
  have fine: "fine_ok (ac_fine g)" by (rule accesses_okD(1) [OF access_reach_ok [OF g live]])
  have reg: "c \<in> hb_clients (fn_hub (ac_fine g))"
    using fine_okD(2) [OF fine] c by (simp add: dispatches_match_def pumps_match_def)
  let ?g = "g\<lparr>ac_fine := (ac_fine g)\<lparr>fn_dep := dropped E c (ac_dep g)\<rparr>\<rparr>"
  let ?f = "(ac_fine ?g)\<lparr>fn_dep := on_hub (\<lambda>_. trySendClient c m (fn_hub (ac_fine ?g))) (ac_dep ?g),
    fn_dispatch := (fn_dispatch (ac_fine ?g))(p \<mapsto> ((None, ns), a))\<rparr>"
  have "piece_step ord L (no_joins like_the_app) (ac_fine ?g) ?f"
    by (rule piece_step.dispatch_notifies [where n = "(Some (c, m), ns)"]) (use send in simp_all)
  then have step: "access_step ord L like_the_app ?g (?g\<lparr>ac_fine := ?f\<rparr>)" by (intro access_step.other fine_step.piece)
  have calm: "\<not> hb_crashed (fn_hub (ac_fine ?g))"
    using hub_okD(4) [OF unregisterClient_ok [OF hub_reach_ok [OF fine_okD(1) [OF fine]] reg]] by simp
  have "hb_crashed (fn_hub ?f)" using unregisterClient_after(1) [OF reg] by (simp add: trySendClient_crashed)
  then show ?thesis
    using connection_drops [OF g live c reg loop E] step calm
    by (intro exI [of _ ?g] exI [of _ "?g\<lparr>ac_fine := ?f\<rparr>"]) simp
qed

theorem a_drop_before_the_send_crashes_the_server_witness:
  "\<exists>g g'. talk_access_reach g \<and> \<not> hb_crashed (fn_hub (ac_fine g)) \<and> access_step sorted_keys quiet_pion like_the_app g g'
     \<and> fn_hub (ac_fine g') = trySendClient 0 (told bob_news) late_hub \<and> hb_crashed (fn_hub (ac_fine g'))"
proof -
  have e: "env_ok (talk_env (3 * second) ''y'')" "unused (ac_dep (idle news_waits)) (ev_uuid (talk_env (3 * second) ''y''))"
    by (simp_all add: talk_env_ok news_waits_def fresh_uuid_def fresh_room_id_def)
  have l: "loop_idle (ac_dep (idle news_waits))" "pm_read (dp_pumps (ac_dep (idle news_waits)) 0) = Reading"
    "fn_dispatch (ac_fine (idle news_waits)) 1 = Some ((Some (0, told bob_news), []), bob_answer)"
    "\<not> hb_crashed (fn_hub (ac_fine (idle news_waits)))" "fn_hub news_waits = hubE"
    by (simp_all add: news_waits_def loop_idle_def)
  from a_drop_before_the_send_crashes_the_server [OF access_talk.news_waits_reach l(4,3,2,1) e] l(5)
  show ?thesis unfolding late_hub_def by (metis idle_sel(1))
qed

end
