(* ===== verification/Interleaving_Rooms.thy ===== *)
theory Interleaving_Rooms
  imports Interleaving_Registry
begin

section \<open>No schedule overfills a room: app/roomsvc/service.go\<close>

text \<open>
  Rooms are shared objects: a call in progress may hold one that has been deleted, or save it again.  What every room that is
  stored or held by a call keeps between any two accesses is its bound on participants, its identity, its
  languages and, once it is stored, its code.
\<close>

text \<open>The rooms a call holds.\<close>

fun join_holds :: "join_pc \<Rightarrow> room_ptr set" where
  "join_holds (JoinCheck p) = {p}"
| "join_holds (JoinTimers p b) = {p}"
| "join_holds (JoinLookup p) = {p}"
| "join_holds (JoinRetry p) = {p}"
| "join_holds (JoinCreate p b) = {p}"
| "join_holds (JoinSave p b) = {p}"
| "join_holds (JoinRegister p) = {p}"
| "join_holds (JoinTouch p) = {p}"
| "join_holds (JoinResave p) = {p}"
| "join_holds (JoinFull p) = {p}"
| "join_holds _ = {}"

fun leave_holds :: "leave_pc \<Rightarrow> room_ptr set" where
  "leave_holds (LeaveMember sid s p) = {p}"
| "leave_holds (LeaveSave sid s p) = {p}"
| "leave_holds _ = {}"

fun delete_holds :: "delete_pc \<Rightarrow> room_ptr set" where
  "delete_holds (DeleteClose p) = {p}"
| "delete_holds _ = {}"

fun create_holds :: "create_pc \<Rightarrow> room_ptr set" where
  "create_holds (CreatePick p n rd) = {p}"
| "create_holds (CreateSave p) = {p}"
| "create_holds _ = {}"

fun holds :: "pending_call \<Rightarrow> room_ptr set" where
  "holds (JoinCall E i u l pc) = join_holds pc"
| "holds (LeaveCall E i u pc) = leave_holds pc"
| "holds (DeleteCall E i pc) = delete_holds pc"
| "holds (CreateCall E a b pc) = create_holds pc"
| "holds (TimerCall E sid t (TimerDelete pc)) = delete_holds pc"
| "holds (TimerCall E sid t pc) = {}"

lemma not_begun_holds: "not_begun c \<Longrightarrow> holds c = {} \<and> creating c = None"
  by (cases c) auto

lemma creating_holds: "creating c = Some p \<Longrightarrow> p \<in> holds c"
  by (cases c rule: creating.cases) auto

text \<open>What an access does to the map of the stored rooms.\<close>

definition restored :: "room_heap \<Rightarrow> room_ptr set \<Rightarrow> mem_repo \<Rightarrow> mem_repo \<Rightarrow> bool" where
  "restored h ps r r' \<longleftrightarrow> r' = r \<or> (\<exists>p \<in> ps. r' = r(rm_ID (h p) \<mapsto> p)) \<or> (\<exists>i. r' = r(i := None))"

lemma join_step_holds:
  "join_step (mem_repository ord) P E i u lang pc w = (pc', w') \<Longrightarrow>
     restored (sv_heap w) (join_holds pc) (sv_repo w) (sv_repo w') \<and> join_holds pc' \<subseteq> join_holds pc \<union> ran (sv_repo w)"
  by (cases pc) (auto simp: restored_def frame_simps mem_FindByID_def mem_Save_def ran_def split: sum.splits option.splits prod.splits if_splits)

lemma leave_step_holds:
  "leave_step (mem_repository ord) P E i u pc w = (pc', w') \<Longrightarrow>
     restored (sv_heap w) (leave_holds pc) (sv_repo w) (sv_repo w') \<and> leave_holds pc' \<subseteq> leave_holds pc \<union> ran (sv_repo w)"
  by (cases pc) (auto simp: restored_def frame_simps Let_def mem_FindByID_def mem_Save_def ran_def split: sum.splits option.splits prod.splits if_splits)

lemma delete_step_holds:
  "delete_step (mem_repository ord) P E i pc w = (pc', w') \<Longrightarrow>
     restored (sv_heap w) (delete_holds pc) (sv_repo w) (sv_repo w') \<and> delete_holds pc' \<subseteq> delete_holds pc \<union> ran (sv_repo w)"
  by (cases pc) (auto simp: restored_def frame_simps mem_FindByID_def mem_Delete_def ran_def split: sum.splits option.splits prod.splits if_splits)

text \<open>A room fit to be held or stored.\<close>

definition fit :: "('r, 'p) service \<Rightarrow> room_ptr \<Rightarrow> bool" where
  "fit w p \<longleftrightarrow> p < sv_next w \<and> room_ok (sv_heap w p) \<and> rm_Capacity (sv_heap w p) = 2"

definition still_fit :: "('r, 'p) service \<Rightarrow> ('r, 'p) service \<Rightarrow> bool" where
  "still_fit w w' \<longleftrightarrow> (\<forall>p. fit w p \<longrightarrow> fit w' p \<and> rm_ID (sv_heap w' p) = rm_ID (sv_heap w p))"

lemma room_run_frame:
  "rm_ID (room_run r ops) = rm_ID r" "rm_ShortCode (room_run r ops) = rm_ShortCode r"
  "rm_SourceLang (room_run r ops) = rm_SourceLang r" "rm_TargetLang (room_run r ops) = rm_TargetLang r"
  by (induction ops arbitrary: r) (simp_all add: frame_simps)

lemma still_fitI: "rooms_evolve (sv_heap w) (sv_heap w') \<Longrightarrow> sv_next w' = sv_next w \<Longrightarrow> still_fit w w'"
  unfolding still_fit_def fit_def rooms_evolve_def by (metis room_run_ok room_run_capacity room_run_frame(1))

lemma room_ok_code [simp]: "room_ok (r\<lparr>rm_ShortCode := c\<rparr>) \<longleftrightarrow> room_ok r"
  by (simp add: room_ok_def)

text \<open>One access of one call.\<close>

definition well_behaved :: "pending_call \<Rightarrow> (mem_repo, 'p) service \<Rightarrow> pending_call \<Rightarrow> (mem_repo, 'p) service \<Rightarrow> bool" where
  "well_behaved c w c' w' \<longleftrightarrow> still_fit w w' \<and> restored (sv_heap w) (holds c) (sv_repo w) (sv_repo w')
     \<and> holds c' \<subseteq> holds c \<union> ran (sv_repo w) \<union> {p. p = sv_next w \<and> fit w' p}
     \<and> (\<forall>p. creating c' = Some p \<longrightarrow> sv_repo w' = sv_repo w \<and> (creating c = Some p \<or> p = sv_next w))"

lemma create_step_behaved:
  assumes "create_step (mem_repository ord) E a b pc w = (pc', w')" and "\<forall>p \<in> create_holds pc. fit w p"
  shows "well_behaved (CreateCall E a b pc) w (CreateCall E a b pc') w'"
proof (cases pc)
  case CreateStart
  then show ?thesis
    using assms(1) room_ok_new [of "ev_uuid E" a b "ev_now E"]
    by (auto simp: well_behaved_def restored_def still_fit_def fit_def NewRoom_def defaultCapacity_def split: sum.splits if_splits)
next
  case (CreatePick p n rd)
  then show ?thesis
    using assms by (cases n) (auto simp: well_behaved_def restored_def still_fit_def fit_def split: sum.splits prod.splits if_splits)
next
  case (CreateSave p)
  then show ?thesis
    using assms(1) by (auto simp: well_behaved_def restored_def still_fit_def fit_def mem_Save_def)
next
  case (CreateDone x)
  then show ?thesis using assms(1) by (auto simp: well_behaved_def restored_def still_fit_def)
qed

lemma call_step_behaved:
  assumes "call_step (mem_repository ord) P c w = (c', w')" and "\<forall>p \<in> holds c. fit w p"
  shows "well_behaved c w c' w'"
proof (cases c)
  case (JoinCall E i u lang pc)
  then obtain pc' where s: "join_step (mem_repository ord) P E i u lang pc w = (pc', w')" "c' = JoinCall E i u lang pc'"
    using assms(1) by (auto split: prod.splits)
  then show ?thesis
    using join_step_holds [OF s(1)] join_step_rooms [of w "mem_repository ord" P E i u lang pc]
      steps_next(1) [of "mem_repository ord" P E i u lang pc w] by (auto simp: well_behaved_def JoinCall intro: still_fitI)
next
  case (LeaveCall E i u pc)
  then obtain pc' where s: "leave_step (mem_repository ord) P E i u pc w = (pc', w')" "c' = LeaveCall E i u pc'"
    using assms(1) by (auto split: prod.splits)
  then show ?thesis
    using leave_step_holds [OF s(1)] leave_step_rooms [of w "mem_repository ord" P E i u pc]
      steps_next(2) [of "mem_repository ord" P E i u pc w] by (auto simp: well_behaved_def LeaveCall intro: still_fitI)
next
  case (DeleteCall E i pc)
  then obtain pc' where s: "delete_step (mem_repository ord) P E i pc w = (pc', w')" "c' = DeleteCall E i pc'"
    using assms(1) by (auto split: prod.splits)
  then show ?thesis
    using delete_step_holds [OF s(1)] delete_step_rooms [of w "mem_repository ord" P E i pc]
      steps_next(3) [of "mem_repository ord" P E i pc w] by (auto simp: well_behaved_def DeleteCall intro: still_fitI)
next
  case (CreateCall E a b pc)
  then show ?thesis using assms create_step_behaved [of ord E a b pc w] by (auto split: prod.splits)
next
  case (TimerCall E sid t pc)
  then obtain pc' where s: "timer_step (mem_repository ord) P E sid t pc w = (pc', w')" "c' = TimerCall E sid t pc'"
    using assms(1) by (auto split: prod.splits)
  have fit: "still_fit w w'" using timer_step_rooms [of w "mem_repository ord" P E sid t pc] s(1) by (auto intro: still_fitI)
  have "restored (sv_heap w) (holds c) (sv_repo w) (sv_repo w') \<and> holds c' \<subseteq> holds c \<union> ran (sv_repo w)"
  proof (cases pc)
    case (TimerDelete dpc)
    then show ?thesis
      using s delete_step_holds [of ord P E "gt_roomID t" dpc w]
      by (cases dpc) (auto simp: TimerCall restored_def frame_simps split: prod.splits)
  qed (use s in \<open>auto simp: TimerCall restored_def\<close>)
  then show ?thesis using fit s(2) by (auto simp: well_behaved_def)
qed

text \<open>Between accesses.\<close>

definition rooms_fit :: "pending_call list \<times> (mem_repo, 'p) service \<Rightarrow> bool" where
  "rooms_fit = (\<lambda>(cs, w). (\<forall>i p. sv_repo w i = Some p \<longrightarrow> fit w p \<and> rm_ID (sv_heap w p) = i)
     \<and> (\<forall>n < length cs. \<forall>p \<in> holds (cs ! n). fit w p)
     \<and> (\<forall>n < length cs. \<forall>p. creating (cs ! n) = Some p \<longrightarrow> p \<notin> ran (sv_repo w) \<and> (\<forall>m < length cs. m \<noteq> n \<longrightarrow> p \<notin> holds (cs ! m))))"

lemma rooms_fitD:
  assumes "rooms_fit (cs, w)"
  shows "sv_repo w i = Some p \<Longrightarrow> fit w p \<and> rm_ID (sv_heap w p) = i"
    and "n < length cs \<Longrightarrow> p \<in> holds (cs ! n) \<Longrightarrow> fit w p"
    and "n < length cs \<Longrightarrow> creating (cs ! n) = Some p \<Longrightarrow> p \<notin> ran (sv_repo w)"
    and "n < length cs \<Longrightarrow> creating (cs ! n) = Some p \<Longrightarrow> m < length cs \<Longrightarrow> m \<noteq> n \<Longrightarrow> p \<notin> holds (cs ! m)"
  using assms unfolding rooms_fit_def by blast+

lemma rooms_fit_step:
  assumes ok: "rooms_fit (cs, w)" and n: "n < length cs" and step: "call_step (mem_repository ord) P (cs ! n) w = (c', w')"
  shows "rooms_fit (cs[n := c'], w')"
proof -
  note o = rooms_fitD [OF ok]
  have b: "well_behaved (cs ! n) w c' w'" by (rule call_step_behaved [OF step]) (use o(2) [OF n] in blast)
  have keep: "fit w' p \<and> rm_ID (sv_heap w' p) = rm_ID (sv_heap w p)" if "fit w p" for p
    using b that by (simp add: well_behaved_def still_fit_def)
  have repo: "restored (sv_heap w) (holds (cs ! n)) (sv_repo w) (sv_repo w')" using b by (simp add: well_behaved_def)
  have stored: "sv_repo w i = Some p \<or> p \<in> holds (cs ! n) \<and> i = rm_ID (sv_heap w p)" if "sv_repo w' i = Some p" for i p
    using repo that by (auto simp: restored_def split: if_splits)
  have old: "fit w p" if "p \<in> holds (cs ! m) \<and> m < length cs \<or> p \<in> ran (sv_repo w)" for m p
    using that o(1) [of _ p] o(2) [of m p] by (auto simp: ran_def)
  have held: "p \<in> holds (cs ! n) \<or> p \<in> ran (sv_repo w) \<or> p = sv_next w \<and> fit w' p" if "p \<in> holds c'" for p
    using b that unfolding well_behaved_def by blast
  have ran': "p \<in> ran (sv_repo w) \<or> p \<in> holds (cs ! n)" if "p \<in> ran (sv_repo w')" for p
    using that stored by (fastforce simp: ran_def)
  have "fit w' p \<and> rm_ID (sv_heap w' p) = i" if "sv_repo w' i = Some p" for i p
    using stored [OF that] o(1) [of i p] keep [of p] o(2) [OF n, of p] by auto
  moreover have "fit w' p" if "m < length cs" "p \<in> holds (cs[n := c'] ! m)" for m p
  proof (cases "m = n")
    case True
    then have "p \<in> holds c'" using that n by simp
    from held [OF this] show ?thesis using old [of p n] n keep [of p] by blast
  next
    case False
    then show ?thesis using that o(2) [of m p] keep [of p] by simp
  qed
  moreover have "p \<notin> ran (sv_repo w') \<and> (\<forall>k < length cs. k \<noteq> m \<longrightarrow> p \<notin> holds (cs[n := c'] ! k))"
    if m: "m < length cs" and cr: "creating (cs[n := c'] ! m) = Some p" for m p
  proof (cases "m = n")
    case True
    then have c': "creating c' = Some p" using cr n by simp
    then consider (started) "p = sv_next w" "sv_repo w' = sv_repo w" | (goes_on) "creating (cs ! n) = Some p" "sv_repo w' = sv_repo w"
      using b unfolding well_behaved_def by blast
    then show ?thesis
    proof cases
      case started
      then have "\<not> fit w p" by (simp add: fit_def)
      then show ?thesis using started(2) old [of p] True by (metis nth_list_update_neq)
    next
      case goes_on
      then show ?thesis using o(3) [OF n, of p] o(4) [OF n, of p] True by simp
    qed
  next
    case False
    then have c: "creating (cs ! m) = Some p" using cr by simp
    have "fit w p" by (rule o(2) [OF m creating_holds [OF c]])
    then have "p \<noteq> sv_next w" by (auto simp: fit_def)
    moreover have "p \<notin> holds (cs ! n)" "p \<notin> ran (sv_repo w)" using o(3,4) m c n False by blast+
    ultimately have "p \<notin> holds c'" "p \<notin> ran (sv_repo w')" using held [of p] ran' [of p] by blast+
    then show ?thesis using o(4) [OF m c] n by (metis nth_list_update)
  qed
  ultimately show ?thesis unfolding rooms_fit_def by simp
qed

lemma interleave_rooms_fit:
  "interleave (mem_repository ord) P ns (cs, w) = (cs', w') \<Longrightarrow> rooms_fit (cs, w) \<Longrightarrow> rooms_fit (cs', w')"
proof (induction ns arbitrary: cs w)
  case (Cons n ns)
  show ?case
  proof (cases "n < length cs")
    case True
    obtain c w1 where c: "call_step (mem_repository ord) P (cs ! n) w = (c, w1)" by fastforce
    show ?thesis using Cons.IH [of "cs[n := c]" w1] rooms_fit_step [OF Cons.prems(2) True c] Cons.prems(1) c True by simp
  qed (use Cons in simp)
qed simp

lemma rooms_fit_start:
  assumes "service_reach ord P w" and "\<forall>c \<in> set cs. not_begun c"
  shows "rooms_fit (cs, w)"
proof -
  note rs = rooms_soundD [OF consistentD(4) [OF service_reach_consistent [OF assms(1)]]]
  have "fit w p \<and> rm_ID (sv_heap w p) = i" if "sv_repo w i = Some p" for i p
    using rs [OF that] by (simp add: fit_def defaultCapacity_def)
  moreover have "holds (cs ! n) = {}" "creating (cs ! n) = None" if "n < length cs" for n
    using not_begun_holds assms(2) that by simp_all
  ultimately show ?thesis unfolding rooms_fit_def by simp
qed

text \<open>
  C24: whatever calls of \<open>CreateRoom\<close>, \<open>JoinRoom\<close>, \<open>LeaveRoom\<close> and \<open>DeleteRoom\<close> and timers are begun in a state that whole
  calls have reached, and however their accesses interleave, a room that is stored at some moment, be it one of these calls that
  has created it, has at most two participants then and ever after, also when it has been deleted; it is stored under its
  own ID; its ID, languages and code stay; and once it is closed it stays closed and empty.
\<close>

theorem no_interleaving_overfills_a_room:
  assumes "service_reach ord P w" and "\<forall>c \<in> set cs. not_begun c"
    and "interleave (mem_repository ord) Q ns (cs, w) = (cs', w')" and "sv_repo w' i = Some p"
    and "interleave (mem_repository ord) Q ms (cs', w') = (cs'', w'')"
  shows "rm_ID (sv_heap w' p) = i \<and> card (rm_Participants (sv_heap w' p)) \<le> 2
    \<and> finite (rm_Participants (sv_heap w'' p)) \<and> card (rm_Participants (sv_heap w'' p)) \<le> 2
    \<and> rm_ID (sv_heap w'' p) = i \<and> rm_ShortCode (sv_heap w'' p) = rm_ShortCode (sv_heap w' p)
    \<and> rm_SourceLang (sv_heap w'' p) = rm_SourceLang (sv_heap w' p)
    \<and> rm_TargetLang (sv_heap w'' p) = rm_TargetLang (sv_heap w' p)
    \<and> (\<not> rm_Active (sv_heap w' p) \<longrightarrow> \<not> rm_Active (sv_heap w'' p) \<and> rm_Participants (sv_heap w'' p) = {})"
proof -
  have ok: "rooms_fit (cs', w')" by (rule interleave_rooms_fit [OF assms(3) rooms_fit_start [OF assms(1,2)]])
  note f = rooms_fitD(1) [OF ok assms(4)]
  have "p \<in> ran (sv_repo w')" using assms(4) by (auto simp: ran_def)
  then have "\<forall>c \<in> set cs'. creating c \<noteq> Some p" using rooms_fitD(3) [OF ok] by (metis in_set_conv_nth)
  from interleave_room [OF assms(5) _ this] f obtain ops where ops: "sv_heap w'' p = room_run (sv_heap w' p) ops"
    by (auto simp: fit_def room_evolves_def)
  have "room_ok (sv_heap w' p)" "room_ok (sv_heap w'' p)" "rm_Capacity (sv_heap w'' p) = 2" "rm_Capacity (sv_heap w' p) = 2"
    using f by (simp_all add: fit_def ops room_run_ok room_run_capacity)
  then show ?thesis
    using f room_run_closed [of "sv_heap w' p" ops] room_run_frame [of "sv_heap w' p" ops]
    by (auto simp: ops [symmetric] room_ok_def)
qed

text \<open>Two users, a deletion and a creation, in turns, on a room with one participant.\<close>

definition three_calls :: "pending_call list" where
  "three_calls =
     [JoinCall (example_env (2 * second) ''b'') ''r'' ''bob'' ''es'' JoinStart,
       JoinCall (example_env (2 * second) ''c'') ''r'' ''carol'' ''es'' JoinStart,
       DeleteCall (example_env (2 * second) ''d'') ''r'' DeleteStart,
       CreateCall (example_env (2 * second) ''q'') ''en'' ''fr'' CreateStart]"

definition three_in_turn :: "pending_call list \<times> (mem_repo, unit) service" where
  "three_in_turn = interleave example_repo quiet_peer [0, 1, 3, 2, 0, 1, 3, 0, 2, 1] (three_calls, run2)"

theorem no_interleaving_overfills_a_room_witness:
  "card (rm_Participants (sv_heap (snd three_in_turn) 0)) \<le> 2"
proof -
  obtain cs w' where s: "three_in_turn = (cs, w')" by fastforce
  have p: "sv_repo run2 ''r'' = Some 0" by (simp add: run2_sel)
  have "\<forall>c \<in> set three_calls. not_begun c" by (simp add: three_calls_def)
  from no_interleaving_overfills_a_room [OF reach2 this _ p s [unfolded three_in_turn_def], where ns = "[]"]
  show ?thesis by (simp add: s)
qed

end
