(* ===== verification/Room_Manager.thy ===== *)
theory Room_Manager
  imports Service_Properties
begin

section \<open>The driving port: internal/ports/driving/room_manager.go\<close>

text \<open>
  \<open>RoomManager\<close> is what the HTTP server knows of the service.  It is a record of functions here, \<open>Service\<close> is an
  instance of it, and the errors its comments promise are the laws of a locale, interpreted on the service in the states it can
  reach.
\<close>

record 'w room_manager =
  mg_CreateRoom :: "env \<Rightarrow> string \<Rightarrow> string \<Rightarrow> 'w \<Rightarrow> (gerror + room_ptr) \<times> 'w"
  mg_DeleteRoom :: "env \<Rightarrow> string \<Rightarrow> 'w \<Rightarrow> gerror option \<times> 'w"
  mg_JoinRoom :: "env \<Rightarrow> string \<Rightarrow> string \<Rightarrow> string \<Rightarrow> 'w \<Rightarrow> (gerror + string) \<times> 'w"
  mg_LeaveRoom :: "env \<Rightarrow> string \<Rightarrow> string \<Rightarrow> 'w \<Rightarrow> gerror option go_result \<times> 'w"
  mg_RoomExists :: "string \<Rightarrow> 'w \<Rightarrow> gerror option"
  mg_FindByShortCode :: "string \<Rightarrow> 'w \<Rightarrow> gerror + room_ptr"
  mg_UpdateLastActivity :: "env \<Rightarrow> string \<Rightarrow> 'w \<Rightarrow> gerror option \<times> 'w"

definition service_manager :: "'r room_repository \<Rightarrow> 'p webrtc_peer \<Rightarrow> ('r, 'p) service room_manager" where
  "service_manager R P =
     \<lparr>mg_CreateRoom = CreateRoom R, mg_DeleteRoom = DeleteRoom R P, mg_JoinRoom = JoinRoom R P, mg_LeaveRoom = LeaveRoom R P,
      mg_RoomExists = RoomExists R, mg_FindByShortCode = svc_FindByShortCode R, mg_UpdateLastActivity = svc_UpdateLastActivity R\<rparr>"

abbreviation not_found :: "gerror \<Rightarrow> bool" where
  "not_found e \<equiv> errors_Is e ErrRoomNotFound"

text \<open>
  \<open>good\<close>: the states of the manager; \<open>usable\<close>: the clock, the UUID and the map orders a call may see in a state;
  \<open>rooms\<close>: the IDs of the rooms that exist.
\<close>

locale documented_manager =
  fixes M :: "'w room_manager" and good :: "'w \<Rightarrow> bool" and usable :: "'w \<Rightarrow> env \<Rightarrow> bool" and rooms :: "'w \<Rightarrow> string set"
  assumes good_create: "good w \<Longrightarrow> usable w E \<Longrightarrow> good (snd (mg_CreateRoom M E src tgt w))"
    and good_delete: "good w \<Longrightarrow> usable w E \<Longrightarrow> good (snd (mg_DeleteRoom M E i w))"
    and created: "good w \<Longrightarrow> usable w E \<Longrightarrow> mg_CreateRoom M E src tgt w = (Inr p, w') \<Longrightarrow> rooms w' = insert (ev_uuid E) (rooms w)"
    and deleted: "good w \<Longrightarrow> usable w E \<Longrightarrow> i \<in> rooms w \<Longrightarrow> \<exists>w'. mg_DeleteRoom M E i w = (None, w') \<and> rooms w' = rooms w - {i}"
    and delete_unknown: "good w \<Longrightarrow> i \<notin> rooms w \<Longrightarrow> \<exists>e. mg_DeleteRoom M E i w = (Some e, w) \<and> not_found e"
    and join_unknown: "good w \<Longrightarrow> i \<notin> rooms w \<Longrightarrow> lang \<noteq> [] \<Longrightarrow> \<exists>e. mg_JoinRoom M E i u lang w = (Inl e, w) \<and> not_found e"
    and join_missing_lang: "\<exists>e. mg_JoinRoom M E i u [] w = (Inl e, w) \<and> errors_Is e ErrMissingLang"
    and exists_known: "good w \<Longrightarrow> i \<in> rooms w \<Longrightarrow> mg_RoomExists M i w = None"
    and exists_unknown: "good w \<Longrightarrow> i \<notin> rooms w \<Longrightarrow> \<exists>e. mg_RoomExists M i w = Some e \<and> not_found e"
    and touch_unknown: "good w \<Longrightarrow> i \<notin> rooms w \<Longrightarrow> \<exists>e. mg_UpdateLastActivity M E i w = (Some e, w) \<and> not_found e"
begin

lemma deleted_unknown:
  assumes "good w" and "usable w E" and "mg_DeleteRoom M E i w = (None, w')"
  shows "good w' \<and> i \<in> rooms w \<and> i \<notin> rooms w'"
proof -
  have "i \<in> rooms w" using delete_unknown [OF assms(1), of i E] assms(3) by fastforce
  then show ?thesis using deleted [OF assms(1,2), of i] good_delete [OF assms(1,2), of i] assms(3) by auto
qed

lemma after_deletion:
  assumes "good w" and "usable w E" and "mg_DeleteRoom M E i w = (None, w')" and "lang \<noteq> []"
  shows "(\<exists>e. mg_DeleteRoom M E' i w' = (Some e, w') \<and> not_found e)
    \<and> (\<exists>e. mg_JoinRoom M E' i u lang w' = (Inl e, w') \<and> not_found e)
    \<and> (\<exists>e. mg_RoomExists M i w' = Some e \<and> not_found e)
    \<and> (\<exists>e. mg_UpdateLastActivity M E' i w' = (Some e, w') \<and> not_found e)"
proof -
  have "good w'" "i \<notin> rooms w'" using deleted_unknown [OF assms(1-3)] by blast+
  then show ?thesis by (intro conjI delete_unknown join_unknown exists_unknown touch_unknown assms(4))
qed

lemma created_and_deleted:
  assumes "good w" and "usable w E" and "mg_CreateRoom M E src tgt w = (Inr p, w')" and "usable w' E'"
  shows "mg_RoomExists M (ev_uuid E) w' = None \<and> fst (mg_DeleteRoom M E' (ev_uuid E) w') = None"
proof -
  have "good w'" using good_create [OF assms(1,2), of src tgt] assms(3) by simp
  moreover have "ev_uuid E \<in> rooms w'" using created [OF assms(1-3)] by simp
  ultimately show ?thesis using exists_known [of w' "ev_uuid E"] deleted [OF _ assms(4), of "ev_uuid E"] by fastforce
qed

end

text \<open>The in-memory service honours its port.\<close>

lemma JoinRoom_unknown:
  "sv_repo w i = None \<Longrightarrow> lang \<noteq> [] \<Longrightarrow> \<exists>e. JoinRoom (mem_repository ord) P E i u lang w = (Inl e, w) \<and> not_found e"
  by (simp add: JoinRoom_def mem_FindByID_def)

interpretation svc: documented_manager "service_manager (mem_repository ord) P" "\<lambda>w. service_reach ord P w \<and> ord_ok ord"
    "\<lambda>w E. env_ok E \<and> fresh_uuid w (ev_uuid E)" "\<lambda>w. dom (sv_repo w)" for ord P
proof (unfold_locales, goal_cases)
  case (1 w E src tgt)
  then show ?case using service_reach.call [of ord P w E "CallCreate src tgt"] by (simp add: service_manager_def)
next
  case (2 w E i)
  then show ?case using service_reach.call [of ord P w E "CallDelete i"] by (simp add: service_manager_def)
next
  case (3 w E src tgt p w')
  then show ?case using create_effect [of ord P w E src tgt "Inr p" w'] by (simp add: service_manager_def)
next
  case (4 w E i)
  then obtain p where p: "sv_repo w i = Some p" by auto
  obtain x w' where D: "DeleteRoom (mem_repository ord) P E i w = (x, w')" by fastforce
  have "x = None" "sv_repo w' = (sv_repo w)(i := None)"
    using 4 delete_mem [OF service_reach_consistent _ p D] by blast+
  then show ?case using D by (auto simp: service_manager_def)
next
  case (5 w i E)
  then show ?case using memR.DeleteRoom_absent [of w i ord P E] by (auto simp: service_manager_def)
next
  case (6 w i lang E u)
  then show ?case using JoinRoom_unknown [of w i lang ord P E u] by (auto simp: service_manager_def)
qed (auto simp: service_manager_def JoinRoom_def RoomExists_def mem_FindByID_def svc_UpdateLastActivity_def mem_UpdateLastActivity_def)

lemma leave_after_deletion:
  assumes c: "consistent (sv_repo w) w" and none: "sv_repo w i = None" and i: "CHR '':'' \<notin> set i"
  shows "case sv_lookup w (lookupKey i u) of
      None \<Rightarrow> LeaveRoom (mem_repository ord) P E i u w = (Return (Some (Wrapped ''roomsvc.LeaveRoom'' (Sentinel ErrSessionNotFound))), w)
    | Some sid \<Rightarrow> u = [] \<and> (\<exists>s. sv_sessions w sid = Some s \<and> LeaveRoom (mem_repository ord) P E i u w
        = (Return (Some (Wrapped ''roomsvc.LeaveRoom'' (Wrapped ''roomsvc.FindByID'' (Sentinel ErrRoomNotFound)))),
           w\<lparr>sv_sessions := (sv_sessions w)(sid \<mapsto> Disconnect s), sv_peer := snd (CloseSession P sid (sv_peer w))\<rparr>))"
proof (cases "sv_lookup w (lookupKey i u)")
  case (Some sid)
  from key_room_session [OF c i Some] obtain s where s: "s \<in> room_sessions w i" "se_UserID s = u" "se_ID s = sid" by blast
  then have "sv_sessions w sid = Some s" "se_RoomID s = i" by (simp_all add: room_sessions_iff [OF c])
  moreover from this have "u = []" using consistentD(6) [OF c] s(2) none by (metis domIff hosted_def)
  ultimately show ?thesis using Some none by (simp add: LeaveRoom_def mem_FindByID_def Let_def)
qed (simp add: LeaveRoom_def)

text \<open>
  C21: once \<open>DeleteRoom\<close> has succeeded, the room is unknown to the other operations of the port that take its ID or
  its code: deleting it, asking for it, touching it, searching its code, and joining it in some language fail with
  \<open>ErrRoomNotFound\<close>, as documented, joining without a language with \<open>ErrMissingLang\<close>, and change nothing.  Leaving it fails with
  \<open>ErrSessionNotFound\<close> and changes nothing, although the port documents \<open>ErrRoomNotFound\<close>; only where a
  session of a user with an empty ID has outlived the room does leaving fail with \<open>ErrRoomNotFound\<close>, and it then marks that
  session as disconnected and closes its peer connection.
\<close>

theorem deleted_room_is_unknown:
  assumes "service_reach ord P w" and "ord_ok ord" and "env_ok E" and "fresh_uuid w (ev_uuid E)"
    and "DeleteRoom (mem_repository ord) P E i w = (None, w')"
  shows "(\<exists>e. DeleteRoom (mem_repository ord) P E' i w' = (Some e, w') \<and> errors_Is e ErrRoomNotFound)
    \<and> (\<exists>e. JoinRoom (mem_repository ord) P E' i u lang w' = (Inl e, w')
          \<and> errors_Is e (if lang = [] then ErrMissingLang else ErrRoomNotFound))
    \<and> (\<exists>e. RoomExists (mem_repository ord) i w' = Some e \<and> errors_Is e ErrRoomNotFound)
    \<and> (\<exists>e. svc_UpdateLastActivity (mem_repository ord) E' i w' = (Some e, w') \<and> errors_Is e ErrRoomNotFound)
    \<and> (\<exists>p. sv_repo w i = Some p \<and> (\<forall>code. ToUpper code = rm_ShortCode (sv_heap w p)
          \<longrightarrow> (\<exists>e. svc_FindByShortCode (mem_repository ord) code w' = Inl e \<and> errors_Is e ErrRoomNotFound)))
    \<and> (case sv_lookup w' (lookupKey i u) of
        None \<Rightarrow> LeaveRoom (mem_repository ord) P E' i u w' = (Return (Some (Wrapped ''roomsvc.LeaveRoom'' (Sentinel ErrSessionNotFound))), w')
      | Some sid \<Rightarrow> u = [] \<and> (\<exists>s. sv_sessions w' sid = Some s \<and> LeaveRoom (mem_repository ord) P E' i u w'
          = (Return (Some (Wrapped ''roomsvc.LeaveRoom'' (Wrapped ''roomsvc.FindByID'' (Sentinel ErrRoomNotFound)))),
             w'\<lparr>sv_sessions := (sv_sessions w')(sid \<mapsto> Disconnect s), sv_peer := snd (CloseSession P sid (sv_peer w'))\<rparr>)))"
proof -
  have D: "mg_DeleteRoom (service_manager (mem_repository ord) P) E i w = (None, w')" by (simp add: service_manager_def assms(5))
  note before = conjI [OF assms(1,2)] conjI [OF assms(3,4)] D
  note known = svc.deleted_unknown [OF before]
  obtain p where p: "sv_repo w i = Some p" using known by auto
  have c: "consistent (sv_repo w') w'" "sv_repo w' i = None" using known service_reach_consistent by blast+
  have "\<exists>e. JoinRoom (mem_repository ord) P E' i u lang w' = (Inl e, w')
      \<and> errors_Is e (if lang = [] then ErrMissingLang else ErrRoomNotFound)"
    using svc.join_missing_lang [of ord P E' i u w'] JoinRoom_unknown [OF c(2), of lang ord P E' u]
    by (cases "lang = []") (auto simp: service_manager_def)
  moreover have "\<exists>p. sv_repo w i = Some p \<and> (\<forall>code. ToUpper code = rm_ShortCode (sv_heap w p)
      \<longrightarrow> (\<exists>e. svc_FindByShortCode (mem_repository ord) code w' = Inl e \<and> errors_Is e ErrRoomNotFound))"
    using deleted_code [OF assms(1-3) p assms(5)] p by auto
  moreover note leave_after_deletion [OF c rooms_soundD(3) [OF consistentD(4) [OF service_reach_consistent [OF assms(1)]] p], where u = u and ord = ord and P = P and E = E']
  ultimately show ?thesis
    using svc.after_deletion [OF before, of "''en''" E' u] by (simp add: service_manager_def)
qed

theorem deleted_room_is_unknown_witness:
  "fst (LeaveRoom example_repo quiet_peer (example_env 4 ''d'') ''r'' ''alice'' (snd (DeleteRoom example_repo quiet_peer (example_env 3 ''c'') ''r'' run3)))
     = Return (Some (Wrapped ''roomsvc.LeaveRoom'' (Sentinel ErrSessionNotFound)))"
proof -
  have p: "sv_repo run3 ''r'' = Some 0" by (simp add: run3_sel)
  obtain w' where D: "DeleteRoom example_repo quiet_peer (example_env 3 ''c'') ''r'' run3 = (None, w')"
    using delete_mem [OF service_reach_consistent [OF reach3] example_env_ok p prod.collapse [symmetric]] prod.collapse by metis
  have "fresh_uuid run3 (ev_uuid (example_env 3 ''c''))" by (simp add: fresh_eval run3_sel)
  from deleted_room_is_unknown [OF reach3 ord_ok_sorted example_env_ok this D, of "example_env 4 ''d''" "''alice''" "''en''"]
  show ?thesis by (auto simp: D split: option.splits)
qed

end
