(* ===== verification/Translation.thy ===== *)
theory Translation
  imports Prelude "HOL-Library.Word"
begin

section \<open>The translation chunk: internal/domain/translation/translation.go\<close>

text \<open>
  The struct \<open>Chunk\<close> and its constructor, which takes the time from the clock.  Nothing else in the repository uses them.
\<close>

record translation_chunk =
  tc_ID :: string
  tc_SessionID :: string
  tc_Payload :: "8 word list"
  tc_SourceLang :: string
  tc_TargetLang :: string
  tc_Timestamp :: time

definition NewChunk :: "string \<Rightarrow> string \<Rightarrow> 8 word list \<Rightarrow> string \<Rightarrow> string \<Rightarrow> time \<Rightarrow> translation_chunk" where
  "NewChunk i sessionID payload sourceLang targetLang now =
     \<lparr>tc_ID = i, tc_SessionID = sessionID, tc_Payload = payload, tc_SourceLang = sourceLang,
      tc_TargetLang = targetLang, tc_Timestamp = now\<rparr>"

end
