(* ===== verification/Spec2Isabelle.thy ===== *)
theory Spec2Isabelle
  imports Example_Run Room_Abstraction Races Connection Pipeline_End Server_Main Realtime Speech_Path Result_Channel
    Loadgen_Session Deployment_Properties Deployment_Crash Deployment_Shutdown Access_Run Interleaving_Rooms Room_Manager Translation
begin

text \<open>
  TalkGo is a server through which two people speak, each in their own language.  A room is created over
  HTTP and has a six-letter code; the two join it over a WebSocket; each sends audio over WebRTC, which
  the server decodes, has transcribed, translated and spoken by OpenAI, encodes and sends to the other.
  This development models the Go code under \<open>src/cmd\<close> and \<open>src/internal\<close>.  Definitions keep the names of
  the code; a prefix (\<open>rm_\<close>, \<open>se_\<close>, \<open>sv_\<close>, \<open>mem_\<close>, \<open>pion_\<close>, \<open>rt_\<close>, \<open>stt_\<close>, \<open>lg_\<close>) tells fields and methods
  of different types apart.

  \<^bold>\<open>The parts.\<close>  The domain (rooms, sessions) is pure.  The application service \<open>roomsvc.Service\<close> owns the
  session registry, the lookup map, the grace timers and the pipelines, and reaches the repository, the
  WebRTC peer, the translator, the codec and the notifier through ports.  The hub owns the WebSocket
  clients, hands messages to the service and delivers its notifications.  The HTTP server owns the
  routes and two rate limiters.  \<open>cmd/server\<close> wires them; \<open>cmd/loadgen\<close> tests the result from outside.

  \<^bold>\<open>Theories and sources\<close> (below \<open>src/internal\<close> unless said otherwise).
  \<^item> \<open>Prelude\<close>: errors with wrapping as values, Go's map enumeration as an argument, hint collections.
    \<open>Go_Text\<close>, \<open>Base64\<close>: what the code uses of \<open>strings\<close>, \<open>strconv\<close>, runes and base64.
  \<^item> \<open>Room\<close>, \<open>Session\<close>: \<open>domain/room\<close>, \<open>domain/session\<close>.  A room's participants are a set, its methods
    return the new room or an error; the reader of \<open>GenerateShortCode\<close> is what \<open>io.ReadFull\<close> sees of it.
  \<^item> \<open>Ports\<close>: \<open>ports/driven\<close>, \<open>ports/driving\<close> as records of functions over an adapter state, with the laws
    of a repository as the locales the service's lemmas are proved in.
  \<^item> \<open>Repository\<close>, \<open>Service\<close>, \<open>Service_Registry\<close>, \<open>Service_Rooms\<close>, \<open>Latency\<close>, \<open>Channel\<close>, \<open>Pipeline\<close>,
    \<open>Pipeline_End\<close>: \<open>app/roomsvc\<close>.  Rooms are shared by pointer, so the state \<open>service\<close> holds a heap of room objects and
    the repository maps IDs to pointers.  One definition per method; goroutines and timers a method
    starts are recorded in the state and run by steps of their own.
  \<^item> \<open>System\<close>, \<open>Evolution\<close>, \<open>Service_Properties\<close>, \<open>Room_Abstraction\<close>, \<open>Example_Run\<close>: the service over the
    in-memory repository.  \<open>service_reach\<close> are the states that calls, messages, pipelines, timers and
    sweeps can reach in any order; \<open>Example_Run\<close> is the run the witnesses evaluate.  \<open>Room_Manager\<close> is the driving
    port, with the errors it documents.  \<open>Interleaving\<close> cuts
    \<open>CreateRoom\<close>, \<open>JoinRoom\<close>, \<open>LeaveRoom\<close>, \<open>DeleteRoom\<close> and the function of the grace timers at their
    accesses to shared state and runs the pieces interleaved; \<open>Interleaving_Registry\<close> is the invariant of the
    registry that survives it, \<open>Interleaving_Rooms\<close> that of the rooms, those created on the way included, \<open>Races\<close> are
    schedules that break what whole calls keep.
  \<^item> \<open>Hub\<close>, \<open>Connection\<close>: \<open>adapters/signaling\<close>, the hub as a step relation over register, unregister,
    dispatch and notify, and one connection with its two pumps.  The loop closes a client's queue and the
    read pump its connection in two steps, so that the write pump may still write what is queued, and its close frame, in between.
  \<^item> \<open>Rate_Limiter\<close>, \<open>Http_Server\<close>: \<open>adapters/http\<close>, a function per handler from request and state to
    outcome and state.
  \<^item> \<open>Pion_Peer\<close>, \<open>Peer_Sessions\<close>: \<open>adapters/webrtc\<close> over the Pion library as a parameter, and the service
    with this adapter as its peer.  Pion starts the audio handler once per remote track, so a half in \<open>Pipeline\<close> has any
    number of frame callbacks, and in \<open>Pipeline_End\<close> its helpers end only when their channels are closed or the context is done.
  \<^item> \<open>Streams\<close>, \<open>Codec\<close>: the shape of a goroutine that carries one channel to another, and
    \<open>adapters/codec\<close> over libopus as a parameter.
  \<^item> \<open>Openai_Http\<close>, \<open>Whisper_STT\<close>, \<open>Realtime\<close>, \<open>Pipeline_Translator\<close>, \<open>Result_Channel\<close>: \<open>adapters/tts\<close>
    and \<open>adapters/translator\<close> over \<open>net/http\<close>, the WebSocket, the JSON decoder and the language detector as
    parameters.  \<open>Speech_Path\<close> composes speech, drainer and encoder.
  \<^item> \<open>Server_Main\<close>: \<open>src/cmd/server\<close>, configuration, wiring, shutdown and exit code, and
    \<open>server_reach\<close>, the states of the running server.
  \<^item> \<open>Deployment\<close>: the running program as one step relation over HTTP server, service, hub, the pumps of
    every connection and the goroutines of \<open>run\<close>; a notification of the service reaches the queues of the hub in the
    step that makes it.  \<open>deployment_reach\<close> are its states, for clients that send \<open>anything\<close> or
    behave \<open>like_the_app\<close> (a connection joins once, the room of its URL).  \<open>Deployment_Rooms\<close> holds
    the invariants, \<open>Deployment_Pumps\<close> shows each connection to be a run of \<open>Connection\<close>,
    \<open>Deployment_Run\<close> and \<open>Deployment_Crash\<close> are concrete runs,
    \<open>Deployment_Properties\<close> and \<open>Deployment_Shutdown\<close> what follows.
  \<^item> \<open>Fine_Deployment\<close>: the same program with the notifications of a call taken apart.  The call changes
    the service; then its goroutine looks each client up in one step and sends in another, and \<open>dispatch\<close> binds a joined
    session only when that is done; any other step may come in between.  \<open>Fine_Properties\<close> holds the
    invariant and what follows, \<open>Fine_Run\<close> two concrete runs.
  \<^item> \<open>Access_Deployment\<close>: the same again with the calls of the service taken apart as in \<open>Interleaving\<close>; of joins,
    leaves, creations, deletions and timers any number may be in progress, one access at a time, between all other
    steps.  \<open>Access_Properties\<close> holds the invariant of the registry for the whole server and the one panic that is
    left, \<open>Access_Run\<close> that a join nobody interrupts is the step \<open>Fine_Deployment\<close> has for it, and the run that ends in
    that panic.
  \<^item> \<open>Loadgen_Report\<close>, \<open>Loadgen_Session\<close>: \<open>src/cmd/loadgen\<close>.

  \<^bold>\<open>What is shown.\<close> For the service: a well-formedness invariant of all states that
  whole calls, one after the other, reach (\<open>consistent\<close>, preserved by each operation over every repository that honours its
  contract), from it that rooms and sessions agree, the decision table and the complete effect of
  \<open>JoinRoom\<close>, the confinement of \<open>DeleteRoom\<close>, the uniqueness of codes and the
  exactness of lookup, sweep and timer; the refinement of an abstract contract, a map from rooms to
  their users with one clause per way of changing it; and that no interleaving of the accesses of
  concurrent calls overfills a room or makes one panic. For the hub: no send on a closed channel while connections join one
  session each, who receives what, and that a connection writes what was queued in order. For the HTTP
  side: the bounds and the independence of the limiter, the statuses of the running server, the round
  trip of a room through its routes. For the audio path: a half whose source has one
  track does not panic, under every interleaving, no loss of the newest frame, codecs that do not depend on chunking, packet numbering,
  the speech in the order of the phrases whatever order the translations finish in, the protocol of the
  realtime socket under every interleaving; and the ends: every translation arrives while its drainer
  receives, and a pipeline that is not held by an open channel stops once, after all its goroutines. For the whole server, while its
  clients behave like the app and the accesses of the service interleave: the one panic is a send to a client that has gone since it
  was looked up, and whenever a client waits to be told, it can go in between; a connection hears answers to its own messages,
  of its own session and of its own room only.  With the dispatch of a message as one step: the second user of a room is announced to
  the first; a user whose session is still open comes back to it and loses nothing; every connection is a run of the
  connection model.  After the hub loop has returned nobody leaves. For the load generator: a quicksort
  that sorts and statistics that are in order. Several theorems beside these exhibit behaviour that
  contradicts a comment or an evident intention: among them \<open>double_join_crashes\<close>,
  \<open>two_joins_on_one_connection_crash_the_server\<close>,
  \<open>a_drop_before_the_send_crashes_the_server\<close>, \<open>an_announcement_can_be_lost\<close> (whole server),
  \<open>two_tracks_can_panic\<close>, \<open>pipeline_stops_once\<close> (pipeline: what a failed half holds up),
  \<open>notify_races_unregister\<close>, \<open>late_unregister_unbinds\<close> (hub),
  \<open>answers_need_the_write_pump\<close> (connection), \<open>busy_room_is_swept\<close>,
  \<open>timer_closes_room_and_tells_only_the_dropped\<close>, \<open>stale_timer_survives_joins\<close>,
  \<open>empty_user_session_leaks\<close> (service),
  \<open>deleted_room_comes_back\<close>, \<open>left_room_comes_back\<close>,
  \<open>one_user_two_sessions\<close>, \<open>two_joins_two_pipelines\<close>,
  \<open>two_rooms_one_code\<close>, \<open>cancelled_timer_deletes_the_room\<close> (races),
  \<open>odd_reads_lose_the_speech\<close> (codec and speech), \<open>end_of_audio\<close> (realtime),
  \<open>round_trips_are_cut_off\<close>, \<open>silent_server_is_ok\<close>,
  \<open>failed_session_exits_zero\<close> (load generator).

  \<^bold>\<open>Interfaces.\<close>  The repository's contract is the locales \<open>room_store\<close> and \<open>total_room_store\<close> in \<open>Ports\<close>
  and \<open>room_backend\<close> in \<open>Service_Rooms\<close>, interpreted on the in-memory repository (\<open>mem\<close> in \<open>Repository\<close>,
  \<open>memR\<close> in \<open>System\<close>); the documented errors of \<open>RoomManager\<close>
  are the locale \<open>documented_manager\<close> in \<open>Room_Manager\<close>, interpreted on the service in its reachable states (\<open>svc\<close>); what a WebRTC peer must keep of its
  open connections is a locale in \<open>Peer_Sessions\<close>, interpreted on the Pion adapter; \<open>stage\<close> in \<open>Streams\<close> is
  the contract of a channel goroutine (it ends when its input ends, it never takes back what it has
  sent), interpreted on the pump, both codecs and the transcription receiver, and closed under chaining; \<open>talk_system\<close> in
  \<open>Fine_Run\<close> is what the concrete runs use of a relation of the whole server, interpreted on the finer one and on that of
  the accesses.

  \<^bold>\<open>Bounds and time.\<close>  Times are integers in nanoseconds.  Go's \<open>int\<close> is \<open>int\<close> or \<open>nat\<close> where a counter
  cannot reach \<open>2 ^ 63\<close>; bytes, samples, sequence numbers and timestamps keep their widths.  Loops of the
  code are total functions: structural over the list of what a goroutine receives, or with a measure
  (framing, the drainer, the quicksort); the retry loop of \<open>CreateRoom\<close> counts down \<open>MaxShortCodeRetries\<close>.
  A goroutine that waits forever is one whose list of receptions ends without an end.  Where goroutines share
  a channel of bounded capacity (the queue of eight, the results of sixteen, the frame buffer of one) the
  model is a step relation with that capacity.  The number \<open>k\<close>
  of a pump is the number of its sends that succeed before the context is done, so that quantifying over
  it covers every cancellation.

  \<^bold>\<open>Not modelled.\<close>  The WebSocket, HTTP, WebRTC, Opus and language detection libraries (parameters), log
  records, the times of deadlines, pings and tickers (their effects are steps), \<open>sync.Pool\<close>, the rounding of \<open>float64\<close> in the load generator, the
  test doubles and the mixer port, which nothing uses.  The states
  of \<open>service_reach\<close> and \<open>Deployment\<close> take a call of the service as one step, \<open>Fine_Deployment\<close> takes its notifications
  apart, \<open>Access_Deployment\<close> the accesses of \<open>CreateRoom\<close>, \<open>JoinRoom\<close>, \<open>LeaveRoom\<close>, \<open>DeleteRoom\<close>, of the join of
  \<open>HandleSignaling\<close> and of the function of the grace timers; \<open>OnDisconnect\<close>, offers and candidates, the lookups of the
  HTTP routes and an unregister event stay one step each.  In \<open>Interleaving\<close> and \<open>Access_Deployment\<close> a timer may also fire
  while it is being stopped.  Concurrent accesses to memory without a lock (data races in the sense of Go's memory model) are
  taken in some order.
\<close>

end
